(* ===== verification/Cpp_Base.thy ===== *)
theory Cpp_Base
  imports Main "HOL-Library.Word"
begin

text \<open>
  Prelude of the development: the error values of the modelled C++ code, the part of the
  C++ standard library the serving stack uses (\<open>std::string::find\<close>, \<open>substr\<close>,
  \<open>std::to_string\<close>, \<open>std::stoi\<close>, \<open>std::getenv\<close>), and the generic lemmas on
  lists and results that the components share.  A \<open>std::string\<close> is a list of bytes
  (\<open>char\<close>); a call that throws, fails an assertion or is undefined behaviour returns
  \<open>Inl\<close> of a \<open>cpp_error\<close>.
\<close>

section \<open>Results\<close>

named_theorems cpp_simps \<open>unfolding rules for the models of standard library calls\<close>

datatype cpp_error =
    AssertFailed
  | OutOfRange
  | InvalidArgument
  | NullDeref
  | RuntimeError string
  | LogFatal
  | BadAnyCast
  | UndefinedBehaviour

type_synonym 'a res = "cpp_error + 'a"

fun rbind :: "'a res \<Rightarrow> ('a \<Rightarrow> 'b res) \<Rightarrow> 'b res" where
  "rbind (Inl e) f = Inl e"
| "rbind (Inr a) f = f a"

definition cpp_assert :: "bool \<Rightarrow> 'a res \<Rightarrow> 'a res" where
  "cpp_assert b r = (if b then r else Inl AssertFailed)"

lemma rbind_eq_Inr [simp]:
  "rbind m f = Inr b \<longleftrightarrow> (\<exists>a. m = Inr a \<and> f a = Inr b)"
  by (cases m) auto

lemma rbind_assoc: "rbind (rbind m f) g = rbind m (\<lambda>a. rbind (f a) g)"
  by (cases m) auto

lemma cpp_assert_True [simp]: "cpp_assert True r = r"
  by (simp add: cpp_assert_def)

lemma cpp_assert_eq_Inr [simp]: "cpp_assert b r = Inr x \<longleftrightarrow> b \<and> r = Inr x"
  by (simp add: cpp_assert_def)

section \<open>Strings\<close>

definition starts_with :: "string \<Rightarrow> string \<Rightarrow> bool" where
  "starts_with pat s = (take (length pat) s = pat)"

fun str_find :: "string \<Rightarrow> string \<Rightarrow> nat option" where
  "str_find pat [] = (if pat = [] then Some 0 else None)"
| "str_find pat (c # s) =
     (if starts_with pat (c # s) then Some 0 else map_option Suc (str_find pat s))"

definition str_find_from :: "string \<Rightarrow> string \<Rightarrow> nat \<Rightarrow> nat option" where
  "str_find_from pat s pos =
     (if pos \<le> length s then map_option (\<lambda>i. i + pos) (str_find pat (drop pos s)) else None)"

definition str_contains :: "string \<Rightarrow> string \<Rightarrow> bool" where
  "str_contains pat s = (str_find pat s \<noteq> None)"

lemma starts_with_iff: "starts_with pat s \<longleftrightarrow> (\<exists>t. s = pat @ t)"
  by (metis append_take_drop_id append_eq_conv_conj starts_with_def)

lemma starts_with_append [simp]: "starts_with pat (pat @ t)"
  by (simp add: starts_with_def)

lemma str_find_Some:
  "str_find pat s = Some i \<Longrightarrow> i + length pat \<le> length s \<and> starts_with pat (drop i s)"
proof (induction s arbitrary: i)
  case Nil
  then show ?case by (auto split: if_splits simp: starts_with_def)
next
  case (Cons c s)
  then show ?case
    by (auto simp: starts_with_iff dest: arg_cong [where f = length] split: if_splits)
qed

lemma str_find_None: "str_find pat s = None \<Longrightarrow> \<not> starts_with pat (drop i s)"
proof (induction s arbitrary: i)
  case Nil
  then show ?case by (auto simp: starts_with_def split: if_splits)
next
  case (Cons c s)
  then show ?case by (cases i) (auto split: if_splits)
qed

lemma str_find_first:
  "str_find pat s = Some i \<Longrightarrow> j < i \<Longrightarrow> \<not> starts_with pat (drop j s)"
proof (induction s arbitrary: i j)
  case Nil
  then show ?case by (auto split: if_splits)
next
  case (Cons c s)
  then show ?case
    by (cases j) (auto split: if_splits)
qed

lemma str_find_split:
  assumes "str_find pat s = Some i"
  shows "s = take i s @ pat @ drop (i + length pat) s"
proof -
  from str_find_Some [OF assms] obtain t where t: "drop i s = pat @ t"
    by (auto simp: starts_with_iff)
  then have "drop (i + length pat) s = t"
    by (metis append_eq_conv_conj drop_drop add.commute)
  with t show ?thesis by (metis append_take_drop_id)
qed

text \<open>\<open>std::string::substr(pos, len)\<close> throws \<open>out_of_range\<close> when \<open>pos > size()\<close>.\<close>

definition substr :: "string \<Rightarrow> nat \<Rightarrow> nat \<Rightarrow> string res" where
  "substr s pos len = (if pos \<le> length s then Inr (take len (drop pos s)) else Inl OutOfRange)"

section \<open>Decimal numbers\<close>

definition digit_char :: "nat \<Rightarrow> char" where
  "digit_char d = char_of (48 + d)"

definition is_digit :: "char \<Rightarrow> bool" where
  "is_digit c = (48 \<le> (of_char c :: nat) \<and> (of_char c :: nat) \<le> 57)"

definition digit_val :: "char \<Rightarrow> nat" where
  "digit_val c = of_char c - 48"

function nat_to_string :: "nat \<Rightarrow> string" where
  "nat_to_string n =
     (if n < 10 then [digit_char n] else nat_to_string (n div 10) @ [digit_char (n mod 10)])"
  by pat_completeness auto
termination
  by (relation "measure id") auto

declare nat_to_string.simps [simp del]

definition to_string :: "int \<Rightarrow> string" where
  "to_string i = (if i < 0 then CHR ''-'' # nat_to_string (nat (- i)) else nat_to_string (nat i))"

fun read_digits :: "nat \<Rightarrow> string \<Rightarrow> nat" where
  "read_digits acc [] = acc"
| "read_digits acc (c # s) =
     (if is_digit c then read_digits (acc * 10 + digit_val c) s else acc)"

definition is_space :: "char \<Rightarrow> bool" where
  "is_space c = (c = CHR '' '' \<or> (9 \<le> (of_char c :: nat) \<and> (of_char c :: nat) \<le> 13))"

definition int_max :: int where "int_max = 2147483647"
definition int_min :: int where "int_min = - 2147483648"

definition stoi_range :: "int \<Rightarrow> int res" where
  "stoi_range i = (if int_min \<le> i \<and> i \<le> int_max then Inr i else Inl OutOfRange)"

text \<open>
  \<open>std::stoi\<close> (base 10): leading white space, an optional sign, at least one digit; the rest
  is ignored; the value has to fit an \<open>int\<close>.
\<close>

definition stoi_digits :: "bool \<Rightarrow> string \<Rightarrow> int res" where
  "stoi_digits neg s =
     (case s of
        [] \<Rightarrow> Inl InvalidArgument
      | c # _ \<Rightarrow>
          if is_digit c
          then stoi_range (if neg then - int (read_digits 0 s) else int (read_digits 0 s))
          else Inl InvalidArgument)"

definition stoi :: "string \<Rightarrow> int res" where
  "stoi s =
     (case dropWhile is_space s of
        [] \<Rightarrow> Inl InvalidArgument
      | c # t \<Rightarrow>
          if c = CHR ''-'' then stoi_digits True t
          else if c = CHR ''+'' then stoi_digits False t
          else stoi_digits False (c # t))"

lemma of_char_digit_char: "d < 10 \<Longrightarrow> (of_char (digit_char d) :: nat) = 48 + d"
  by (simp add: digit_char_def)

lemma digit_val_digit_char [simp]: "d < 10 \<Longrightarrow> digit_val (digit_char d) = d"
  by (simp add: digit_val_def of_char_digit_char)

lemma is_digit_digit_char [simp]: "d < 10 \<Longrightarrow> is_digit (digit_char d)"
  by (simp add: is_digit_def of_char_digit_char)

lemma nat_to_string_digits: "list_all is_digit (nat_to_string n)"
proof (induction n rule: nat_to_string.induct)
  case (1 n)
  then show ?case by (subst nat_to_string.simps) auto
qed

lemma nat_to_string_not_Nil [simp]: "nat_to_string n \<noteq> []"
  by (subst nat_to_string.simps) simp

lemma read_digits_append:
  "list_all is_digit s \<Longrightarrow> read_digits acc (s @ t) = read_digits (read_digits acc s) t"
  by (induction s arbitrary: acc) auto

lemma read_digits_nat_to_string: "read_digits 0 (nat_to_string n) = n"
proof (induction n rule: nat_to_string.induct)
  case (1 n)
  show ?case
  proof (cases "n < 10")
    case True
    then show ?thesis by (subst nat_to_string.simps) simp
  next
    case False
    with "1.IH" have "read_digits 0 (nat_to_string (n div 10)) = n div 10" by simp
    with False show ?thesis
      by (subst nat_to_string.simps) (simp add: read_digits_append nat_to_string_digits)
  qed
qed

lemma is_digit_not_special:
  "is_digit c \<Longrightarrow> \<not> is_space c \<and> c \<noteq> CHR ''-'' \<and> c \<noteq> CHR ''+'' \<and> c \<noteq> CHR ''.''"
  by (auto simp: is_digit_def is_space_def)

lemma nat_to_string_Cons:
  obtains c t where "nat_to_string n = c # t" "is_digit c"
  using nat_to_string_digits [of n] by (cases "nat_to_string n") auto

lemma stoi_digits_nat_to_string:
  "stoi_digits neg (nat_to_string n) = stoi_range (if neg then - int n else int n)"
  by (rule nat_to_string_Cons [of n])
     (use read_digits_nat_to_string [of n] in \<open>simp add: stoi_digits_def\<close>)

lemma stoi_to_string:
  assumes "int_min \<le> i" "i \<le> int_max"
  shows "stoi (to_string i) = Inr i"
proof (cases "i < 0")
  case True
  have "\<not> is_space (CHR ''-'')" by (simp add: is_space_def)
  with True assms show ?thesis
    by (simp add: stoi_def to_string_def stoi_digits_nat_to_string stoi_range_def)
next
  case False
  obtain c t where ct: "nat_to_string (nat i) = c # t" "is_digit c"
    by (rule nat_to_string_Cons)
  with is_digit_not_special have "stoi (nat_to_string (nat i)) = stoi_digits False (nat_to_string (nat i))"
    by (auto simp: stoi_def)
  with False assms show ?thesis
    by (simp add: to_string_def stoi_digits_nat_to_string stoi_range_def)
qed

lemma stoi_bounds: "stoi s = Inr i \<Longrightarrow> int_min \<le> i \<and> i \<le> int_max"
  by (auto simp: stoi_def stoi_digits_def stoi_range_def split: list.splits if_splits)

lemma nat_to_string_inj: "nat_to_string m = nat_to_string n \<Longrightarrow> m = n"
  by (metis read_digits_nat_to_string)

lemma to_string_inj: "to_string i = to_string j \<Longrightarrow> i = j"
proof -
  assume eq: "to_string i = to_string j"
  have neq: "nat_to_string n \<noteq> CHR ''-'' # s" for n s
    using nat_to_string_digits [of n] by (auto simp: is_digit_def)
  show ?thesis
    using eq neq [of "nat i"] neq [of "nat j"] nat_to_string_inj [of "nat i" "nat j"]
      nat_to_string_inj [of "nat (- i)" "nat (- j)"]
    by (auto simp: to_string_def split: if_splits) (metis neq)+
qed

lemma length_nat_to_string: "n < 10 ^ Suc k \<Longrightarrow> length (nat_to_string n) \<le> Suc k"
proof (induction k arbitrary: n)
  case 0
  then show ?case by (subst nat_to_string.simps) simp
next
  case (Suc k)
  show ?case
  proof (cases "n < 10")
    case True
    then show ?thesis by (subst nat_to_string.simps) simp
  next
    case False
    have "n div 10 < 10 ^ Suc k" using Suc.prems by (simp add: less_mult_imp_div_less)
    with Suc.IH False show ?thesis by (subst nat_to_string.simps) simp
  qed
qed

lemma length_to_string: "0 \<le> i \<Longrightarrow> i \<le> int_max \<Longrightarrow> length (to_string i) \<le> 10"
  using length_nat_to_string [of "nat i" 9] by (simp add: to_string_def int_max_def)

section \<open>The process environment\<close>

type_synonym environ = "string \<Rightarrow> string option"

text \<open>
  \<open>std::getenv\<close> followed by the test \<open>!v || !*v\<close>: an unset and an empty variable are
  treated alike everywhere in the code.
\<close>

definition getenv_nonempty :: "environ \<Rightarrow> string \<Rightarrow> string option" where
  "getenv_nonempty env name =
     (case env name of Some (c # v) \<Rightarrow> Some (c # v) | _ \<Rightarrow> None)"

lemma getenv_nonempty_Some [simp]:
  "getenv_nonempty env name = Some v \<longleftrightarrow> env name = Some v \<and> v \<noteq> []"
  by (auto simp: getenv_nonempty_def split: option.splits list.splits)

text \<open>The positive integer a variable holds, or a default (the code's several \<open>get_env_int\<close>).\<close>

definition get_env_int :: "environ \<Rightarrow> string \<Rightarrow> int \<Rightarrow> int" where
  "get_env_int env name def =
     (case getenv_nonempty env name of
        None \<Rightarrow> def
      | Some v \<Rightarrow> (case stoi v of Inr n \<Rightarrow> if n > 0 then n else def | Inl _ \<Rightarrow> def))"

lemma get_env_int_pos: "def > 0 \<Longrightarrow> get_env_int env name def > 0"
  by (simp add: get_env_int_def split: option.splits sum.splits)

lemma get_env_int_range: "int_min \<le> def \<Longrightarrow> def \<le> int_max \<Longrightarrow>
    int_min \<le> get_env_int env name def \<and> get_env_int env name def \<le> int_max"
  by (auto simp: get_env_int_def dest: stoi_bounds split: option.splits sum.splits)

section \<open>Lists\<close>

lemma take_append_drop_overlap:
  "i \<le> j \<Longrightarrow> take (j - i) (drop i xs) @ drop j xs = drop i xs"
  by (metis append_take_drop_id drop_drop le_add_diff_inverse2)

lemma distinct_remove1_eq: "distinct xs \<Longrightarrow> remove1 x xs = filter (\<lambda>y. y \<noteq> x) xs"
  by (rule distinct_remove1_removeAll [THEN trans]) (simp_all add: removeAll_filter_not_eq, metis)

section \<open>Step relations\<close>

text \<open>
  The concurrent components are step relations over a state; \<open>reachable\<close> is the least set of
  states closed under the steps from an initial state.
\<close>

inductive reachable :: "('s \<Rightarrow> bool) \<Rightarrow> ('s \<Rightarrow> 's \<Rightarrow> bool) \<Rightarrow> 's \<Rightarrow> bool"
  for init :: "'s \<Rightarrow> bool" and step :: "'s \<Rightarrow> 's \<Rightarrow> bool" where
  reachable_init: "init s \<Longrightarrow> reachable init step s"
| reachable_step: "reachable init step s \<Longrightarrow> step s t \<Longrightarrow> reachable init step t"

lemma reachable_invariant:
  assumes "reachable init step s"
    and "\<And>s. init s \<Longrightarrow> I s"
    and "\<And>s t. I s \<Longrightarrow> step s t \<Longrightarrow> I t"
  shows "I s"
  using assms by (induction rule: reachable.induct) blast+

text \<open>A sequence of calls, each of which may not return (\<open>None\<close>) or fail (\<open>Inl\<close>).\<close>

fun run_ops :: "('o \<Rightarrow> 's \<Rightarrow> 's res option) \<Rightarrow> 'o list \<Rightarrow> 's \<Rightarrow> 's res option" where
  "run_ops ap [] s = Some (Inr s)"
| "run_ops ap (op # ops) s =
     (case ap op s of
        None \<Rightarrow> None
      | Some (Inl e) \<Rightarrow> Some (Inl e)
      | Some (Inr s') \<Rightarrow> run_ops ap ops s')"

end
