(* ===== verification/Net_Buffer.thy ===== *)
theory Net_Buffer
  imports Cpp_Base
begin

text \<open>
  \<open>network::Buffer\<close> (\<open>network/include/network/Buffer.h\<close>, \<open>network/src/Buffer.cc\<close>) and the
  byte-order helpers of \<open>Endian.h\<close>.  The buffer is a \<open>std::vector<char>\<close> with a reader and a
  writer index; every \<open>assert\<close> of the code is a branch of the model.  The interface
  \<open>byte_fifo\<close> states what the clients of the buffer rely on (an in-order byte queue); the
  interpretation discharges it for the model.  Sizes are \<open>nat\<close>: a vector never reaches
  \<open>2^64\<close> bytes.
\<close>

section \<open>Byte order\<close>

fun le_bytes :: "nat \<Rightarrow> nat \<Rightarrow> string" where
  "le_bytes 0 v = []"
| "le_bytes (Suc n) v = char_of (v mod 256) # le_bytes n (v div 256)"

fun from_le :: "string \<Rightarrow> nat" where
  "from_le [] = 0"
| "from_le (c # s) = of_char c + 256 * from_le s"

text \<open>
  On the little-endian hosts the server runs on (x86-64, AArch64) \<open>htobe\<close>/\<open>betoh\<close> reverse the
  bytes of a word, and the in-memory image of a word is its little-endian byte list.
\<close>

definition bswap :: "nat \<Rightarrow> nat \<Rightarrow> nat" where
  "bswap n v = from_le (rev (le_bytes n v))"

definition hostToNetwork64 :: "64 word \<Rightarrow> 64 word" where
  "hostToNetwork64 host64 = word_of_nat (bswap 8 (unat host64))"

definition hostToNetwork32 :: "32 word \<Rightarrow> 32 word" where
  "hostToNetwork32 host32 = word_of_nat (bswap 4 (unat host32))"

definition hostToNetwork16 :: "16 word \<Rightarrow> 16 word" where
  "hostToNetwork16 host16 = word_of_nat (bswap 2 (unat host16))"

definition networkToHost64 :: "64 word \<Rightarrow> 64 word" where
  "networkToHost64 net64 = word_of_nat (bswap 8 (unat net64))"

definition networkToHost32 :: "32 word \<Rightarrow> 32 word" where
  "networkToHost32 net32 = word_of_nat (bswap 4 (unat net32))"

definition networkToHost16 :: "16 word \<Rightarrow> 16 word" where
  "networkToHost16 net16 = word_of_nat (bswap 2 (unat net16))"

lemma length_le_bytes [simp]: "length (le_bytes n v) = n"
  by (induction n arbitrary: v) auto

lemma from_le_le_bytes: "from_le (le_bytes n v) = v mod 256 ^ n"
proof (induction n arbitrary: v)
  case 0
  then show ?case by simp
next
  case (Suc n)
  have "v mod (256 * 256 ^ n) = 256 * (v div 256 mod 256 ^ n) + v mod 256"
    by (rule mod_mult2_eq)
  with Suc show ?case by simp
qed

lemma le_bytes_from_le: "le_bytes (length s) (from_le s) = s"
proof (induction s)
  case Nil
  then show ?case by simp
next
  case (Cons c s)
  have lt: "(of_char c :: nat) < 256"
    by simp
  then have "(of_char c + 256 * from_le s) div 256 = from_le s"
    by simp
  with Cons lt show ?case by simp
qed

lemma from_le_less: "from_le s < 256 ^ length s"
  by (metis from_le_le_bytes le_bytes_from_le mod_less_divisor zero_less_numeral zero_less_power)

lemma bswap_less: "bswap n v < 256 ^ n"
  using from_le_less [of "rev (le_bytes n v)"] by (simp add: bswap_def)

lemma le_bytes_bswap: "le_bytes n (bswap n v) = rev (le_bytes n v)"
  using le_bytes_from_le [of "rev (le_bytes n v)"] by (simp add: bswap_def)

lemma bswap_bswap: "v < 256 ^ n \<Longrightarrow> bswap n (bswap n v) = v"
  by (simp add: bswap_def [of n "bswap n v"] le_bytes_bswap from_le_le_bytes)

section \<open>The buffer\<close>

definition kCheapPrepend :: nat where "kCheapPrepend = 8"
definition kInitialSize :: nat where "kInitialSize = 1024 * 4"

record buffer =
  storage :: "char list"
  readerIndex :: nat
  writerIndex :: nat

definition Buffer :: "nat \<Rightarrow> buffer" where
  "Buffer initialSize =
     \<lparr>storage = replicate (kCheapPrepend + initialSize) (CHR 0x00),
      readerIndex = kCheapPrepend, writerIndex = kCheapPrepend\<rparr>"

definition readableBytes :: "buffer \<Rightarrow> nat" where
  "readableBytes b = writerIndex b - readerIndex b"

definition writableBytes :: "buffer \<Rightarrow> nat" where
  "writableBytes b = length (storage b) - writerIndex b"

definition prependableBytes :: "buffer \<Rightarrow> nat" where
  "prependableBytes b = readerIndex b"

definition peek :: "buffer \<Rightarrow> string" where
  "peek b = drop (readerIndex b) (storage b)"

definition retrieveAll :: "buffer \<Rightarrow> buffer" where
  "retrieveAll b = b\<lparr>readerIndex := kCheapPrepend, writerIndex := kCheapPrepend\<rparr>"

definition retrieve :: "nat \<Rightarrow> buffer \<Rightarrow> buffer res" where
  "retrieve len b =
     cpp_assert (len \<le> readableBytes b)
       (if len < readableBytes b
        then Inr (b\<lparr>readerIndex := readerIndex b + len\<rparr>)
        else Inr (retrieveAll b))"

definition retrieveAsString :: "nat \<Rightarrow> buffer \<Rightarrow> (string \<times> buffer) res" where
  "retrieveAsString len b =
     cpp_assert (len \<le> readableBytes b)
       (let result = take len (peek b)
        in rbind (retrieve len b) (\<lambda>b'. Inr (result, b')))"

definition retrieveAllAsString :: "buffer \<Rightarrow> (string \<times> buffer) res" where
  "retrieveAllAsString b = retrieveAsString (readableBytes b) b"

text \<open>\<open>std::copy\<close> into the vector, and \<open>resize\<close>, which zero-fills.\<close>

definition write_at :: "nat \<Rightarrow> string \<Rightarrow> char list \<Rightarrow> char list" where
  "write_at i d xs = take i xs @ d @ drop (i + length d) xs"

definition vec_resize :: "nat \<Rightarrow> char list \<Rightarrow> char list" where
  "vec_resize n xs = take n xs @ replicate (n - length xs) (CHR 0x00)"

definition makeSpace :: "nat \<Rightarrow> buffer \<Rightarrow> buffer res" where
  "makeSpace len b =
     (if writableBytes b + prependableBytes b < len + kCheapPrepend
      then Inr (b\<lparr>storage := vec_resize (writerIndex b + len) (storage b)\<rparr>)
      else cpp_assert (kCheapPrepend < readerIndex b)
        (let readable = readableBytes b;
             b' = b\<lparr>storage := write_at kCheapPrepend (take readable (peek b)) (storage b),
                    readerIndex := kCheapPrepend,
                    writerIndex := kCheapPrepend + readable\<rparr>
         in cpp_assert (readable = readableBytes b') (Inr b')))"

definition ensureWritableBytes :: "nat \<Rightarrow> buffer \<Rightarrow> buffer res" where
  "ensureWritableBytes len b =
     rbind (if writableBytes b < len then makeSpace len b else Inr b)
       (\<lambda>b'. cpp_assert (len \<le> writableBytes b') (Inr b'))"

definition hasWritten :: "nat \<Rightarrow> buffer \<Rightarrow> buffer res" where
  "hasWritten len b =
     cpp_assert (len \<le> writableBytes b) (Inr (b\<lparr>writerIndex := writerIndex b + len\<rparr>))"

definition unwrite :: "nat \<Rightarrow> buffer \<Rightarrow> buffer res" where
  "unwrite len b =
     cpp_assert (len \<le> readableBytes b) (Inr (b\<lparr>writerIndex := writerIndex b - len\<rparr>))"

definition append :: "string \<Rightarrow> buffer \<Rightarrow> buffer res" where
  "append d b =
     rbind (ensureWritableBytes (length d) b)
       (\<lambda>b'. hasWritten (length d) (b'\<lparr>storage := write_at (writerIndex b') d (storage b')\<rparr>))"

definition prepend :: "string \<Rightarrow> buffer \<Rightarrow> buffer res" where
  "prepend d b =
     cpp_assert (length d \<le> prependableBytes b)
       (let r = readerIndex b - length d
        in Inr (b\<lparr>readerIndex := r, storage := write_at r d (storage b)\<rparr>))"

definition appendInt64 :: "64 word \<Rightarrow> buffer \<Rightarrow> buffer res" where
  "appendInt64 x b = append (le_bytes 8 (unat (hostToNetwork64 x))) b"

definition appendInt32 :: "32 word \<Rightarrow> buffer \<Rightarrow> buffer res" where
  "appendInt32 x b = append (le_bytes 4 (unat (hostToNetwork32 x))) b"

definition appendInt16 :: "16 word \<Rightarrow> buffer \<Rightarrow> buffer res" where
  "appendInt16 x b = append (le_bytes 2 (unat (hostToNetwork16 x))) b"

definition appendInt8 :: "8 word \<Rightarrow> buffer \<Rightarrow> buffer res" where
  "appendInt8 x b = append (le_bytes 1 (unat x)) b"

definition peekInt64 :: "buffer \<Rightarrow> 64 word res" where
  "peekInt64 b =
     cpp_assert (8 \<le> readableBytes b)
       (Inr (networkToHost64 (word_of_nat (from_le (take 8 (peek b))))))"

definition peekInt32 :: "buffer \<Rightarrow> 32 word res" where
  "peekInt32 b =
     cpp_assert (4 \<le> readableBytes b)
       (Inr (networkToHost32 (word_of_nat (from_le (take 4 (peek b))))))"

definition peekInt16 :: "buffer \<Rightarrow> 16 word res" where
  "peekInt16 b =
     cpp_assert (2 \<le> readableBytes b)
       (Inr (networkToHost16 (word_of_nat (from_le (take 2 (peek b))))))"

definition peekInt8 :: "buffer \<Rightarrow> 8 word res" where
  "peekInt8 b =
     cpp_assert (1 \<le> readableBytes b) (Inr (word_of_nat (from_le (take 1 (peek b)))))"

definition readInt64 :: "buffer \<Rightarrow> (64 word \<times> buffer) res" where
  "readInt64 b = rbind (peekInt64 b) (\<lambda>x. rbind (retrieve 8 b) (\<lambda>b'. Inr (x, b')))"

definition readInt32 :: "buffer \<Rightarrow> (32 word \<times> buffer) res" where
  "readInt32 b = rbind (peekInt32 b) (\<lambda>x. rbind (retrieve 4 b) (\<lambda>b'. Inr (x, b')))"

definition readInt16 :: "buffer \<Rightarrow> (16 word \<times> buffer) res" where
  "readInt16 b = rbind (peekInt16 b) (\<lambda>x. rbind (retrieve 2 b) (\<lambda>b'. Inr (x, b')))"

definition readInt8 :: "buffer \<Rightarrow> (8 word \<times> buffer) res" where
  "readInt8 b = rbind (peekInt8 b) (\<lambda>x. rbind (retrieve 1 b) (\<lambda>b'. Inr (x, b')))"

definition prependInt64 :: "64 word \<Rightarrow> buffer \<Rightarrow> buffer res" where
  "prependInt64 x b = prepend (le_bytes 8 (unat (hostToNetwork64 x))) b"

definition prependInt32 :: "32 word \<Rightarrow> buffer \<Rightarrow> buffer res" where
  "prependInt32 x b = prepend (le_bytes 4 (unat (hostToNetwork32 x))) b"

definition prependInt16 :: "16 word \<Rightarrow> buffer \<Rightarrow> buffer res" where
  "prependInt16 x b = prepend (le_bytes 2 (unat (hostToNetwork16 x))) b"

definition prependInt8 :: "8 word \<Rightarrow> buffer \<Rightarrow> buffer res" where
  "prependInt8 x b = prepend (le_bytes 1 (unat x)) b"

text \<open>
  \<open>readFd\<close>: a scatter read into the free tail of the buffer and a 1 MiB stack buffer.  The
  kernel is the parameter \<open>rv\<close>: given the capacity of the \<open>iovec\<close>s it returns an errno or
  the bytes read, never more than the capacity.
\<close>

type_synonym kernel_read = "nat \<Rightarrow> int + string"

definition extrabuf_size :: nat where "extrabuf_size = 1024 * 1024"

definition iov_capacity :: "buffer \<Rightarrow> nat" where
  "iov_capacity b =
     (let writable = writableBytes b
      in if writable < extrabuf_size then writable + extrabuf_size else writable)"

definition readFd :: "kernel_read \<Rightarrow> buffer \<Rightarrow> ((int + nat) \<times> buffer) res" where
  "readFd rv b =
     (let writable = writableBytes b
      in case rv (iov_capacity b) of
           Inl e \<Rightarrow> Inr (Inl e, b)
         | Inr d \<Rightarrow>
             if length d \<le> writable
             then Inr (Inr (length d),
                    b\<lparr>storage := write_at (writerIndex b) d (storage b),
                      writerIndex := writerIndex b + length d\<rparr>)
             else rbind (append (drop writable d)
                    (b\<lparr>storage := write_at (writerIndex b) (take writable d) (storage b),
                       writerIndex := length (storage b)\<rparr>))
                  (\<lambda>b'. Inr (Inr (length d), b')))"

section \<open>The abstract view: a byte queue\<close>

definition contents :: "buffer \<Rightarrow> string" where
  "contents b = take (readableBytes b) (peek b)"

definition buf_ok :: "buffer \<Rightarrow> bool" where
  "buf_ok b = (readerIndex b \<le> writerIndex b \<and> writerIndex b \<le> length (storage b)
     \<and> kCheapPrepend \<le> length (storage b))"

lemmas buf_defs = buf_ok_def contents_def readableBytes_def writableBytes_def
  prependableBytes_def peek_def

lemma length_write_at [simp]:
  "i + length d \<le> length xs \<Longrightarrow> length (write_at i d xs) = length xs"
  by (simp add: write_at_def)

lemma take_write_at [simp]: "j \<le> i \<Longrightarrow> i \<le> length xs \<Longrightarrow> take j (write_at i d xs) = take j xs"
  by (simp add: write_at_def min_def)

lemma drop_write_at: "i \<le> length xs \<Longrightarrow> drop i (write_at i d xs) = d @ drop (i + length d) xs"
  by (simp add: write_at_def)

lemma length_vec_resize [simp]: "length (vec_resize n xs) = n"
  by (simp add: vec_resize_def)

lemma take_vec_resize: "m \<le> n \<Longrightarrow> m \<le> length xs \<Longrightarrow> take m (vec_resize n xs) = take m xs"
  by (simp add: vec_resize_def min_def)

lemma contents_alt: "contents b = drop (readerIndex b) (take (writerIndex b) (storage b))"
  by (simp add: contents_def readableBytes_def peek_def drop_take)

lemma length_contents: "buf_ok b \<Longrightarrow> length (contents b) = readableBytes b"
  by (auto simp: buf_defs)

lemma Buffer_ok: "buf_ok (Buffer n) \<and> contents (Buffer n) = []"
  by (simp add: Buffer_def buf_defs)

lemma retrieveAll_ok: "buf_ok b \<Longrightarrow> buf_ok (retrieveAll b) \<and> contents (retrieveAll b) = []"
  by (auto simp: retrieveAll_def buf_defs)

lemma makeSpace_ok:
  assumes ok: "buf_ok b" and small: "writableBytes b < len"
  shows "\<exists>b'. makeSpace len b = Inr b' \<and> buf_ok b' \<and> contents b' = contents b
           \<and> len \<le> writableBytes b'"
proof (cases "writableBytes b + prependableBytes b < len + kCheapPrepend")
  case True
  let ?b = "b\<lparr>storage := vec_resize (writerIndex b + len) (storage b)\<rparr>"
  have "makeSpace len b = Inr ?b" using True by (simp add: makeSpace_def)
  moreover have "contents ?b = contents b"
    using ok by (simp add: contents_alt take_vec_resize buf_ok_def)
  moreover have "buf_ok ?b \<and> len \<le> writableBytes ?b"
    using ok small by (auto simp: buf_defs kCheapPrepend_def)
  ultimately show ?thesis by blast
next
  case False
  let ?r = "readableBytes b"
  let ?b = "b\<lparr>storage := write_at kCheapPrepend (take ?r (peek b)) (storage b),
              readerIndex := kCheapPrepend, writerIndex := kCheapPrepend + ?r\<rparr>"
  have len: "length (take ?r (peek b)) = ?r"
    using length_contents [OF ok] by (simp add: contents_def)
  have lt: "kCheapPrepend < readerIndex b"
    using False small by (simp add: prependableBytes_def)
  have fits: "kCheapPrepend + ?r \<le> length (storage b)"
    using ok lt by (auto simp: buf_defs)
  have "makeSpace len b = Inr ?b"
    using False lt by (simp add: makeSpace_def Let_def readableBytes_def)
  moreover have "contents ?b = contents b"
    using fits len by (simp add: contents_def [of ?b] readableBytes_def [of ?b] peek_def [of ?b]
        drop_write_at contents_def [of b])
  moreover have "buf_ok ?b"
    using fits len ok by (auto simp: buf_ok_def)
  moreover have "len \<le> writableBytes ?b"
  proof -
    have "len + kCheapPrepend \<le> writableBytes b + readerIndex b"
      using False by (simp add: prependableBytes_def)
    then show ?thesis
      using fits len ok by (simp add: writableBytes_def readableBytes_def buf_ok_def)
  qed
  ultimately show ?thesis by blast
qed

lemma ensureWritableBytes_ok:
  assumes "buf_ok b"
  shows "\<exists>b'. ensureWritableBytes len b = Inr b' \<and> buf_ok b' \<and> contents b' = contents b
           \<and> len \<le> writableBytes b'"
proof (cases "writableBytes b < len")
  case True
  from makeSpace_ok [OF assms this] obtain b' where "makeSpace len b = Inr b'" "buf_ok b'"
    "contents b' = contents b" "len \<le> writableBytes b'" by blast
  with True show ?thesis by (simp add: ensureWritableBytes_def)
next
  case False
  with assms show ?thesis by (simp add: ensureWritableBytes_def)
qed

lemma write_tail_ok:
  assumes "buf_ok b" and "length d \<le> writableBytes b"
  defines "b' \<equiv> b\<lparr>storage := write_at (writerIndex b) d (storage b),
                  writerIndex := writerIndex b + length d\<rparr>"
  shows "buf_ok b' \<and> contents b' = contents b @ d"
proof -
  have fits: "writerIndex b + length d \<le> length (storage b)"
    using assms by (auto simp: buf_defs)
  have "take (writerIndex b + length d) (write_at (writerIndex b) d (storage b))
      = take (writerIndex b) (storage b) @ d"
    using fits by (simp add: write_at_def)
  with fits assms show ?thesis
    by (auto simp: contents_alt buf_ok_def)
qed

lemma append_ok:
  assumes "buf_ok b"
  shows "\<exists>b'. append d b = Inr b' \<and> buf_ok b' \<and> contents b' = contents b @ d"
proof -
  from ensureWritableBytes_ok [OF assms] obtain b1 where b1:
    "ensureWritableBytes (length d) b = Inr b1" "buf_ok b1" "contents b1 = contents b"
    "length d \<le> writableBytes b1" by blast
  let ?b2 = "b1\<lparr>storage := write_at (writerIndex b1) d (storage b1)\<rparr>"
  have "writerIndex b1 + length d \<le> length (storage b1)"
    using b1(2,4) by (auto simp: buf_defs)
  then have "writableBytes ?b2 = writableBytes b1"
    by (simp add: writableBytes_def)
  then have "append d b = Inr (?b2\<lparr>writerIndex := writerIndex b1 + length d\<rparr>)"
    using b1 by (simp add: append_def hasWritten_def)
  with write_tail_ok [OF b1(2,4)] b1(3) show ?thesis by simp
qed

lemma retrieve_ok:
  assumes "buf_ok b" and "len \<le> length (contents b)"
  shows "\<exists>b'. retrieve len b = Inr b' \<and> buf_ok b' \<and> contents b' = drop len (contents b)"
proof -
  have le: "len \<le> readableBytes b" using assms length_contents by simp
  show ?thesis
  proof (cases "len < readableBytes b")
    case True
    then show ?thesis using assms
      by (auto simp: retrieve_def buf_ok_def contents_alt add.commute readableBytes_def)
  next
    case False
    with le assms retrieveAll_ok [OF assms(1)] show ?thesis
      by (auto simp: retrieve_def length_contents)
  qed
qed

lemma retrieveAsString_ok:
  assumes "buf_ok b" and "len \<le> length (contents b)"
  shows "\<exists>b'. retrieveAsString len b = Inr (take len (contents b), b') \<and> buf_ok b'
           \<and> contents b' = drop len (contents b)"
proof -
  have "take len (contents b) = take len (peek b)"
    using assms length_contents [OF assms(1)] by (simp add: contents_def min_def)
  with retrieve_ok [OF assms] assms length_contents [OF assms(1)] show ?thesis
    by (auto simp: retrieveAsString_def)
qed

lemma retrieveAllAsString_ok:
  "buf_ok b \<Longrightarrow> \<exists>b'. retrieveAllAsString b = Inr (contents b, b') \<and> buf_ok b' \<and> contents b' = []"
  using retrieveAsString_ok [of b "readableBytes b"]
  by (simp add: retrieveAllAsString_def length_contents)

lemma unwrite_ok:
  assumes "buf_ok b" and "len \<le> length (contents b)"
  shows "\<exists>b'. unwrite len b = Inr b' \<and> buf_ok b'
           \<and> contents b' = take (length (contents b) - len) (contents b)"
  using assms length_contents [OF assms(1)]
  by (auto simp: unwrite_def contents_alt buf_ok_def readableBytes_def min_def take_drop)

lemma prepend_ok:
  assumes "buf_ok b" and "length d \<le> prependableBytes b"
  shows "\<exists>b'. prepend d b = Inr b' \<and> buf_ok b' \<and> contents b' = d @ contents b"
proof -
  let ?r = "readerIndex b - length d"
  let ?b = "b\<lparr>readerIndex := ?r, storage := write_at ?r d (storage b)\<rparr>"
  have r: "?r + length d = readerIndex b" using assms by (simp add: prependableBytes_def)
  have "readableBytes ?b = length d + readableBytes b"
    using assms r by (auto simp: buf_ok_def readableBytes_def)
  then have "contents ?b = d @ contents b"
    using assms r by (simp add: contents_def peek_def drop_write_at buf_ok_def)
  moreover have "buf_ok ?b" using assms r by (auto simp: buf_ok_def)
  ultimately show ?thesis using assms by (simp add: prepend_def Let_def)
qed

lemma readFd_ok:
  assumes ok: "buf_ok b" and rv: "rv (iov_capacity b) = Inr d"
  shows "\<exists>b'. readFd rv b = Inr (Inr (length d), b') \<and> buf_ok b' \<and> contents b' = contents b @ d"
proof (cases "length d \<le> writableBytes b")
  case True
  with rv write_tail_ok [OF ok True] show ?thesis by (simp add: readFd_def)
next
  case False
  let ?w = "writableBytes b"
  let ?b1 = "b\<lparr>storage := write_at (writerIndex b) (take ?w d) (storage b),
               writerIndex := writerIndex b + length (take ?w d)\<rparr>"
  have "buf_ok ?b1 \<and> contents ?b1 = contents b @ take ?w d"
    by (rule write_tail_ok [OF ok]) simp
  then obtain b' where "append (drop ?w d) ?b1 = Inr b'" "buf_ok b'"
    "contents b' = (contents b @ take ?w d) @ drop ?w d"
    using append_ok [of ?b1 "drop ?w d"] by auto
  moreover have "writerIndex b + length (take ?w d) = length (storage b)"
    using False ok by (auto simp: writableBytes_def buf_ok_def)
  ultimately show ?thesis using rv False by (simp add: readFd_def)
qed

lemma readFd_error: "rv (iov_capacity b) = Inl e \<Longrightarrow> readFd rv b = Inr (Inl e, b)"
  by (simp add: readFd_def)

section \<open>The interface the clients of the buffer rely on\<close>

text \<open>
  A queue of bytes: \<open>push\<close> adds at the end, \<open>pop\<close> drops from the front, and neither fails while
  the invariant holds.  \<open>push_all\<close> and \<open>pop_all\<close> are the two loops a connection runs: appending
  the messages it could not write at once, and dropping what the socket took.
\<close>

locale byte_fifo =
  fixes bytes :: "'q \<Rightarrow> string"
    and inv :: "'q \<Rightarrow> bool"
    and push :: "string \<Rightarrow> 'q \<Rightarrow> 'q res"
    and pop :: "nat \<Rightarrow> 'q \<Rightarrow> 'q res"
  assumes push_spec: "inv q \<Longrightarrow> \<exists>q'. push d q = Inr q' \<and> inv q' \<and> bytes q' = bytes q @ d"
    and pop_spec: "inv q \<Longrightarrow> n \<le> length (bytes q) \<Longrightarrow>
      \<exists>q'. pop n q = Inr q' \<and> inv q' \<and> bytes q' = drop n (bytes q)"
begin

lemma push_Inr: "inv q \<Longrightarrow> push d q = Inr q' \<Longrightarrow> inv q' \<and> bytes q' = bytes q @ d"
  using push_spec [of q d] by auto

lemma pop_Inr:
  "inv q \<Longrightarrow> n \<le> length (bytes q) \<Longrightarrow> pop n q = Inr q' \<Longrightarrow>
     inv q' \<and> bytes q = take n (bytes q) @ bytes q'"
  using pop_spec [of q n] by auto

lemma push_then_pop:
  assumes "inv q" and "bytes q = []"
  shows "\<exists>q' q''. push d q = Inr q' \<and> pop (length d) q' = Inr q'' \<and> bytes q'' = []"
  using push_spec [OF assms(1), of d] pop_spec [of _ "length d"] assms(2) by fastforce

lemma push_push:
  assumes "inv q"
  shows "\<exists>q1 q2. push d q = Inr q1 \<and> push e q1 = Inr q2 \<and> inv q2 \<and> bytes q2 = bytes q @ d @ e"
  using push_spec [OF assms, of d] push_spec [of _ e] by fastforce

end

interpretation net_buf: byte_fifo contents buf_ok append retrieve
  by unfold_locales (auto intro: append_ok retrieve_ok)

section \<open>Integers in network byte order\<close>

lemma unat_swap_word:
  fixes x :: "'a::len word"
  assumes "2 ^ LENGTH('a) = (256 :: nat) ^ n"
  shows "unat (word_of_nat (bswap n (unat x)) :: 'a word) = bswap n (unat x)"
  using bswap_less [of n "unat x"] by (simp add: unat_of_nat assms)

lemma swap_word_memory:
  fixes x :: "'a::len word"
  assumes len: "2 ^ LENGTH('a) = (256 :: nat) ^ n"
  defines "net \<equiv> word_of_nat (bswap n (unat x)) :: 'a word"
  shows "le_bytes n (unat net) = rev (le_bytes n (unat x))"
    and "from_le (le_bytes n (unat net)) = unat net"
    and "word_of_nat (bswap n (unat net)) = x"
proof -
  have net: "unat net = bswap n (unat x)" unfolding net_def by (rule unat_swap_word [OF len])
  have lt: "unat y < 256 ^ n" for y :: "'a word"
  proof -
    have "unat y < 2 ^ LENGTH('a)" by (rule unsigned_less)
    then show ?thesis by (simp only: len)
  qed
  show "le_bytes n (unat net) = rev (le_bytes n (unat x))"
    by (simp add: net le_bytes_bswap)
  show "from_le (le_bytes n (unat net)) = unat net"
    using lt by (simp add: from_le_le_bytes)
  show "word_of_nat (bswap n (unat net)) = x"
    using lt by (simp add: net bswap_bswap)
qed

lemmas hton_defs = hostToNetwork64_def hostToNetwork32_def hostToNetwork16_def
  networkToHost64_def networkToHost32_def networkToHost16_def

lemmas swap64 = swap_word_memory [where 'a = 64 and n = 8, simplified]
lemmas swap32 = swap_word_memory [where 'a = 32 and n = 4, simplified]
lemmas swap16 = swap_word_memory [where 'a = 16 and n = 2, simplified]

lemma peek_prefix:
  assumes "buf_ok b" and "contents b = d @ rest" and "length d = k"
  shows "k \<le> readableBytes b" and "take k (peek b) = d"
proof -
  show k: "k \<le> readableBytes b" using assms length_contents [OF assms(1)] by simp
  have "take k (contents b) = take k (peek b)" using k by (simp add: contents_def min_def)
  with assms show "take k (peek b) = d" by simp
qed

lemma peekInt64_prefix:
  assumes "buf_ok b" and "contents b = le_bytes 8 (unat (hostToNetwork64 x)) @ rest"
  shows "peekInt64 b = Inr x"
  using peek_prefix [OF assms] swap64 by (simp add: peekInt64_def hton_defs)

lemma peekInt32_prefix:
  assumes "buf_ok b" and "contents b = le_bytes 4 (unat (hostToNetwork32 x)) @ rest"
  shows "peekInt32 b = Inr x"
  using peek_prefix [OF assms] swap32 by (simp add: peekInt32_def hton_defs)

lemma peekInt16_prefix:
  assumes "buf_ok b" and "contents b = le_bytes 2 (unat (hostToNetwork16 x)) @ rest"
  shows "peekInt16 b = Inr x"
  using peek_prefix [OF assms] swap16 by (simp add: peekInt16_def hton_defs)

lemma peekInt8_prefix:
  assumes "buf_ok b" and "contents b = le_bytes 1 (unat x) @ rest"
  shows "peekInt8 b = Inr x"
proof -
  have "unat x < 256" using unsigned_less [of x] by simp
  then have "from_le (le_bytes 1 (unat x)) = unat x"
    by (simp only: from_le_le_bytes) simp
  with peek_prefix [OF assms] show ?thesis by (simp add: peekInt8_def)
qed

lemma read_after_append:
  assumes "buf_ok b" and "contents b = []" and "length d = k"
    and "\<And>q. buf_ok q \<Longrightarrow> contents q = d \<Longrightarrow> pk q = Inr x"
  shows "\<exists>b' b''. append d b = Inr b' \<and> rbind (pk b') (\<lambda>x. rbind (retrieve k b') (\<lambda>q. Inr (x, q)))
           = Inr (x, b'') \<and> buf_ok b'' \<and> contents b'' = []"
proof -
  obtain b' where b': "append d b = Inr b'" "buf_ok b'" "contents b' = d"
    using append_ok [OF assms(1), of d] assms(2) by auto
  with retrieve_ok [of b' k] assms(3) obtain b'' where "retrieve k b' = Inr b''" "buf_ok b''"
    "contents b'' = []" by auto
  with b' assms(4) show ?thesis by auto
qed

lemma read_after_prepend:
  assumes "buf_ok b" and "length d \<le> prependableBytes b" and "length d = k"
    and "\<And>q. buf_ok q \<Longrightarrow> contents q = d @ contents b \<Longrightarrow> pk q = Inr x"
  shows "\<exists>b' b''. prepend d b = Inr b' \<and> rbind (pk b') (\<lambda>x. rbind (retrieve k b') (\<lambda>q. Inr (x, q)))
           = Inr (x, b'') \<and> buf_ok b'' \<and> contents b'' = contents b"
proof -
  obtain b' where b': "prepend d b = Inr b'" "buf_ok b'" "contents b' = d @ contents b"
    using prepend_ok [OF assms(1,2)] by auto
  with retrieve_ok [of b' k] assms(3) obtain b'' where "retrieve k b' = Inr b''" "buf_ok b''"
    "contents b'' = contents b" by auto
  with b' assms(4) show ?thesis by auto
qed

section \<open>Properties\<close>

text \<open>
  Claim C31. On a well-formed buffer \<open>append\<close> never fails an assertion (growing the vector or
  moving the readable bytes to the front as needed), keeps the invariant and adds exactly its
  argument after the readable bytes; \<open>retrieveAsString\<close> then returns exactly the oldest bytes.
\<close>

theorem buffer_fifo:
  assumes "buf_ok b" and "n \<le> length (contents b @ d)"
  shows "\<exists>b' b''. append d b = Inr b' \<and> buf_ok b' \<and> contents b' = contents b @ d
    \<and> retrieveAsString n b' = Inr (take n (contents b @ d), b'') \<and> buf_ok b''
    \<and> contents b'' = drop n (contents b @ d)"
  using append_ok [OF assms(1), of d] retrieveAsString_ok [of _ n] assms(2) by fastforce

theorem buffer_fifo_witness:
  "buf_ok (Buffer 2) \<and> 4 \<le> length (contents (Buffer 2) @ ''hello'')
   \<and> (\<exists>b' b''. append ''hello'' (Buffer 2) = Inr b' \<and> retrieveAsString 4 b' = Inr (''hell'', b'')
        \<and> contents b'' = ''o'')"
proof -
  have h: "buf_ok (Buffer 2)" "4 \<le> length (contents (Buffer 2) @ ''hello'')"
    by (simp_all add: Buffer_ok)
  show ?thesis using h buffer_fifo [OF h] by (auto simp: Buffer_ok)
qed

text \<open>
  \<open>readFd\<close> puts the bytes the kernel delivered after the readable bytes, in order and
  with none lost, whether they fit the free tail or spill into the stack buffer; it reports their
  number.
\<close>

theorem readFd_appends:
  assumes "buf_ok b" and "rv (iov_capacity b) = Inr d"
  shows "\<exists>b'. readFd rv b = Inr (Inr (length d), b') \<and> buf_ok b' \<and> contents b' = contents b @ d"
  using assms by (rule readFd_ok)

theorem readFd_appends_witness:
  "\<exists>b'. readFd (\<lambda>cap. Inr (take cap ''GET /health'')) (Buffer 2) = Inr (Inr (length ''GET /health''), b') \<and> buf_ok b'
     \<and> contents b' = ''GET /health''"
proof -
  have "iov_capacity (Buffer 2) = 1048578"
    by (simp add: iov_capacity_def Let_def writableBytes_def Buffer_def extrabuf_size_def)
  then show ?thesis
    using readFd_appends [of "Buffer 2" "\<lambda>cap. Inr (take cap ''GET /health'')" "''GET /health''"]
    by (simp add: Buffer_ok)
qed

text \<open>
  An integer appended in network byte order to an empty buffer is read back unchanged,
  for all four widths, and leaves the buffer empty again.
\<close>

theorem int_roundtrip:
  assumes "buf_ok b" and "contents b = []"
  shows "(\<exists>b' b''. appendInt64 w b = Inr b' \<and> readInt64 b' = Inr (w, b'') \<and> contents b'' = [])
    \<and> (\<exists>b' b''. appendInt32 x b = Inr b' \<and> readInt32 b' = Inr (x, b'') \<and> contents b'' = [])
    \<and> (\<exists>b' b''. appendInt16 y b = Inr b' \<and> readInt16 b' = Inr (y, b'') \<and> contents b'' = [])
    \<and> (\<exists>b' b''. appendInt8 z b = Inr b' \<and> readInt8 b' = Inr (z, b'') \<and> contents b'' = [])"
  unfolding appendInt64_def readInt64_def appendInt32_def readInt32_def
    appendInt16_def readInt16_def appendInt8_def readInt8_def
  using read_after_append [OF assms, of "le_bytes 8 (unat (hostToNetwork64 w))" 8 peekInt64 w]
    read_after_append [OF assms, of "le_bytes 4 (unat (hostToNetwork32 x))" 4 peekInt32 x]
    read_after_append [OF assms, of "le_bytes 2 (unat (hostToNetwork16 y))" 2 peekInt16 y]
    read_after_append [OF assms, of "le_bytes 1 (unat z)" 1 peekInt8 z]
    peekInt64_prefix [of _ w "[]"] peekInt32_prefix [of _ x "[]"] peekInt16_prefix [of _ y "[]"]
    peekInt8_prefix [of _ z "[]"]
  by (simp only: append_Nil2 length_le_bytes) blast

theorem int_roundtrip_witness:
  "\<exists>b' b''. appendInt32 305419896 (Buffer 16) = Inr b' \<and> readInt32 b' = Inr (305419896, b'')
     \<and> contents b'' = []"
  using int_roundtrip [of "Buffer 16" 305419896] by (simp add: Buffer_ok)

text \<open>
  \<open>appendInt32\<close> puts the most significant byte first on the wire, and a header of four
  bytes prepended to any content (\<open>prependInt32\<close>) is what \<open>readInt32\<close> returns, leaving the
  content untouched.
\<close>

theorem int32_wire_format:
  assumes "buf_ok b" and "4 \<le> prependableBytes b"
  shows "(\<exists>b'. appendInt32 x b = Inr b' \<and> contents b' = contents b @ rev (le_bytes 4 (unat x)))
    \<and> (\<exists>b' b''. prependInt32 x b = Inr b' \<and> readInt32 b' = Inr (x, b'') \<and> contents b'' = contents b)"
proof (rule conjI)
  have "le_bytes 4 (unat (hostToNetwork32 x)) = rev (le_bytes 4 (unat x))"
    using swap32 by (simp add: hostToNetwork32_def)
  then show "\<exists>b'. appendInt32 x b = Inr b' \<and> contents b' = contents b @ rev (le_bytes 4 (unat x))"
    using append_ok [OF assms(1)] by (auto simp: appendInt32_def)
  show "\<exists>b' b''. prependInt32 x b = Inr b' \<and> readInt32 b' = Inr (x, b'') \<and> contents b'' = contents b"
    using read_after_prepend [OF assms(1), of "le_bytes 4 (unat (hostToNetwork32 x))" 4 peekInt32 x]
      peekInt32_prefix [of _ x "contents b"] assms(2)
    unfolding prependInt32_def readInt32_def by (simp only: length_le_bytes) blast
qed

theorem int32_wire_format_witness:
  "\<exists>b'. appendInt32 16909060 (Buffer 16) = Inr b'
     \<and> contents b' = [CHR 0x01, CHR 0x02, CHR 0x03, CHR 0x04]"
proof -
  have four: "(4 :: nat) = Suc (Suc (Suc (Suc 0)))" by simp
  have "le_bytes 4 16909060 = [char_of (4 :: nat), char_of (3 :: nat), char_of (2 :: nat), char_of (1 :: nat)]"
    unfolding four by simp
  then have "rev (le_bytes 4 (unat (16909060 :: 32 word))) = [CHR 0x01, CHR 0x02, CHR 0x03, CHR 0x04]"
    by (simp add: char_of_def bit_0)
  moreover have "4 \<le> prependableBytes (Buffer 16)"
    by (simp add: Buffer_def prependableBytes_def kCheapPrepend_def)
  ultimately show ?thesis
    using int32_wire_format [of "Buffer 16" 16909060] by (simp add: Buffer_ok)
qed

end
