(* ===== verification/Event_Loop.thy ===== *)
theory Event_Loop
  imports Cpp_Base
begin

text \<open>
  \<open>network/src/Channel.cc\<close>, \<open>Poller.cc\<close> and \<open>EventLoop.cc\<close>.  The first part is the bookkeeping
  between a channel's interest mask, its \<open>index_\<close>, the poller's map and the kernel's epoll set, with
  the assertions of the code as error values.  The second part is the queue of pending functors of
  a loop with its wake-up descriptor, as an interleaving model.  Event masks are sets of flags.
\<close>

section \<open>Channels\<close>

datatype EventType = ReadEvent | WriteEvent

datatype PollFlag = POLLIN | POLLPRI | POLLRDHUP | POLLOUT | POLLHUP | POLLERR | POLLNVAL

datatype ChannelIndex = kNew | kAdded | kDeleted

record Channel =
  ch_fd :: int
  ch_events :: "EventType set"
  ch_revents :: "PollFlag set"
  ch_index :: ChannelIndex
  addedToLoop :: bool

definition new_Channel :: "int \<Rightarrow> Channel" where
  "new_Channel fd = \<lparr>ch_fd = fd, ch_events = {}, ch_revents = {}, ch_index = kNew, addedToLoop = False\<rparr>"

definition isNoneEvent :: "Channel \<Rightarrow> bool" where "isNoneEvent c = (ch_events c = {})"
definition isWriting :: "Channel \<Rightarrow> bool" where "isWriting c = (WriteEvent \<in> ch_events c)"
definition isReading :: "Channel \<Rightarrow> bool" where "isReading c = (ReadEvent \<in> ch_events c)"

text \<open>The callbacks \<open>handleEvent\<close> makes for a mask of received events, in order.\<close>

datatype ChannelCallback = CloseCallback | ReadCallback | WriteCallback | ErrorCallback

definition handleEvent :: "PollFlag set \<Rightarrow> ChannelCallback list" where
  "handleEvent revents =
     (if POLLHUP \<in> revents \<and> POLLIN \<notin> revents then [CloseCallback] else [])
     @ (if revents \<inter> {POLLIN, POLLPRI, POLLRDHUP} \<noteq> {} then [ReadCallback] else [])
     @ (if POLLOUT \<in> revents then [WriteCallback] else [])
     @ (if revents \<inter> {POLLERR, POLLNVAL} \<noteq> {} then [ErrorCallback] else [])"

section \<open>The poller\<close>

text \<open>
  Channels are objects; the poller's map holds references to them.  \<open>epoll\<close> is the kernel's
  interest list: for a descriptor the mask and the channel pointer registered with it.
\<close>

record Poller =
  chans :: "nat \<Rightarrow> Channel"
  channels :: "int \<rightharpoonup> nat"
  epoll :: "int \<rightharpoonup> (EventType set \<times> nat)"

datatype EpollOp = EPOLL_CTL_ADD | EPOLL_CTL_MOD | EPOLL_CTL_DEL

text \<open>\<open>epoll_ctl(2)\<close>: ADD fails on a registered descriptor, MOD and DEL on an unregistered one.\<close>

definition epoll_ctl :: "EpollOp \<Rightarrow> int \<Rightarrow> EventType set \<times> nat \<Rightarrow> (int \<rightharpoonup> (EventType set \<times> nat))
    \<Rightarrow> (int \<rightharpoonup> (EventType set \<times> nat)) option" where
  "epoll_ctl oper fd ev ep =
     (case oper of
        EPOLL_CTL_ADD \<Rightarrow> if ep fd = None then Some (ep(fd \<mapsto> ev)) else None
      | EPOLL_CTL_MOD \<Rightarrow> if ep fd = None then None else Some (ep(fd \<mapsto> ev))
      | EPOLL_CTL_DEL \<Rightarrow> if ep fd = None then None else Some (ep(fd := None)))"

definition Poller_update :: "EpollOp \<Rightarrow> nat \<Rightarrow> Poller \<Rightarrow> Poller res" where
  "Poller_update oper c p =
     (case epoll_ctl oper (ch_fd (chans p c)) (ch_events (chans p c), c) (epoll p) of
        Some ep \<Rightarrow> Inr (p\<lparr>epoll := ep\<rparr>)
      | None \<Rightarrow> if oper = EPOLL_CTL_DEL then Inr p else Inl LogFatal)"

definition set_index :: "nat \<Rightarrow> ChannelIndex \<Rightarrow> Poller \<Rightarrow> Poller" where
  "set_index c i p = p\<lparr>chans := (chans p)(c := (chans p c)\<lparr>ch_index := i\<rparr>)\<rparr>"

definition updateChannel :: "nat \<Rightarrow> Poller \<Rightarrow> Poller res" where
  "updateChannel c p =
     (let ch = chans p c; fd = ch_fd ch
      in case ch_index ch of
           kNew \<Rightarrow>
             cpp_assert (channels p fd = None)
               (Poller_update EPOLL_CTL_ADD c (set_index c kAdded (p\<lparr>channels := (channels p)(fd \<mapsto> c)\<rparr>)))
         | kDeleted \<Rightarrow>
             cpp_assert (channels p fd = Some c)
               (Poller_update EPOLL_CTL_ADD c (set_index c kAdded p))
         | kAdded \<Rightarrow>
             cpp_assert (channels p fd = Some c)
               (if isNoneEvent ch
                then rbind (Poller_update EPOLL_CTL_DEL c p) (\<lambda>p1. Inr (set_index c kDeleted p1))
                else Poller_update EPOLL_CTL_MOD c p))"

definition removeChannel :: "nat \<Rightarrow> Poller \<Rightarrow> Poller res" where
  "removeChannel c p =
     (let ch = chans p c; fd = ch_fd ch
      in cpp_assert (channels p fd = Some c \<and> isNoneEvent ch \<and> ch_index ch \<noteq> kNew)
           (let p1 = p\<lparr>channels := (channels p)(fd := None)\<rparr>
            in if ch_index ch = kAdded
               then rbind (Poller_update EPOLL_CTL_DEL c p1) (\<lambda>p2. Inr (set_index c kNew p2))
               else Inr (set_index c kNew p1)))"

definition hasChannel :: "nat \<Rightarrow> Poller \<Rightarrow> bool" where
  "hasChannel c p = (channels p (ch_fd (chans p c)) = Some c)"

text \<open>\<open>enableReading\<close> and its siblings change the mask and update the poller.\<close>

definition set_events :: "(EventType set \<Rightarrow> EventType set) \<Rightarrow> nat \<Rightarrow> Poller \<Rightarrow> Poller res" where
  "set_events f c p =
     updateChannel c (p\<lparr>chans := (chans p)(c := (chans p c)\<lparr>ch_events := f (ch_events (chans p c)), addedToLoop := True\<rparr>)\<rparr>)"

definition enableReading :: "nat \<Rightarrow> Poller \<Rightarrow> Poller res" where "enableReading = set_events (insert ReadEvent)"
definition disableReading :: "nat \<Rightarrow> Poller \<Rightarrow> Poller res" where "disableReading = set_events (\<lambda>e. e - {ReadEvent})"
definition enableWriting :: "nat \<Rightarrow> Poller \<Rightarrow> Poller res" where "enableWriting = set_events (insert WriteEvent)"
definition disableWriting :: "nat \<Rightarrow> Poller \<Rightarrow> Poller res" where "disableWriting = set_events (\<lambda>e. e - {WriteEvent})"
definition disableAll :: "nat \<Rightarrow> Poller \<Rightarrow> Poller res" where "disableAll = set_events (\<lambda>e. {})"

definition Channel_remove :: "nat \<Rightarrow> Poller \<Rightarrow> Poller res" where
  "Channel_remove c p =
     cpp_assert (isNoneEvent (chans p c))
       (removeChannel c (p\<lparr>chans := (chans p)(c := (chans p c)\<lparr>addedToLoop := False\<rparr>)\<rparr>))"

section \<open>The poller's invariant\<close>

definition registered :: "nat \<Rightarrow> Poller \<Rightarrow> bool" where
  "registered c p \<longleftrightarrow> channels p (ch_fd (chans p c)) = Some c"

definition poller_ok :: "Poller \<Rightarrow> bool" where
  "poller_ok p \<longleftrightarrow>
     (\<forall>fd c. channels p fd = Some c \<longrightarrow> ch_fd (chans p c) = fd \<and> ch_index (chans p c) \<noteq> kNew
        \<and> epoll p fd = (if ch_index (chans p c) = kAdded then Some (ch_events (chans p c), c) else None))
     \<and> (\<forall>fd. channels p fd = None \<longrightarrow> epoll p fd = None)
     \<and> (\<forall>c. ch_index (chans p c) \<noteq> kNew \<longrightarrow> registered c p)"

lemma poller_okD:
  assumes "poller_ok p"
  shows "channels p fd = Some c \<Longrightarrow> ch_fd (chans p c) = fd \<and> ch_index (chans p c) \<noteq> kNew
        \<and> epoll p fd = (if ch_index (chans p c) = kAdded then Some (ch_events (chans p c), c) else None)"
    "channels p fd = None \<Longrightarrow> epoll p fd = None"
    "ch_index (chans p c) \<noteq> kNew \<Longrightarrow> registered c p"
  using assms by (auto simp: poller_ok_def)

text \<open>A channel may be updated when it is registered, or new with a descriptor that is free.\<close>

definition updatable :: "nat \<Rightarrow> Poller \<Rightarrow> bool" where
  "updatable c p \<longleftrightarrow> registered c p \<or> (ch_index (chans p c) = kNew \<and> channels p (ch_fd (chans p c)) = None)"

text \<open>The state after a change of the mask that the poller has been told about.\<close>

definition synced :: "EventType set \<Rightarrow> nat \<Rightarrow> Poller \<Rightarrow> Poller" where
  "synced ev c p =
     (let ch = chans p c; fd = ch_fd ch; drop = (ch_index ch = kAdded \<and> ev = {})
      in p\<lparr>chans := (chans p)(c := ch\<lparr>ch_events := ev, addedToLoop := True, ch_index := (if drop then kDeleted else kAdded)\<rparr>),
           channels := (channels p)(fd \<mapsto> c), epoll := (epoll p)(fd := (if drop then None else Some (ev, c)))\<rparr>)"

lemma set_events_synced:
  assumes "poller_ok p" "updatable c p"
  shows "set_events f c p = Inr (synced (f (ch_events (chans p c))) c p)"
proof (cases "ch_index (chans p c)")
  case kNew
  with assms have free: "channels p (ch_fd (chans p c)) = None"
    using poller_okD(1) [OF assms(1), of "ch_fd (chans p c)" c] by (auto simp: updatable_def registered_def)
  then have "epoll p (ch_fd (chans p c)) = None" using poller_okD(2) [OF assms(1)] by blast
  with kNew free show ?thesis
    by (simp add: set_events_def updateChannel_def Let_def Poller_update_def epoll_ctl_def set_index_def synced_def)
next
  case kAdded
  with assms(1) have reg: "channels p (ch_fd (chans p c)) = Some c"
    using poller_okD(3) [of p c] by (simp add: registered_def)
  then have ep: "epoll p (ch_fd (chans p c)) = Some (ch_events (chans p c), c)"
    using poller_okD(1) [OF assms(1) reg] kAdded by simp
  from reg have "(channels p)(ch_fd (chans p c) \<mapsto> c) = channels p" by (simp add: fun_upd_idem)
  moreover have idx: "(chans p c)\<lparr>ch_events := e, addedToLoop := True, ch_index := kAdded\<rparr>
      = (chans p c)\<lparr>ch_events := e, addedToLoop := True\<rparr>" for e
    using kAdded by (cases "chans p c") simp
  ultimately show ?thesis using kAdded reg ep
    by (cases "chans p c") (simp add: set_events_def updateChannel_def Let_def Poller_update_def epoll_ctl_def set_index_def
        synced_def isNoneEvent_def idx)
next
  case kDeleted
  with assms(1) have reg: "channels p (ch_fd (chans p c)) = Some c"
    using poller_okD(3) [of p c] by (simp add: registered_def)
  then have ep: "epoll p (ch_fd (chans p c)) = None"
    using poller_okD(1) [OF assms(1) reg] kDeleted by simp
  from reg have "(channels p)(ch_fd (chans p c) \<mapsto> c) = channels p" by (simp add: fun_upd_idem)
  with kDeleted reg ep show ?thesis
    by (simp add: set_events_def updateChannel_def Let_def Poller_update_def epoll_ctl_def set_index_def synced_def)
qed

lemma synced_ok:
  assumes "poller_ok p" "updatable c p"
  shows "poller_ok (synced ev c p) \<and> registered c (synced ev c p) \<and> ch_events (chans (synced ev c p) c) = ev"
proof -
  have "channels p fd = Some c \<Longrightarrow> fd = ch_fd (chans p c)" for fd
    using poller_okD(1) [OF assms(1)] by blast
  moreover have "c' \<noteq> c \<Longrightarrow> ch_index (chans p c') \<noteq> kNew \<Longrightarrow> ch_fd (chans p c') \<noteq> ch_fd (chans p c)" for c'
    using assms poller_okD(3) [OF assms(1), of c'] by (auto simp: updatable_def registered_def)
  ultimately show ?thesis
    using assms(1) unfolding poller_ok_def registered_def synced_def Let_def
    by (auto split: if_splits)
qed

definition unregistered :: "nat \<Rightarrow> Poller \<Rightarrow> Poller" where
  "unregistered c p =
     (let ch = chans p c; fd = ch_fd ch
      in p\<lparr>chans := (chans p)(c := ch\<lparr>ch_index := kNew, addedToLoop := False\<rparr>),
           channels := (channels p)(fd := None), epoll := (epoll p)(fd := None)\<rparr>)"

lemma Channel_remove_unregistered:
  assumes "poller_ok p" "registered c p" "isNoneEvent (chans p c)"
  shows "Channel_remove c p = Inr (unregistered c p)"
proof -
  have reg: "channels p (ch_fd (chans p c)) = Some c" using assms(2) by (simp add: registered_def)
  note ok = poller_okD(1) [OF assms(1) reg]
  show ?thesis
  proof (cases "ch_index (chans p c) = kAdded")
    case True
    with ok reg assms(3) show ?thesis
      by (cases "chans p c")
         (simp add: Channel_remove_def removeChannel_def Let_def unregistered_def Poller_update_def epoll_ctl_def
           set_index_def isNoneEvent_def)
  next
    case False
    with ok have "(epoll p)(ch_fd (chans p c) := None) = epoll p" by (simp add: fun_upd_idem)
    with False ok reg assms(3) show ?thesis
      by (cases "chans p c")
         (simp add: Channel_remove_def removeChannel_def Let_def unregistered_def set_index_def isNoneEvent_def)
  qed
qed

lemma unregistered_ok:
  assumes "poller_ok p" "registered c p"
  shows "poller_ok (unregistered c p) \<and> \<not> registered c (unregistered c p)"
proof -
  have "channels p fd = Some c \<Longrightarrow> fd = ch_fd (chans p c)" for fd
    using poller_okD(1) [OF assms(1)] by blast
  moreover have "c' \<noteq> c \<Longrightarrow> ch_index (chans p c') \<noteq> kNew \<Longrightarrow> ch_fd (chans p c') \<noteq> ch_fd (chans p c)" for c'
    using assms poller_okD(3) [OF assms(1), of c'] by (auto simp: registered_def)
  ultimately show ?thesis
    using assms(1) unfolding poller_ok_def registered_def unregistered_def Let_def
    by (auto split: if_splits)
qed

section \<open>Pending functors\<close>

text \<open>
  A loop is polling, handling events (with the wake-up descriptor among them or not), or running
  the functors it has swapped out of the queue.  Another thread's \<open>queueInLoop\<close> is two steps, the
  push under the mutex and the write to the wake-up descriptor; a call from the loop's own thread
  writes to the descriptor only while functors are being run.  \<open>el_wake\<close> is the eventfd counter;
  \<open>el_queued\<close> and \<open>el_ran\<close> are ghosts.
\<close>

datatype 'f LoopPhase = Polling | Handling bool | Calling "'f list"

record 'f EventLoop =
  pendingFunctors :: "'f list"
  el_wake :: nat
  el_posters :: nat
  el_phase :: "'f LoopPhase"
  el_queued :: "'f list"
  el_ran :: "'f list"

definition new_EventLoop :: "'f EventLoop" where
  "new_EventLoop = \<lparr>pendingFunctors = [], el_wake = 0, el_posters = 0, el_phase = Polling, el_queued = [], el_ran = []\<rparr>"

definition enqueue :: "'f \<Rightarrow> 'f EventLoop \<Rightarrow> 'f EventLoop" where
  "enqueue f s = s\<lparr>pendingFunctors := pendingFunctors s @ [f], el_queued := el_queued s @ [f]\<rparr>"

inductive loop_step :: "'f EventLoop \<Rightarrow> 'f EventLoop \<Rightarrow> bool" where
  other_push: "loop_step s ((enqueue f s)\<lparr>el_posters := Suc (el_posters s)\<rparr>)"
| other_wakeup: "el_posters s = Suc k \<Longrightarrow> loop_step s (s\<lparr>el_posters := k, el_wake := Suc (el_wake s)\<rparr>)"
| poll_returns: "el_phase s = Polling \<Longrightarrow> loop_step s (s\<lparr>el_phase := Handling (el_wake s > 0)\<rparr>)"
| read_wakeup: "el_phase s = Handling True \<Longrightarrow> loop_step s (s\<lparr>el_phase := Handling False, el_wake := 0\<rparr>)"
| own_push_handling: "el_phase s = Handling b \<Longrightarrow> loop_step s (enqueue f s)"
| swap_functors: "el_phase s = Handling False \<Longrightarrow>
     loop_step s (s\<lparr>el_phase := Calling (pendingFunctors s), pendingFunctors := []\<rparr>)"
| own_push_calling: "el_phase s = Calling fs \<Longrightarrow>
     loop_step s ((enqueue f s)\<lparr>el_wake := Suc (el_wake s)\<rparr>)"
| run_functor: "el_phase s = Calling (f # fs) \<Longrightarrow>
     loop_step s (s\<lparr>el_phase := Calling fs, el_ran := el_ran s @ [f]\<rparr>)"
| calling_done: "el_phase s = Calling [] \<Longrightarrow> loop_step s (s\<lparr>el_phase := Polling\<rparr>)"

definition swapped :: "'f EventLoop \<Rightarrow> 'f list" where
  "swapped s = (case el_phase s of Calling fs \<Rightarrow> fs | _ \<Rightarrow> [])"

definition loop_inv :: "'f EventLoop \<Rightarrow> bool" where
  "loop_inv s \<longleftrightarrow> el_queued s = el_ran s @ swapped s @ pendingFunctors s
     \<and> (pendingFunctors s \<noteq> [] \<and> (\<forall>b. el_phase s \<noteq> Handling b) \<longrightarrow> 0 < el_wake s \<or> 0 < el_posters s)"

lemma enqueue_fields [simp]:
  "pendingFunctors (enqueue f s) = pendingFunctors s @ [f]" "el_queued (enqueue f s) = el_queued s @ [f]"
  "el_wake (enqueue f s) = el_wake s" "el_posters (enqueue f s) = el_posters s"
  "el_phase (enqueue f s) = el_phase s" "el_ran (enqueue f s) = el_ran s"
  by (simp_all add: enqueue_def)

lemma loop_step_inv: "loop_step s t \<Longrightarrow> loop_inv s \<Longrightarrow> loop_inv t"
  by (induction rule: loop_step.induct) (auto simp: loop_inv_def swapped_def split: LoopPhase.splits)

lemma reachable_loop_inv: "reachable (\<lambda>s. s = new_EventLoop) loop_step s \<Longrightarrow> loop_inv s"
proof (erule reachable_invariant)
  show "loop_inv s" if "s = new_EventLoop" for s :: "'a EventLoop"
    using that by (simp add: loop_inv_def new_EventLoop_def swapped_def)
qed (rule loop_step_inv)

section \<open>Properties\<close>

text \<open>
  On a consistent poller, changing the interest mask of a channel that is registered (or
  new, with a free descriptor) runs into no assertion and no fatal epoll error, keeps the poller
  consistent, and afterwards the kernel watches the channel's descriptor for exactly its mask;
  an added channel whose mask becomes empty is no longer watched, and no other descriptor is touched.
\<close>

theorem poller_follows_channels:
  assumes "poller_ok p" "updatable c p"
  shows "\<exists>p'. set_events f c p = Inr p' \<and> poller_ok p' \<and> registered c p'
    \<and> ch_events (chans p' c) = f (ch_events (chans p c))
    \<and> epoll p' (ch_fd (chans p c)) =
        (if ch_index (chans p c) = kAdded \<and> ch_events (chans p' c) = {} then None else Some (ch_events (chans p' c), c))
    \<and> (\<forall>fd. fd \<noteq> ch_fd (chans p c) \<longrightarrow> epoll p' fd = epoll p fd)"
  using set_events_synced [OF assms, of f] synced_ok [OF assms, of "f (ch_events (chans p c))"]
  by (auto simp: synced_def Let_def)

definition one_channel :: Poller where
  "one_channel = \<lparr>chans = (\<lambda>_. new_Channel 5), channels = Map.empty, epoll = Map.empty\<rparr>"

theorem poller_follows_channels_witness:
  "\<exists>p'. enableReading 0 one_channel = Inr p' \<and> poller_ok p' \<and> epoll p' 5 = Some ({ReadEvent}, 0)"
proof -
  have "poller_ok one_channel" "updatable 0 one_channel"
    by (auto simp: poller_ok_def updatable_def registered_def one_channel_def new_Channel_def)
  from poller_follows_channels [OF this, of "insert ReadEvent"] show ?thesis
    by (auto simp: enableReading_def one_channel_def new_Channel_def)
qed

text \<open>
  Disabling everything on a registered channel and removing it, as \<open>handleClose\<close> and
  \<open>connectDestroyed\<close> do, succeeds, and afterwards neither the poller nor the kernel knows the
  descriptor.
\<close>

theorem disable_then_remove:
  assumes "poller_ok p" "registered c p"
  shows "\<exists>p1 p2. disableAll c p = Inr p1 \<and> Channel_remove c p1 = Inr p2 \<and> poller_ok p2
    \<and> channels p2 (ch_fd (chans p c)) = None \<and> epoll p2 (ch_fd (chans p c)) = None"
proof -
  have upd: "updatable c p" using assms(2) by (simp add: updatable_def)
  let ?p1 = "synced {} c p"
  have p1: "disableAll c p = Inr ?p1" using set_events_synced [OF assms(1) upd] by (simp add: disableAll_def)
  have ok: "poller_ok ?p1" "registered c ?p1" "isNoneEvent (chans ?p1 c)"
    using synced_ok [OF assms(1) upd, of "{}"] by (simp_all add: isNoneEvent_def)
  have "ch_fd (chans ?p1 c) = ch_fd (chans p c)" by (simp add: synced_def Let_def)
  with p1 Channel_remove_unregistered [OF ok] unregistered_ok [OF ok(1,2)] show ?thesis
    by (simp add: unregistered_def Let_def)
qed

theorem disable_then_remove_witness:
  "\<exists>p p1 p2. enableReading 0 one_channel = Inr p \<and> disableAll 0 p = Inr p1 \<and> Channel_remove 0 p1 = Inr p2
     \<and> poller_ok p2"
proof -
  have ok: "poller_ok one_channel" "updatable 0 one_channel"
    by (auto simp: poller_ok_def updatable_def registered_def one_channel_def new_Channel_def)
  from set_events_synced [OF this, of "insert ReadEvent"] synced_ok [OF this, of "{ReadEvent}"]
  have "enableReading 0 one_channel = Inr (synced {ReadEvent} 0 one_channel)"
    "poller_ok (synced {ReadEvent} 0 one_channel)" "registered 0 (synced {ReadEvent} 0 one_channel)"
    by (simp_all add: enableReading_def one_channel_def new_Channel_def)
  with disable_then_remove [of "synced {ReadEvent} 0 one_channel" 0] show ?thesis by blast
qed



end
