(* ===== verification/Tcp_Connection.thy ===== *)
theory Tcp_Connection
  imports Net_Buffer Event_Loop
begin

text \<open>
  \<open>network/src/TcpConnection.cc\<close>: the state machine of a connection, its output path (direct write,
  buffered rest, write events) and its close path.  The calls that run in the loop's thread are
  functions; what a call from another thread leaves in the loop's queue is a value of
  \<open>conn_functor\<close>.  The kernel's answers to \<open>write\<close> and \<open>readv\<close> are arguments.  \<open>tc_sent\<close> is what the
  kernel has taken over, \<open>tc_wr_shut\<close> whether \<open>shutdown(SHUT_WR)\<close> was called; \<open>tc_accepted\<close>
  (the bytes handed to \<open>sendInLoop\<close>) and \<open>tc_lost\<close> (some were dropped on a broken pipe) are ghosts.
\<close>

section \<open>State\<close>

datatype StateE = kDisconnected | kConnecting | kConnected | kDisconnecting

datatype conn_event = ConnectionUp | ConnectionDown | MessageCb | CloseCb

datatype conn_functor = SendInLoop string | ShutdownInLoop | ForceCloseInLoop | WriteCompleteCb

datatype errno = EWOULDBLOCK | EPIPE | ECONNRESET | EOTHER

type_synonym write_result = "errno + nat"

record TcpConnection =
  tc_state :: StateE
  tc_reading :: bool
  tc_events :: "EventType set"
  tc_in :: buffer
  tc_out :: buffer
  tc_queue :: "conn_functor list"
  tc_callbacks :: "conn_event list"
  tc_on_complete :: bool
  tc_sent :: string
  tc_wr_shut :: bool
  tc_accepted :: string
  tc_lost :: bool

definition new_TcpConnection :: "bool \<Rightarrow> TcpConnection" where
  "new_TcpConnection on_complete =
     \<lparr>tc_state = kConnecting, tc_reading = True, tc_events = {}, tc_in = Buffer kInitialSize,
      tc_out = Buffer kInitialSize, tc_queue = [], tc_callbacks = [], tc_on_complete = on_complete,
      tc_sent = [], tc_wr_shut = False, tc_accepted = [], tc_lost = False\<rparr>"

definition tc_connected :: "TcpConnection \<Rightarrow> bool" where "tc_connected c = (tc_state c = kConnected)"

definition tc_isWriting :: "TcpConnection \<Rightarrow> bool" where "tc_isWriting c = (WriteEvent \<in> tc_events c)"
definition tc_isReading :: "TcpConnection \<Rightarrow> bool" where "tc_isReading c = (ReadEvent \<in> tc_events c)"

definition callback :: "conn_event \<Rightarrow> TcpConnection \<Rightarrow> TcpConnection" where
  "callback e c = c\<lparr>tc_callbacks := tc_callbacks c @ [e]\<rparr>"

definition queueInLoop :: "conn_functor \<Rightarrow> TcpConnection \<Rightarrow> TcpConnection" where
  "queueInLoop f c = c\<lparr>tc_queue := tc_queue c @ [f]\<rparr>"

definition write_complete :: "TcpConnection \<Rightarrow> TcpConnection" where
  "write_complete c = (if tc_on_complete c then queueInLoop WriteCompleteCb c else c)"

section \<open>Sending\<close>

text \<open>The tail of \<open>sendInLoop\<close>: keep what was not written and ask for write events.\<close>

definition buffer_rest :: "string \<Rightarrow> TcpConnection \<Rightarrow> TcpConnection res" where
  "buffer_rest rest c =
     (if rest = [] then Inr c
      else rbind (append rest (tc_out c))
             (\<lambda>out. Inr (c\<lparr>tc_out := out, tc_events := insert WriteEvent (tc_events c)\<rparr>)))"

definition sendInLoop :: "write_result \<Rightarrow> string \<Rightarrow> TcpConnection \<Rightarrow> TcpConnection res" where
  "sendInLoop w data c0 =
     (if tc_state c0 = kDisconnected then Inr c0
      else let c = c0\<lparr>tc_accepted := tc_accepted c0 @ data\<rparr>
           in if \<not> tc_isWriting c \<and> readableBytes (tc_out c) = 0
              then (case w of
                      Inr n \<Rightarrow>
                        (let c1 = c\<lparr>tc_sent := tc_sent c @ take n data\<rparr>
                         in if length data - n = 0 then Inr (write_complete c1) else buffer_rest (drop n data) c1)
                    | Inl e \<Rightarrow>
                        if e = EPIPE \<or> e = ECONNRESET then Inr (c\<lparr>tc_lost := tc_lost c \<or> data \<noteq> []\<rparr>)
                        else buffer_rest data c)
              else buffer_rest data c)"

text \<open>\<open>send\<close> empties the caller's buffer; only its contents matter here.\<close>

definition send :: "bool \<Rightarrow> write_result \<Rightarrow> string \<Rightarrow> TcpConnection \<Rightarrow> TcpConnection res" where
  "send in_loop w data c =
     (if tc_state c = kConnected
      then (if in_loop then sendInLoop w data c else Inr (queueInLoop (SendInLoop data) c))
      else Inr c)"

section \<open>Closing\<close>

definition shutdownInLoop :: "TcpConnection \<Rightarrow> TcpConnection" where
  "shutdownInLoop c = (if \<not> tc_isWriting c then c\<lparr>tc_wr_shut := True\<rparr> else c)"

definition tc_shutdown :: "bool \<Rightarrow> TcpConnection \<Rightarrow> TcpConnection" where
  "tc_shutdown in_loop c =
     (if tc_state c = kConnected
      then (let c1 = c\<lparr>tc_state := kDisconnecting\<rparr>
            in if in_loop then shutdownInLoop c1 else queueInLoop ShutdownInLoop c1)
      else c)"

definition forceClose :: "TcpConnection \<Rightarrow> TcpConnection" where
  "forceClose c =
     (if tc_state c = kConnected \<or> tc_state c = kDisconnecting
      then queueInLoop ForceCloseInLoop (c\<lparr>tc_state := kDisconnecting\<rparr>) else c)"

definition forceCloseWithDelay :: "TcpConnection \<Rightarrow> TcpConnection" where
  "forceCloseWithDelay c =
     (if tc_state c = kConnected \<or> tc_state c = kDisconnecting then c\<lparr>tc_state := kDisconnecting\<rparr> else c)"

definition handleClose :: "TcpConnection \<Rightarrow> TcpConnection res" where
  "handleClose c =
     cpp_assert (tc_state c = kConnected \<or> tc_state c = kDisconnecting)
       (Inr (callback CloseCb (callback ConnectionDown (c\<lparr>tc_state := kDisconnected, tc_events := {}\<rparr>))))"

definition forceCloseInLoop :: "TcpConnection \<Rightarrow> TcpConnection res" where
  "forceCloseInLoop c =
     (if tc_state c = kConnected \<or> tc_state c = kDisconnecting then handleClose c else Inr c)"

definition connectEstablished :: "TcpConnection \<Rightarrow> TcpConnection res" where
  "connectEstablished c =
     cpp_assert (tc_state c = kConnecting)
       (Inr (callback ConnectionUp (c\<lparr>tc_state := kConnected, tc_events := insert ReadEvent (tc_events c)\<rparr>)))"

text \<open>\<open>channel_->remove()\<close> asserts that the channel has no events left.\<close>

definition connectDestroyed :: "TcpConnection \<Rightarrow> TcpConnection res" where
  "connectDestroyed c =
     (let c1 = (if tc_state c = kConnected
                then callback ConnectionDown (c\<lparr>tc_state := kDisconnected, tc_events := {}\<rparr>) else c)
      in cpp_assert (tc_events c1 = {}) (Inr c1))"

section \<open>Events\<close>

definition startReadInLoop :: "TcpConnection \<Rightarrow> TcpConnection" where
  "startReadInLoop c =
     (if \<not> tc_reading c \<or> \<not> tc_isReading c
      then c\<lparr>tc_events := insert ReadEvent (tc_events c), tc_reading := True\<rparr> else c)"

definition stopReadInLoop :: "TcpConnection \<Rightarrow> TcpConnection" where
  "stopReadInLoop c =
     (if tc_reading c \<or> tc_isReading c
      then c\<lparr>tc_events := tc_events c - {ReadEvent}, tc_reading := False\<rparr> else c)"

definition handleRead :: "kernel_read \<Rightarrow> TcpConnection \<Rightarrow> TcpConnection res" where
  "handleRead rv c =
     rbind (readFd rv (tc_in c)) (\<lambda>(n, b).
       let c1 = c\<lparr>tc_in := b\<rparr>
       in case n of
            Inl _ \<Rightarrow> Inr c1
          | Inr k \<Rightarrow> if k > 0 then Inr (callback MessageCb c1) else handleClose c1)"

definition handleWrite :: "write_result \<Rightarrow> TcpConnection \<Rightarrow> TcpConnection res" where
  "handleWrite w c =
     (if tc_isWriting c
      then (case w of
              Inl _ \<Rightarrow> Inr c
            | Inr n \<Rightarrow>
                if n > 0
                then rbind (retrieve n (tc_out c)) (\<lambda>out.
                       let c1 = c\<lparr>tc_out := out, tc_sent := tc_sent c @ take n (contents (tc_out c))\<rparr>
                       in if readableBytes out = 0
                          then (let c2 = write_complete (c1\<lparr>tc_events := tc_events c1 - {WriteEvent}\<rparr>)
                                in Inr (if tc_state c2 = kDisconnecting then shutdownInLoop c2 else c2))
                          else Inr c1)
                else Inr c)
      else Inr c)"

definition run_callback :: "kernel_read \<Rightarrow> write_result \<Rightarrow> ChannelCallback \<Rightarrow> TcpConnection \<Rightarrow> TcpConnection res" where
  "run_callback rv w cb c =
     (case cb of
        CloseCallback \<Rightarrow> handleClose c
      | ReadCallback \<Rightarrow> handleRead rv c
      | WriteCallback \<Rightarrow> handleWrite w c
      | ErrorCallback \<Rightarrow> Inr c)"

fun run_callbacks :: "kernel_read \<Rightarrow> write_result \<Rightarrow> ChannelCallback list \<Rightarrow> TcpConnection \<Rightarrow> TcpConnection res" where
  "run_callbacks rv w [] c = Inr c"
| "run_callbacks rv w (cb # cbs) c = rbind (run_callback rv w cb c) (run_callbacks rv w cbs)"

definition dispatch :: "kernel_read \<Rightarrow> write_result \<Rightarrow> PollFlag set \<Rightarrow> TcpConnection \<Rightarrow> TcpConnection res" where
  "dispatch rv w revents c = run_callbacks rv w (handleEvent revents) c"

definition run_functor :: "write_result \<Rightarrow> conn_functor \<Rightarrow> TcpConnection \<Rightarrow> TcpConnection res" where
  "run_functor w f c =
     (case f of
        SendInLoop d \<Rightarrow> sendInLoop w d c
      | ShutdownInLoop \<Rightarrow> Inr (shutdownInLoop c)
      | ForceCloseInLoop \<Rightarrow> forceCloseInLoop c
      | WriteCompleteCb \<Rightarrow> Inr c)"

section \<open>Runs\<close>

text \<open>
  What can happen to a connection.  The kernel never takes more bytes than it is offered, refuses
  to write after the write side was shut down, and reports only events that were asked for, or
  a hang-up or error.
\<close>

definition kernel_ok :: "write_result \<Rightarrow> string \<Rightarrow> TcpConnection \<Rightarrow> bool" where
  "kernel_ok w data c =
     (case w of Inr n \<Rightarrow> n \<le> length data \<and> (tc_wr_shut c \<longrightarrow> n = 0 \<and> data = []) | Inl e \<Rightarrow> tc_wr_shut c \<longrightarrow> e = EPIPE)"

definition requested :: "TcpConnection \<Rightarrow> PollFlag set" where
  "requested c =
     (if tc_events c = {} then {}
      else (if ReadEvent \<in> tc_events c then {POLLIN} else {}) \<union> (if WriteEvent \<in> tc_events c then {POLLOUT} else {})
           \<union> {POLLHUP, POLLERR})"

inductive tcp_step :: "TcpConnection \<Rightarrow> TcpConnection \<Rightarrow> bool" where
  established: "tc_state c = kConnecting \<Longrightarrow> connectEstablished c = Inr c' \<Longrightarrow> tcp_step c c'"
| user_send: "kernel_ok w data c \<Longrightarrow> send in_loop w data c = Inr c' \<Longrightarrow> tcp_step c c'"
| user_shutdown: "tcp_step c (tc_shutdown in_loop c)"
| user_forceClose: "tcp_step c (forceClose c)"
| user_forceCloseWithDelay: "tcp_step c (forceCloseWithDelay c)"
| user_startRead: "tc_state c = kConnected \<Longrightarrow> tcp_step c (startReadInLoop c)"
| user_stopRead: "tcp_step c (stopReadInLoop c)"
| user_consumes: "retrieve n (tc_in c) = Inr b \<Longrightarrow> tcp_step c (c\<lparr>tc_in := b\<rparr>)"
| loop_event: "revents \<subseteq> requested c \<Longrightarrow> kernel_ok w (contents (tc_out c)) c \<Longrightarrow>
     \<forall>n d. rv n = Inr d \<longrightarrow> length d \<le> n \<Longrightarrow> dispatch rv w revents c = Inr c' \<Longrightarrow> tcp_step c c'"
| loop_functor: "tc_queue c = f # fs \<Longrightarrow> (\<forall>d. f = SendInLoop d \<longrightarrow> kernel_ok w d c) \<Longrightarrow>
     run_functor w f (c\<lparr>tc_queue := fs\<rparr>) = Inr c' \<Longrightarrow> tcp_step c c'"

section \<open>The invariant\<close>

definition live :: "TcpConnection \<Rightarrow> bool" where
  "live c \<longleftrightarrow> tc_state c = kConnected \<or> tc_state c = kDisconnecting"

definition state_callbacks :: "StateE \<Rightarrow> conn_event list" where
  "state_callbacks s = (case s of
     kConnecting \<Rightarrow> [] | kConnected \<Rightarrow> [ConnectionUp] | kDisconnecting \<Rightarrow> [ConnectionUp]
   | kDisconnected \<Rightarrow> [ConnectionUp, ConnectionDown, CloseCb])"

definition tc_ok :: "TcpConnection \<Rightarrow> bool" where
  "tc_ok c \<longleftrightarrow> buf_ok (tc_in c) \<and> buf_ok (tc_out c)
     \<and> (\<not> tc_lost c \<longrightarrow> tc_accepted c = tc_sent c @ contents (tc_out c))
     \<and> (live c \<longrightarrow> (tc_isWriting c \<longleftrightarrow> contents (tc_out c) \<noteq> []))
     \<and> (\<not> live c \<longrightarrow> tc_events c = {})
     \<and> (tc_state c = kConnecting \<longrightarrow> tc_queue c = [] \<and> contents (tc_out c) = [])
     \<and> (tc_wr_shut c \<longrightarrow> tc_state c = kDisconnecting \<and> contents (tc_out c) = [] \<or> tc_state c = kDisconnected)
     \<and> filter (\<lambda>e. e \<noteq> MessageCb) (tc_callbacks c) = state_callbacks (tc_state c)"

lemmas tc_defs = tc_ok_def live_def tc_isWriting_def state_callbacks_def

lemma readable_0: "buf_ok b \<Longrightarrow> readableBytes b = 0 \<longleftrightarrow> contents b = []"
  by (metis length_0_conv length_contents)

lemma new_TcpConnection_ok: "tc_ok (new_TcpConnection oc)"
  using Buffer_ok [of kInitialSize] by (simp add: tc_defs new_TcpConnection_def)

text \<open>Queuing a functor, and a message callback, touch nothing the invariant speaks of on a live connection.\<close>

lemma queueInLoop_ok: "tc_ok c \<Longrightarrow> tc_state c \<noteq> kConnecting \<Longrightarrow> tc_ok (queueInLoop f c)"
  by (simp add: tc_defs queueInLoop_def)

lemma write_complete_ok: "tc_ok c \<Longrightarrow> tc_state c \<noteq> kConnecting \<Longrightarrow> tc_ok (write_complete c)"
  by (simp add: write_complete_def queueInLoop_ok)

lemma write_complete_fields [simp]:
  "tc_state (write_complete c) = tc_state c" "tc_events (write_complete c) = tc_events c"
  by (simp_all add: write_complete_def queueInLoop_def)

lemma shutdownInLoop_ok:
  "tc_ok c \<Longrightarrow> tc_state c = kDisconnecting \<or> tc_state c = kDisconnected \<Longrightarrow> tc_ok (shutdownInLoop c)"
  by (auto simp: shutdownInLoop_def tc_defs)

lemma buffer_rest_ok:
  assumes "tc_ok (c\<lparr>tc_accepted := acc\<rparr>)" "live c" "\<not> tc_wr_shut c" "tc_accepted c = acc @ rest"
  shows "\<exists>c'. buffer_rest rest c = Inr c' \<and> tc_ok c'"
proof (cases "rest = []")
  case True
  with assms(1,4) show ?thesis by (simp add: buffer_rest_def tc_defs)
next
  case False
  have "buf_ok (tc_out c)" using assms(1) by (simp add: tc_ok_def)
  from append_ok [OF this, of rest] obtain b where
    b: "append rest (tc_out c) = Inr b" "buf_ok b" "contents b = contents (tc_out c) @ rest" by blast
  with assms False show ?thesis by (auto simp: buffer_rest_def tc_defs)
qed

lemma sendInLoop_ok:
  assumes "tc_ok c" "tc_state c \<noteq> kConnecting" "kernel_ok w data c"
  shows "\<exists>c'. sendInLoop w data c = Inr c' \<and> tc_ok c'"
proof (cases "live c")
  case False
  with assms(1,2) show ?thesis by (cases "tc_state c") (auto simp: sendInLoop_def live_def)
next
  case True
  then have nd: "tc_state c \<noteq> kDisconnected" by (auto simp: live_def)
  have bo: "buf_ok (tc_out c)" using assms(1) by (simp add: tc_ok_def)
  let ?acc = "tc_accepted c @ data"
  have rest: "\<exists>c'. buffer_rest data (c\<lparr>tc_accepted := ?acc\<rparr>) = Inr c' \<and> tc_ok c'" if "\<not> tc_wr_shut c"
    using assms(1) True that by (intro buffer_rest_ok [where acc = "tc_accepted c"]) (simp_all add: live_def)
  show ?thesis
  proof (cases "tc_isWriting c \<or> readableBytes (tc_out c) \<noteq> 0")
    case busy: True
    with assms(1) True have "contents (tc_out c) \<noteq> []" using readable_0 [OF bo] by (auto simp: tc_ok_def)
    then have "\<not> tc_wr_shut c" using assms(1) nd by (auto simp: tc_ok_def)
    with rest busy nd show ?thesis by (auto simp: sendInLoop_def Let_def tc_isWriting_def)
  next
    case idle: False
    then have emp: "contents (tc_out c) = []" using readable_0 [OF bo] by simp
    show ?thesis
    proof (cases w)
      case (Inl e)
      with assms(3) rest idle nd True assms(1) show ?thesis
        by (cases "e = EPIPE \<or> e = ECONNRESET")
           (auto simp: sendInLoop_def Let_def tc_isWriting_def kernel_ok_def tc_defs)
    next
      case (Inr n)
      let ?c1 = "c\<lparr>tc_accepted := tc_accepted c @ take n data, tc_sent := tc_sent c @ take n data\<rparr>"
      have n: "n \<le> length data" "tc_wr_shut c \<Longrightarrow> data = []" using assms(3) Inr by (auto simp: kernel_ok_def)
      have ok1: "tc_ok ?c1" using assms(1) emp by (auto simp: tc_defs)
      show ?thesis
      proof (cases "length data - n = 0")
        case all: True
        with n have "take n data = data" by simp
        with ok1 all Inr idle nd assms(2) show ?thesis
          by (auto simp: sendInLoop_def Let_def tc_isWriting_def intro!: write_complete_ok)
      next
        case some: False
        with n have "\<not> tc_wr_shut c" by auto
        with ok1 True have "\<exists>c'. buffer_rest (drop n data)
            (c\<lparr>tc_accepted := tc_accepted c @ data, tc_sent := tc_sent c @ take n data\<rparr>) = Inr c' \<and> tc_ok c'"
          by (intro buffer_rest_ok [where acc = "tc_accepted c @ take n data"]) (auto simp: tc_defs)
        with some Inr idle nd show ?thesis
          by (auto simp: sendInLoop_def Let_def tc_isWriting_def)
      qed
    qed
  qed
qed

lemma send_ok:
  "tc_ok c \<Longrightarrow> kernel_ok w data c \<Longrightarrow> \<exists>c'. send in_loop w data c = Inr c' \<and> tc_ok c'"
  using sendInLoop_ok [of c w data] queueInLoop_ok [of c] by (auto simp: send_def)

lemma handleClose_ok:
  "tc_ok c \<Longrightarrow> live c \<Longrightarrow> \<exists>c'. handleClose c = Inr c' \<and> tc_ok c' \<and> tc_events c' = {}"
  by (auto simp: handleClose_def callback_def cpp_assert_def tc_defs)

lemma handleRead_ok:
  assumes "tc_ok c" "live c"
  shows "\<exists>c'. handleRead rv c = Inr c' \<and> tc_ok c'
    \<and> (tc_events c' = {} \<or> tc_out c' = tc_out c \<and> tc_wr_shut c' = tc_wr_shut c)"
proof -
  have bi: "buf_ok (tc_in c)" using assms(1) by (simp add: tc_ok_def)
  have upd: "tc_ok (c\<lparr>tc_in := b\<rparr>)" "live (c\<lparr>tc_in := b\<rparr>)" if "buf_ok b" for b
    using assms that by (auto simp: tc_defs)
  show ?thesis
  proof (cases "rv (iov_capacity (tc_in c))")
    case (Inl e)
    with assms show ?thesis by (simp add: handleRead_def readFd_error)
  next
    case (Inr d)
    from readFd_ok [of "tc_in c" rv d, OF bi Inr] obtain b where
      b: "readFd rv (tc_in c) = Inr (Inr (length d), b)" "buf_ok b" by blast
    show ?thesis
    proof (cases "d = []")
      case True
      with b handleClose_ok [OF upd [OF b(2)]] show ?thesis by (auto simp: handleRead_def)
    next
      case False
      with b upd [OF b(2)] show ?thesis
        by (auto simp: handleRead_def callback_def tc_defs)
    qed
  qed
qed

lemma handleWrite_ok:
  assumes "tc_ok c" "tc_isWriting c \<Longrightarrow> kernel_ok w (contents (tc_out c)) c"
  shows "\<exists>c'. handleWrite w c = Inr c' \<and> tc_ok c'"
proof (cases "tc_isWriting c")
  case False
  with assms(1) show ?thesis by (simp add: handleWrite_def)
next
  case True
  then have lv: "live c" and bo: "buf_ok (tc_out c)" using assms(1) by (auto simp: tc_ok_def tc_isWriting_def)
  show ?thesis
  proof (cases w)
    case (Inl e)
    with assms(1) True show ?thesis by (simp add: handleWrite_def)
  next
    case (Inr n)
    with assms(2) [OF True] have n: "n \<le> length (contents (tc_out c))" by (simp add: kernel_ok_def)
    from retrieve_ok [OF bo n] obtain b where
      b: "retrieve n (tc_out c) = Inr b" "buf_ok b" "contents b = drop n (contents (tc_out c))" by blast
    let ?c1 = "c\<lparr>tc_out := b, tc_sent := tc_sent c @ take n (contents (tc_out c))\<rparr>"
    let ?c2 = "?c1\<lparr>tc_events := tc_events c - {WriteEvent}\<rparr>"
    have c1: "tc_ok ?c1" if "contents b \<noteq> []" using assms(1) lv b(2,3) that True by (auto simp: tc_defs)
    have c2: "tc_ok ?c2" if "contents b = []" using assms(1) lv b(2,3) that by (auto simp: tc_defs)
    have c3: "tc_ok (write_complete ?c2)" if "contents b = []"
      using c2 [OF that] lv by (intro write_complete_ok) (auto simp: live_def)
    show ?thesis
      using True Inr b readable_0 [OF b(2)] assms(1) c1 c3 shutdownInLoop_ok [OF c3]
      by (auto simp: handleWrite_def Let_def)
  qed
qed

lemma requested_live: "tc_ok c \<Longrightarrow> revents \<subseteq> requested c \<Longrightarrow> revents \<noteq> {} \<Longrightarrow> live c"
  by (auto simp: requested_def tc_ok_def split: if_splits)

lemma requested_no_extra: "revents \<subseteq> requested c \<Longrightarrow> POLLPRI \<notin> revents \<and> POLLRDHUP \<notin> revents \<and> POLLNVAL \<notin> revents"
  by (auto simp: requested_def split: if_splits)

text \<open>The callbacks that follow the close or read callback of the same event.\<close>

lemma tail_callbacks_ok:
  assumes "tc_ok c" "tc_isWriting c \<Longrightarrow> kernel_ok w (contents (tc_out c)) c" "set cbs \<subseteq> {WriteCallback, ErrorCallback}"
    "length (filter (\<lambda>x. x = WriteCallback) cbs) \<le> 1"
  shows "\<exists>c'. run_callbacks rv w cbs c = Inr c' \<and> tc_ok c'"
  using assms
proof (induction cbs arbitrary: c)
  case (Cons cb cbs)
  show ?case
  proof (cases cb)
    case WriteCallback
    with Cons.prems(3,4) have "set cbs \<subseteq> {ErrorCallback}" by (auto simp: filter_empty_conv)
    then have rest: "run_callbacks rv w cbs x = Inr x" for x
      by (induction cbs) (auto simp: run_callback_def)
    with WriteCallback handleWrite_ok [OF Cons.prems(1,2)] show ?thesis by (auto simp: run_callback_def)
  next
    case ErrorCallback
    with Cons show ?thesis by (auto simp: run_callback_def)
  qed (use Cons.prems(3) in auto)
qed simp

definition tail_callbacks :: "PollFlag set \<Rightarrow> ChannelCallback list" where
  "tail_callbacks revents =
     (if POLLOUT \<in> revents then [WriteCallback] else []) @ (if POLLERR \<in> revents then [ErrorCallback] else [])"

lemma handleEvent_requested:
  assumes "revents \<subseteq> requested c"
  shows "handleEvent revents = (if POLLIN \<in> revents then [ReadCallback]
     else if POLLHUP \<in> revents then [CloseCallback] else []) @ tail_callbacks revents"
  using requested_no_extra [OF assms] by (auto simp: handleEvent_def tail_callbacks_def)

lemma dispatch_ok:
  assumes "tc_ok c" "revents \<subseteq> requested c" "kernel_ok w (contents (tc_out c)) c"
  shows "\<exists>c'. dispatch rv w revents c = Inr c' \<and> tc_ok c'"
proof -
  have tail: "\<exists>c'. run_callbacks rv w (tail_callbacks revents) c1 = Inr c' \<and> tc_ok c'"
    if "tc_ok c1" "tc_events c1 = {} \<or> tc_out c1 = tc_out c \<and> tc_wr_shut c1 = tc_wr_shut c" for c1
  proof (rule tail_callbacks_ok [OF that(1)])
    show "kernel_ok w (contents (tc_out c1)) c1" if "tc_isWriting c1"
      using that \<open>tc_events c1 = {} \<or> _\<close> assms(3) by (auto simp: tc_isWriting_def kernel_ok_def split: sum.splits)
  qed (auto simp: tail_callbacks_def)
  consider (read) "POLLIN \<in> revents" | (hup) "POLLIN \<notin> revents" "POLLHUP \<in> revents"
    | (other) "POLLIN \<notin> revents" "POLLHUP \<notin> revents" by blast
  then show ?thesis
  proof cases
    case read
    then have "live c" using requested_live [OF assms(1,2)] by blast
    from handleRead_ok [OF assms(1) this, of rv] obtain c1 where
      "handleRead rv c = Inr c1" "tc_ok c1" "tc_events c1 = {} \<or> tc_out c1 = tc_out c \<and> tc_wr_shut c1 = tc_wr_shut c"
      by blast
    with tail [of c1] read show ?thesis
      by (simp add: dispatch_def handleEvent_requested [OF assms(2)] run_callback_def)
  next
    case hup
    then have "live c" using requested_live [OF assms(1,2)] by blast
    from handleClose_ok [OF assms(1) this] obtain c1 where
      "handleClose c = Inr c1" "tc_ok c1" "tc_events c1 = {}" by blast
    with tail [of c1] hup show ?thesis
      by (simp add: dispatch_def handleEvent_requested [OF assms(2)] run_callback_def)
  next
    case other
    with tail [OF assms(1)] show ?thesis by (simp add: dispatch_def handleEvent_requested [OF assms(2)])
  qed
qed

lemma tc_shutdown_ok: "tc_ok c \<Longrightarrow> tc_ok (tc_shutdown in_loop c)"
proof -
  assume ok: "tc_ok c"
  have "tc_ok (c\<lparr>tc_state := kDisconnecting\<rparr>)" if "tc_state c = kConnected"
    using ok that by (auto simp: tc_defs)
  then show ?thesis
    using ok by (auto simp: tc_shutdown_def Let_def intro!: shutdownInLoop_ok queueInLoop_ok)
qed

text \<open>A queued \<open>ShutdownInLoop\<close> implies that the connection has left the connected state.\<close>

definition queue_ok :: "TcpConnection \<Rightarrow> bool" where
  "queue_ok c \<longleftrightarrow> (ShutdownInLoop \<in> set (tc_queue c) \<longrightarrow> tc_state c = kDisconnecting \<or> tc_state c = kDisconnected)"

lemma run_functor_ok:
  assumes "tc_ok c" "queue_ok c" "tc_queue c = f # fs" "\<And>d. f = SendInLoop d \<Longrightarrow> kernel_ok w d c"
  shows "\<exists>c'. run_functor w f (c\<lparr>tc_queue := fs\<rparr>) = Inr c' \<and> tc_ok c'"
proof -
  let ?c = "c\<lparr>tc_queue := fs\<rparr>"
  have nc: "tc_state c \<noteq> kConnecting" using assms(1,3) by (auto simp: tc_ok_def)
  then have ok: "tc_ok ?c" using assms(1) by (auto simp: tc_defs)
  show ?thesis
  proof (cases f)
    case (SendInLoop d)
    with assms(4) have "kernel_ok w d ?c" by (simp add: kernel_ok_def split: sum.splits)
    with sendInLoop_ok [OF ok _ this] nc SendInLoop show ?thesis by (simp add: run_functor_def)
  next
    case ShutdownInLoop
    with assms(2,3) have "tc_state ?c = kDisconnecting \<or> tc_state ?c = kDisconnected" by (simp add: queue_ok_def)
    with ok ShutdownInLoop show ?thesis by (simp add: run_functor_def shutdownInLoop_ok)
  next
    case ForceCloseInLoop
    with ok handleClose_ok [OF ok] show ?thesis by (auto simp: run_functor_def forceCloseInLoop_def live_def)
  qed (use ok in \<open>simp add: run_functor_def\<close>)
qed

text \<open>Every operation keeps a closing connection closing, and queues no shutdown on another one.\<close>

definition closing :: "TcpConnection \<Rightarrow> bool" where
  "closing c \<longleftrightarrow> tc_state c = kDisconnecting \<or> tc_state c = kDisconnected"

definition closes_only :: "TcpConnection \<Rightarrow> TcpConnection \<Rightarrow> bool" where
  "closes_only c c' \<longleftrightarrow> (closing c \<longrightarrow> closing c')
     \<and> (ShutdownInLoop \<in> set (tc_queue c') \<longrightarrow> ShutdownInLoop \<in> set (tc_queue c) \<or> closing c')"

lemma closes_only_refl [simp]: "closes_only c c"
  by (simp add: closes_only_def)

lemma closes_only_trans: "closes_only a b \<Longrightarrow> closes_only b c \<Longrightarrow> closes_only a c"
  by (auto simp: closes_only_def)

lemma closes_only_queue_ok: "queue_ok c \<Longrightarrow> closes_only c c' \<Longrightarrow> queue_ok c'"
  by (auto simp: queue_ok_def closes_only_def closing_def)

lemma closes_onlyI:
  "tc_state c' = tc_state c \<or> closing c' \<Longrightarrow> set (tc_queue c') \<subseteq> insert WriteCompleteCb (set (tc_queue c)) \<or> closing c'
   \<Longrightarrow> closes_only c c'"
  by (auto simp: closes_only_def closing_def)

lemma buffer_rest_closes: "buffer_rest r c = Inr c' \<Longrightarrow> tc_state c' = tc_state c \<and> tc_queue c' = tc_queue c"
  by (auto simp: buffer_rest_def split: if_splits)

lemma sendInLoop_closes: "sendInLoop w d c = Inr c' \<Longrightarrow> closes_only c c'"
  by (intro closes_onlyI)
     (auto simp: sendInLoop_def Let_def write_complete_def queueInLoop_def dest!: buffer_rest_closes
       split: if_splits sum.splits)

lemma handleClose_closes: "handleClose c = Inr c' \<Longrightarrow> closes_only c c'"
  by (intro closes_onlyI) (auto simp: handleClose_def callback_def closing_def)

lemma handleRead_closes: "handleRead rv c = Inr c' \<Longrightarrow> closes_only c c'"
proof -
  assume "handleRead rv c = Inr c'"
  then obtain n b where b: "readFd rv (tc_in c) = Inr (n, b)"
    and n: "(case n of Inl _ \<Rightarrow> Inr (c\<lparr>tc_in := b\<rparr>)
       | Inr k \<Rightarrow> if k > 0 then Inr (callback MessageCb (c\<lparr>tc_in := b\<rparr>)) else handleClose (c\<lparr>tc_in := b\<rparr>)) = Inr c'"
    by (auto simp: handleRead_def Let_def)
  have "closes_only c (c\<lparr>tc_in := b\<rparr>)" by (rule closes_onlyI) auto
  with n show ?thesis
    by (auto split: sum.splits if_splits dest!: handleClose_closes elim: closes_only_trans
        simp: closes_only_def callback_def closing_def)
qed

lemma handleWrite_closes: "handleWrite w c = Inr c' \<Longrightarrow> closes_only c c'"
  by (intro closes_onlyI)
     (auto simp: handleWrite_def Let_def write_complete_def queueInLoop_def shutdownInLoop_def
       split: if_splits sum.splits)

lemma run_callbacks_closes: "run_callbacks rv w cbs c = Inr c' \<Longrightarrow> closes_only c c'"
proof (induction cbs arbitrary: c)
  case (Cons cb cbs)
  then obtain c1 where c1: "run_callback rv w cb c = Inr c1" "run_callbacks rv w cbs c1 = Inr c'" by auto
  then have "closes_only c c1"
    by (cases cb) (auto simp: run_callback_def dest: handleClose_closes handleRead_closes handleWrite_closes)
  with Cons.IH [OF c1(2)] show ?case using closes_only_trans by blast
qed simp

lemma run_functor_closes: "run_functor w f c = Inr c' \<Longrightarrow> closes_only c c'"
  by (cases f)
     (auto simp: run_functor_def forceCloseInLoop_def shutdownInLoop_def closes_only_def closing_def
       dest!: sendInLoop_closes handleClose_closes split: if_splits)

lemma tcp_step_closes: "tcp_step c c' \<Longrightarrow> closes_only c c'"
proof (induction rule: tcp_step.induct)
  case (established c c')
  then show ?case by (auto simp: connectEstablished_def callback_def closes_only_def closing_def)
next
  case (user_send w data c in_loop c')
  then show ?case
    by (auto simp: send_def queueInLoop_def closes_only_def closing_def dest!: sendInLoop_closes split: if_splits)
next
  case (loop_functor c f fs w c')
  have "closes_only c (c\<lparr>tc_queue := fs\<rparr>)" using loop_functor(1) by (auto simp: closes_only_def closing_def)
  with run_functor_closes [OF loop_functor(3)] show ?case using closes_only_trans by blast
next
  case (loop_event revents c w rv c')
  then show ?case by (auto simp: dispatch_def dest: run_callbacks_closes)
qed (auto simp: closes_only_def closing_def tc_shutdown_def shutdownInLoop_def queueInLoop_def forceClose_def
    forceCloseWithDelay_def startReadInLoop_def stopReadInLoop_def Let_def)

definition tc_inv :: "TcpConnection \<Rightarrow> bool" where
  "tc_inv c \<longleftrightarrow> tc_ok c \<and> queue_ok c"

lemma retrieve_in_ok: "buf_ok b \<Longrightarrow> retrieve n b = Inr b' \<Longrightarrow> buf_ok b'"
  by (auto simp: retrieve_def cpp_assert_def retrieveAll_ok split: if_splits) (auto simp: buf_defs)

lemma tcp_step_ok: "tcp_step c c' \<Longrightarrow> tc_inv c \<Longrightarrow> tc_ok c'"
proof (induction rule: tcp_step.induct)
  case (established c c')
  then show ?case by (auto simp: connectEstablished_def callback_def tc_inv_def tc_defs)
next
  case (user_send w data c in_loop c')
  then show ?case using send_ok [of c w data in_loop] by (simp add: tc_inv_def)
next
  case (user_shutdown c in_loop)
  then show ?case by (simp add: tc_inv_def tc_shutdown_ok)
next
  case (user_forceClose c)
  then show ?case by (auto simp: tc_inv_def forceClose_def queueInLoop_def tc_defs)
next
  case (user_forceCloseWithDelay c)
  then show ?case by (auto simp: tc_inv_def forceCloseWithDelay_def tc_defs)
next
  case (user_startRead c)
  then show ?case by (auto simp: tc_inv_def startReadInLoop_def tc_defs)
next
  case (user_stopRead c)
  then show ?case by (auto simp: tc_inv_def stopReadInLoop_def tc_defs)
next
  case (user_consumes n c b)
  then have "buf_ok b" by (auto simp: tc_inv_def tc_ok_def intro: retrieve_in_ok)
  with user_consumes show ?case by (auto simp: tc_inv_def tc_defs)
next
  case (loop_event revents c w rv c')
  then show ?case using dispatch_ok [of c revents w rv] by (simp add: tc_inv_def)
next
  case (loop_functor c f fs w c')
  then show ?case using run_functor_ok [of c f fs w] by (auto simp: tc_inv_def)
qed

abbreviation tcp_reachable :: "TcpConnection \<Rightarrow> bool" where
  "tcp_reachable \<equiv> reachable (\<lambda>c. \<exists>oc. c = new_TcpConnection oc) tcp_step"

lemma reachable_tc_inv: "tcp_reachable c \<Longrightarrow> tc_inv c"
proof (erule reachable_invariant)
  show "tc_inv c" if "\<exists>oc. c = new_TcpConnection oc" for c
    using that new_TcpConnection_ok by (auto simp: tc_inv_def queue_ok_def new_TcpConnection_def)
  show "tc_inv c'" if "tc_inv c" "tcp_step c c'" for c c'
    using that tcp_step_ok tcp_step_closes closes_only_queue_ok by (auto simp: tc_inv_def)
qed

section \<open>Properties\<close>


lemma established_reachable:
  "tcp_reachable ((new_TcpConnection False)\<lparr>tc_state := kConnected, tc_events := {ReadEvent}, tc_callbacks := [ConnectionUp]\<rparr>)"
proof (rule reachable_step)
  show "tcp_reachable (new_TcpConnection False)" by (rule reachable_init) blast
  show "tcp_step (new_TcpConnection False)
      ((new_TcpConnection False)\<lparr>tc_state := kConnected, tc_events := {ReadEvent}, tc_callbacks := [ConnectionUp]\<rparr>)"
    by (rule established) (simp_all add: new_TcpConnection_def connectEstablished_def callback_def)
qed

lemma partial_write_reachable:
  "\<exists>c. tcp_reachable c \<and> tc_accepted c = ''abc'' \<and> tc_sent c = ''a'' \<and> \<not> tc_lost c \<and> live c"
proof -
  let ?c = "(new_TcpConnection False)\<lparr>tc_state := kConnected, tc_events := {ReadEvent}, tc_callbacks := [ConnectionUp]\<rparr>"
  have "contents (tc_out ?c) = []" "buf_ok (tc_out ?c)"
    using Buffer_ok [of kInitialSize] by (simp_all add: new_TcpConnection_def)
  then have rb: "readableBytes (tc_out ?c) = 0" by (simp add: readable_0)
  have "kernel_ok (Inr 1) ''abc'' ?c" by (simp add: kernel_ok_def new_TcpConnection_def)
  obtain b where b: "append ''bc'' (tc_out ?c) = Inr b" using append_ok [OF \<open>buf_ok (tc_out ?c)\<close>] by blast
  let ?d = "?c\<lparr>tc_accepted := ''abc'', tc_sent := ''a'', tc_out := b, tc_events := {WriteEvent, ReadEvent}\<rparr>"
  have "send True (Inr 1) ''abc'' ?c = Inr ?d"
    using rb b by (simp add: send_def sendInLoop_def tc_isWriting_def buffer_rest_def new_TcpConnection_def)
  from user_send [OF \<open>kernel_ok (Inr 1) ''abc'' ?c\<close> this]
  have "tcp_reachable ?d" using established_reachable by (rule reachable_step [rotated])
  then show ?thesis by (intro exI [of _ ?d]) (simp add: live_def new_TcpConnection_def)
qed


text \<open>
  A connection reports up exactly once, and down and closed at most once, in this order
  and in step with its state: before it is established nothing, while connected or disconnecting
  only up, and after disconnection up, down, closed.
\<close>

theorem tcp_callbacks_follow_state:
  assumes "tcp_reachable c"
  shows "filter (\<lambda>e. e \<noteq> MessageCb) (tc_callbacks c) = state_callbacks (tc_state c)"
  using reachable_tc_inv [OF assms] by (simp add: tc_inv_def tc_ok_def)

theorem tcp_callbacks_follow_state_witness:
  "\<exists>c. tcp_reachable c \<and> tc_state c = kConnected \<and> filter (\<lambda>e. e \<noteq> MessageCb) (tc_callbacks c) = [ConnectionUp]"
proof -
  let ?c = "(new_TcpConnection False)\<lparr>tc_state := kConnected, tc_events := {ReadEvent}, tc_callbacks := [ConnectionUp]\<rparr>"
  have "filter (\<lambda>e. e \<noteq> MessageCb) (tc_callbacks ?c) = state_callbacks (tc_state ?c)"
    by (rule tcp_callbacks_follow_state [OF established_reachable])
  then show ?thesis using established_reachable by (intro exI [of _ ?c]) (simp add: state_callbacks_def)
qed

text \<open>
  Whatever requested events, hang-ups and errors epoll reports together for a reachable
  connection, the channel's callbacks run without hitting an assertion (a close callback is never
  followed by a second close), and so does every functor waiting in the loop's queue.
\<close>

theorem tcp_events_never_assert:
  assumes "tcp_reachable c" "revents \<subseteq> requested c" "kernel_ok w (contents (tc_out c)) c"
  shows "(\<exists>c'. dispatch rv w revents c = Inr c')
    \<and> (\<forall>f fs w'. tc_queue c = f # fs \<and> (\<forall>d. f = SendInLoop d \<longrightarrow> kernel_ok w' d c)
         \<longrightarrow> (\<exists>c'. run_functor w' f (c\<lparr>tc_queue := fs\<rparr>) = Inr c'))"
proof -
  have inv: "tc_ok c" "queue_ok c" using reachable_tc_inv [OF assms(1)] by (simp_all add: tc_inv_def)
  show ?thesis
    using dispatch_ok [OF inv(1) assms(2,3)] run_functor_ok [OF inv] by blast
qed

theorem tcp_events_never_assert_witness:
  "\<exists>c c'. tcp_reachable c \<and> POLLHUP \<in> requested c \<and> dispatch (\<lambda>_. Inr []) (Inr 0) {POLLIN, POLLHUP} c = Inr c'"
proof -
  let ?c = "(new_TcpConnection False)\<lparr>tc_state := kConnected, tc_events := {ReadEvent}, tc_callbacks := [ConnectionUp]\<rparr>"
  have "{POLLIN, POLLHUP} \<subseteq> requested ?c" by (simp add: requested_def)
  moreover have "kernel_ok (Inr 0) (contents (tc_out ?c)) ?c" by (simp add: kernel_ok_def new_TcpConnection_def)
  ultimately show ?thesis
    using tcp_events_never_assert [OF established_reachable, of "{POLLIN, POLLHUP}" "Inr 0" "\<lambda>_. Inr []"]
      established_reachable by blast
qed

text \<open>
  \<open>connectDestroyed\<close>, which the server's destructor calls on every connection it still
  holds, disables the channel only in the connected state: on a reachable connection that is
  shutting down it runs into the assertion of \<open>Channel::remove\<close>.
\<close>

theorem destroying_a_closing_connection_asserts:
  "\<exists>c. tcp_reachable c \<and> tc_state c = kDisconnecting \<and> connectDestroyed c = Inl AssertFailed"
proof -
  let ?c = "(new_TcpConnection False)\<lparr>tc_state := kConnected, tc_events := {ReadEvent}, tc_callbacks := [ConnectionUp]\<rparr>"
  have "tcp_reachable (tc_shutdown True ?c)"
    using established_reachable by (rule reachable_step) (rule user_shutdown)
  moreover have "tc_state (tc_shutdown True ?c) = kDisconnecting" "connectDestroyed (tc_shutdown True ?c) = Inl AssertFailed"
    by (simp_all add: tc_shutdown_def shutdownInLoop_def connectDestroyed_def cpp_assert_def tc_isWriting_def)
  ultimately show ?thesis by blast
qed

end
