(* ===== verification/Http_Response.thy ===== *)
theory Http_Response
  imports Tcp_Connection
begin

text \<open>
  \<open>NetworkHttpResponse\<close> of \<open>serving/http/NetworkHttpTypes.h\<close> on top of a TCP connection, and
  \<open>HttpStreamSession\<close> of \<open>serving/http/HttpStreamSession.cc\<close> on top of a response.  Calls from another
  thread leave a closure in the loop's queue (\<open>r_queue\<close>); calls from the loop's thread act at once.
  The header map is an association list; the order in which the \<open>unordered_map\<close> is iterated is the
  argument \<open>iter\<close>, and the kernel's answer to a write is a function of the bytes offered.
\<close>

section \<open>The response\<close>

type_synonym kernel_write = "string \<Rightarrow> write_result"

type_synonym header_map = "(string \<times> string) list"

datatype resp_functor = RWrite string | REnd

record Response =
  r_conn :: TcpConnection
  header_sent :: bool
  sse :: bool
  status_code :: int
  reason :: string
  headers :: header_map
  r_queue :: "resp_functor list"
  on_close :: bool

definition new_Response :: "TcpConnection \<Rightarrow> bool \<Rightarrow> Response" where
  "new_Response c is_sse =
     \<lparr>r_conn = c, header_sent = False, sse = is_sse, status_code = 200, reason = ''OK'', headers = [],
      r_queue = [], on_close = False\<rparr>"

definition default_reason :: "int \<Rightarrow> string" where
  "default_reason code =
     (if code = 200 then ''OK''
      else if code = 429 then ''Too Many Requests''
      else if code = 503 then ''Service Unavailable''
      else if code = 400 then ''Bad Request''
      else if code = 404 then ''Not Found''
      else if code = 405 then ''Method Not Allowed''
      else if code = 501 then ''Not Implemented''
      else if code = 500 then ''Internal Server Error''
      else ''Error'')"

definition SetStatus :: "int \<Rightarrow> string \<Rightarrow> Response \<Rightarrow> Response" where
  "SetStatus code r res =
     (if header_sent res then res
      else res\<lparr>status_code := code, reason := (if r \<noteq> [] then r else default_reason code)\<rparr>)"

fun header_put :: "string \<Rightarrow> string \<Rightarrow> header_map \<Rightarrow> header_map" where
  "header_put k v [] = [(k, v)]"
| "header_put k v ((k', v') # hs) = (if k' = k then (k, v) # hs else (k', v') # header_put k v hs)"

definition header_default :: "string \<Rightarrow> string \<Rightarrow> header_map \<Rightarrow> header_map" where
  "header_default k v hs = (if map_of hs k = None then header_put k v hs else hs)"

definition SetHeader :: "string \<Rightarrow> string \<Rightarrow> Response \<Rightarrow> Response" where
  "SetHeader k v res = (if header_sent res then res else res\<lparr>headers := header_put k v (headers res)\<rparr>)"

definition crlf :: string where "crlf = [CHR 0x0D, CHR 0x0A]"

definition with_default_headers :: "bool \<Rightarrow> header_map \<Rightarrow> header_map" where
  "with_default_headers is_sse hs =
     header_default ''Access-Control-Allow-Headers'' ''content-type''
       (header_default ''Access-Control-Allow-Methods'' ''POST, OPTIONS''
         (header_default ''Access-Control-Allow-Origin'' ''*''
           (if is_sse
            then header_default ''Connection'' ''keep-alive''
                   (header_default ''Cache-Control'' ''no-cache''
                     (header_default ''Content-Type'' ''text/event-stream'' hs))
            else header_default ''Connection'' ''close''
                   (header_default ''Content-Type'' ''application/json'' hs))))"

definition header_block :: "(header_map \<Rightarrow> header_map) \<Rightarrow> Response \<Rightarrow> string" where
  "header_block iter res =
     ''HTTP/1.1 '' @ to_string (status_code res) @ '' '' @ reason res @ crlf
     @ concat (map (\<lambda>(k, v). k @ '': '' @ v @ crlf) (iter (with_default_headers (sse res) (headers res)))) @ crlf"

definition EndInLoop :: "Response \<Rightarrow> Response" where
  "EndInLoop res = res\<lparr>r_conn := tc_shutdown True (r_conn res)\<rparr>"

definition WriteInLoop :: "(header_map \<Rightarrow> header_map) \<Rightarrow> kernel_write \<Rightarrow> string \<Rightarrow> Response \<Rightarrow> Response res" where
  "WriteInLoop iter kw data res =
     (if \<not> tc_connected (r_conn res) then Inr res
      else let buf = (if header_sent res then [] else header_block iter res) @ data;
               res1 = (if header_sent res then res
                       else res\<lparr>headers := with_default_headers (sse res) (headers res), header_sent := True\<rparr>)
           in rbind (send True (kw buf) buf (r_conn res1)) (\<lambda>c.
                let res2 = res1\<lparr>r_conn := c\<rparr>
                in Inr (if \<not> sse res2 then EndInLoop res2 else res2)))"

definition Response_Write :: "(header_map \<Rightarrow> header_map) \<Rightarrow> bool \<Rightarrow> kernel_write \<Rightarrow> string \<Rightarrow> Response \<Rightarrow> Response res" where
  "Response_Write iter in_loop kw data res =
     (if \<not> in_loop then Inr (res\<lparr>r_queue := r_queue res @ [RWrite data]\<rparr>) else WriteInLoop iter kw data res)"

definition Response_End :: "bool \<Rightarrow> Response \<Rightarrow> Response" where
  "Response_End in_loop res =
     (if \<not> in_loop then res\<lparr>r_queue := r_queue res @ [REnd]\<rparr> else EndInLoop res)"

definition SetOnClose :: "Response \<Rightarrow> Response" where
  "SetOnClose res = res\<lparr>on_close := True\<rparr>"

definition Response_IsAlive :: "Response \<Rightarrow> bool" where
  "Response_IsAlive res = tc_connected (r_conn res)"

definition run_resp_functor :: "(header_map \<Rightarrow> header_map) \<Rightarrow> kernel_write \<Rightarrow> resp_functor \<Rightarrow> Response \<Rightarrow> Response res" where
  "run_resp_functor iter kw f res =
     (case f of RWrite d \<Rightarrow> WriteInLoop iter kw d res | REnd \<Rightarrow> Inr (EndInLoop res))"

section \<open>The streaming session\<close>

record StreamSession =
  ss_response :: Response
  ss_closed :: bool

definition new_StreamSession :: "Response \<Rightarrow> StreamSession" where
  "new_StreamSession res = \<lparr>ss_response = res, ss_closed = False\<rparr>"

definition ss_IsAlive :: "StreamSession \<Rightarrow> bool" where
  "ss_IsAlive s = (\<not> ss_closed s)"

definition ss_Close :: "bool \<Rightarrow> StreamSession \<Rightarrow> StreamSession" where
  "ss_Close in_loop s =
     (if ss_closed s then s
      else s\<lparr>ss_closed := True, ss_response := Response_End in_loop (ss_response s)\<rparr>)"

definition ss_Start :: "(header_map \<Rightarrow> header_map) \<Rightarrow> bool \<Rightarrow> kernel_write \<Rightarrow> StreamSession \<Rightarrow> StreamSession res" where
  "ss_Start iter in_loop kw s =
     rbind (Response_Write iter in_loop kw [CHR '':'', CHR 0x0A, CHR 0x0A]
              (SetHeader ''Connection'' ''keep-alive''
                (SetHeader ''Cache-Control'' ''no-cache''
                  (SetHeader ''Content-Type'' ''text/event-stream'' (ss_response s)))))
       (\<lambda>r. Inr (s\<lparr>ss_response := r\<rparr>))"

definition ss_Write :: "(header_map \<Rightarrow> header_map) \<Rightarrow> bool \<Rightarrow> kernel_write \<Rightarrow> string \<Rightarrow> StreamSession \<Rightarrow> StreamSession res" where
  "ss_Write iter in_loop kw data s =
     (if \<not> ss_IsAlive s then Inr s
      else if \<not> Response_IsAlive (ss_response s) then Inr (ss_Close in_loop s)
      else rbind (Response_Write iter in_loop kw data (ss_response s)) (\<lambda>r.
             let s1 = s\<lparr>ss_response := r\<rparr>
             in Inr (if \<not> Response_IsAlive r then ss_Close in_loop s1 else s1)))"

section \<open>What reaches the connection\<close>

definition honest_kernel :: "kernel_write \<Rightarrow> bool" where
  "honest_kernel kw \<longleftrightarrow> (\<forall>d. case kw d of Inr n \<Rightarrow> n \<le> length d | Inl _ \<Rightarrow> True)"

lemma buffer_rest_accepted:
  "buffer_rest r c = Inr c' \<Longrightarrow> tc_accepted c' = tc_accepted c \<and> tc_state c' = tc_state c"
  by (auto simp: buffer_rest_def split: if_splits)

lemma sendInLoop_accepted:
  assumes "sendInLoop w d c = Inr c'" "tc_state c \<noteq> kDisconnected"
  shows "tc_accepted c' = tc_accepted c @ d" "tc_state c' = tc_state c"
  using assms
  by (auto simp: sendInLoop_def Let_def write_complete_def queueInLoop_def dest!: buffer_rest_accepted
      split: if_splits sum.splits)

lemma send_connected:
  assumes "honest_kernel kw" "tc_ok c" "tc_connected c"
  shows "\<exists>c'. send True (kw d) d c = Inr c' \<and> tc_ok c' \<and> tc_connected c' \<and> tc_accepted c' = tc_accepted c @ d"
proof -
  have st: "tc_state c = kConnected" and "\<not> tc_wr_shut c" using assms(2,3) by (auto simp: tc_connected_def tc_ok_def)
  then have "kernel_ok (kw d) d c"
    using assms(1) by (auto simp: honest_kernel_def kernel_ok_def dest: spec [of _ d] split: sum.splits)
  from send_ok [OF assms(2) this, of True] obtain c' where c': "send True (kw d) d c = Inr c'" "tc_ok c'" by blast
  then have "sendInLoop (kw d) d c = Inr c'" using st by (simp add: send_def)
  from sendInLoop_accepted [OF this] st c' show ?thesis by (simp add: tc_connected_def)
qed

lemma tc_shutdown_fields:
  "tc_accepted (tc_shutdown b c) = tc_accepted c" "\<not> tc_connected (tc_shutdown b c)"
  by (auto simp: tc_shutdown_def shutdownInLoop_def queueInLoop_def tc_connected_def Let_def)

lemma tc_shutdown_state: "tc_state c = kConnected \<Longrightarrow> tc_state (tc_shutdown b c) = kDisconnecting"
  by (simp add: tc_shutdown_def shutdownInLoop_def queueInLoop_def Let_def)

lemma WriteInLoop_dead: "\<not> tc_connected (r_conn res) \<Longrightarrow> WriteInLoop iter kw d res = Inr res"
  by (simp add: WriteInLoop_def)

lemma WriteInLoop_alive:
  assumes "honest_kernel kw" "tc_ok (r_conn res)" "tc_connected (r_conn res)"
  shows "\<exists>res'. WriteInLoop iter kw d res = Inr res' \<and> tc_ok (r_conn res') \<and> header_sent res' \<and> sse res' = sse res
    \<and> tc_state (r_conn res') = (if sse res then kConnected else kDisconnecting)
    \<and> tc_accepted (r_conn res') = tc_accepted (r_conn res) @ (if header_sent res then [] else header_block iter res) @ d"
proof -
  let ?buf = "(if header_sent res then [] else header_block iter res) @ d"
  from send_connected [OF assms, of ?buf] obtain c' where
    "send True (kw ?buf) ?buf (r_conn res) = Inr c'" "tc_ok c'" "tc_connected c'"
    "tc_accepted c' = tc_accepted (r_conn res) @ ?buf" by blast
  with assms(3) show ?thesis
    by (cases "header_sent res"; cases "sse res")
       (auto simp: WriteInLoop_def Let_def EndInLoop_def tc_shutdown_fields tc_shutdown_ok tc_connected_def
         tc_shutdown_state)
qed

fun write_all :: "(header_map \<Rightarrow> header_map) \<Rightarrow> kernel_write \<Rightarrow> string list \<Rightarrow> Response \<Rightarrow> Response res" where
  "write_all iter kw [] res = Inr res"
| "write_all iter kw (d # ds) res = rbind (Response_Write iter True kw d res) (write_all iter kw ds)"

lemma write_all_dead: "\<not> tc_connected (r_conn res) \<Longrightarrow> write_all iter kw ds res = Inr res"
  by (induction ds) (simp_all add: Response_Write_def WriteInLoop_dead)

lemma write_all_sse:
  assumes "honest_kernel kw" "tc_ok (r_conn res)" "tc_connected (r_conn res)" "sse res" "header_sent res"
  shows "\<exists>res'. write_all iter kw ds res = Inr res' \<and> tc_ok (r_conn res') \<and> tc_connected (r_conn res')
    \<and> tc_accepted (r_conn res') = tc_accepted (r_conn res) @ concat ds"
  using assms(2-)
proof (induction ds arbitrary: res)
  case (Cons d ds)
  from WriteInLoop_alive [OF assms(1) Cons.prems(1,2), of iter d] Cons.prems obtain r1 where
    "WriteInLoop iter kw d res = Inr r1" "tc_ok (r_conn r1)" "header_sent r1" "sse r1" "tc_connected (r_conn r1)"
    "tc_accepted (r_conn r1) = tc_accepted (r_conn res) @ d" by (auto simp: tc_connected_def)
  with Cons.IH [of r1] show ?case by (auto simp: Response_Write_def)
qed simp

section \<open>Properties\<close>

text \<open>
  In streaming mode the bytes a response hands to its connection are the header block,
  once, followed by the written pieces in order, and the connection stays open.
\<close>

theorem sse_response_wire:
  assumes "honest_kernel kw" "tc_ok (r_conn res)" "tc_connected (r_conn res)" "sse res" "\<not> header_sent res"
  shows "\<exists>res'. write_all iter kw (d # ds) res = Inr res' \<and> tc_connected (r_conn res')
    \<and> tc_accepted (r_conn res') = tc_accepted (r_conn res) @ header_block iter res @ concat (d # ds)"
proof -
  from WriteInLoop_alive [OF assms(1-3), of iter d] assms(4,5) obtain r1 where
    r1: "WriteInLoop iter kw d res = Inr r1" "tc_ok (r_conn r1)" "header_sent r1" "sse r1" "tc_connected (r_conn r1)"
    "tc_accepted (r_conn r1) = tc_accepted (r_conn res) @ header_block iter res @ d" by (auto simp: tc_connected_def)
  from write_all_sse [OF assms(1) r1(2,5,4,3), of iter ds] r1(1,6) show ?thesis
    by (auto simp: Response_Write_def)
qed

lemma sample_connection:
  "tc_ok ((new_TcpConnection False)\<lparr>tc_state := kConnected, tc_events := {ReadEvent}, tc_callbacks := [ConnectionUp]\<rparr>)"
  using reachable_tc_inv [OF established_reachable] by (simp add: tc_inv_def)

abbreviation sample_conn :: TcpConnection where
  "sample_conn \<equiv> (new_TcpConnection False)\<lparr>tc_state := kConnected, tc_events := {ReadEvent}, tc_callbacks := [ConnectionUp]\<rparr>"

theorem sse_response_wire_witness:
  "\<exists>res'. write_all id (\<lambda>_. Inr 0) [''a'', ''b''] (new_Response sample_conn True) = Inr res'
     \<and> tc_accepted (r_conn res') = header_block id (new_Response sample_conn True) @ ''ab''"
  using sse_response_wire [of "\<lambda>_. Inr 0" "new_Response sample_conn True" id "''a''" "[''b'']"] sample_connection
  by (auto simp: honest_kernel_def new_Response_def tc_connected_def new_TcpConnection_def)

text \<open>
  In plain mode the first write sends the header block and the body and starts the
  shutdown of the connection; every later write is ignored.
\<close>

theorem plain_response_wire:
  assumes "honest_kernel kw" "tc_ok (r_conn res)" "tc_connected (r_conn res)" "\<not> sse res" "\<not> header_sent res"
  shows "\<exists>res'. write_all iter kw (d # ds) res = Inr res' \<and> tc_state (r_conn res') = kDisconnecting
    \<and> tc_accepted (r_conn res') = tc_accepted (r_conn res) @ header_block iter res @ d"
proof -
  from WriteInLoop_alive [OF assms(1-3), of iter d] assms(4,5) obtain r1 where
    r1: "WriteInLoop iter kw d res = Inr r1" "tc_state (r_conn r1) = kDisconnecting"
    "tc_accepted (r_conn r1) = tc_accepted (r_conn res) @ header_block iter res @ d" by auto
  then have "\<not> tc_connected (r_conn r1)" by (simp add: tc_connected_def)
  with r1 write_all_dead [OF this] show ?thesis by (auto simp: Response_Write_def)
qed

theorem plain_response_wire_witness:
  "\<exists>res'. write_all id (\<lambda>_. Inr 0) [''a'', ''b''] (new_Response sample_conn False) = Inr res'
     \<and> tc_accepted (r_conn res') = header_block id (new_Response sample_conn False) @ ''a''"
  using plain_response_wire [of "\<lambda>_. Inr 0" "new_Response sample_conn False" id "''a''" "[''b'']"] sample_connection
  by (auto simp: honest_kernel_def new_Response_def tc_connected_def new_TcpConnection_def)

end
