(* ===== verification/Json_Value.thy ===== *)
theory Json_Value
  imports Cpp_Base
begin

text \<open>
  The values of the vendored JSON library (\<open>utils/json.hpp\<close>) as far as the serving code looks at
  them, with the accessors it uses.  Parsing and printing are arguments of the definitions that
  need them (\<open>parse :: string \<Rightarrow> json option\<close>, \<open>dump :: json \<Rightarrow> string\<close>).  An accessor that throws
  \<open>type_error\<close> returns an error value.
\<close>

datatype json =
    JNull
  | JBool bool
  | JInt int
  | JFloat string
  | JString string
  | JArray "json list"
  | JObject "(string \<times> json) list"

definition type_error :: cpp_error where "type_error = RuntimeError ''type_error''"

fun is_array :: "json \<Rightarrow> bool" where
  "is_array (JArray _) = True" | "is_array _ = False"

fun is_string :: "json \<Rightarrow> bool" where
  "is_string (JString _) = True" | "is_string _ = False"

fun is_number_integer :: "json \<Rightarrow> bool" where
  "is_number_integer (JInt _) = True" | "is_number_integer _ = False"

text \<open>\<open>contains\<close> is false on a value that is no object.\<close>

fun json_find :: "json \<Rightarrow> string \<Rightarrow> json option" where
  "json_find (JObject kvs) k = map_of kvs k"
| "json_find _ k = None"

fun get_string :: "json \<Rightarrow> string res" where
  "get_string (JString s) = Inr s" | "get_string _ = Inl type_error"

text \<open>\<open>j.value(key, default)\<close> with a string default.\<close>

fun value_string :: "json \<Rightarrow> string \<Rightarrow> string \<Rightarrow> string res" where
  "value_string (JObject kvs) k d = (case map_of kvs k of None \<Rightarrow> Inr d | Some j \<Rightarrow> get_string j)"
| "value_string _ k d = Inl type_error"

text \<open>\<open>get<int>()\<close> of an integer converts it to 32 bits.\<close>

definition to_int32 :: "int \<Rightarrow> int" where
  "to_int32 i = (i + 2147483648) mod 4294967296 - 2147483648"

fun array_elems :: "json \<Rightarrow> json list" where
  "array_elems (JArray js) = js" | "array_elems _ = []"

lemma to_int32_range: "int_min \<le> to_int32 i \<and> to_int32 i \<le> int_max"
proof -
  have "0 \<le> (i + 2147483648) mod 4294967296" "(i + 2147483648) mod 4294967296 < 4294967296" by simp_all
  then show ?thesis unfolding to_int32_def int_min_def int_max_def by linarith
qed

end
