(* ===== verification/Http_Server.thy ===== *)
theory Http_Server
  imports Http_Response Json_Value
begin

text \<open>
  \<open>serving/http/NetworkHttpServer.cc\<close>: how the bytes of a connection are cut into requests, the
  request line is parsed and a request is routed.  \<open>size_t\<close> arithmetic is modulo $2^{64}$.
\<close>

section \<open>Headers\<close>

definition size_t_max :: nat where "size_t_max = 18446744073709551615"

definition wrap64 :: "nat \<Rightarrow> nat" where "wrap64 n = n mod 18446744073709551616"

definition tolower :: "char \<Rightarrow> char" where
  "tolower c = (if 65 \<le> (of_char c :: nat) \<and> (of_char c :: nat) \<le> 90 then char_of (of_char c + 32 :: nat) else c)"

text \<open>\<open>std::getline\<close> over a string stream: the pieces between line feeds.\<close>

fun getlines :: "string \<Rightarrow> string list" where
  "getlines [] = []"
| "getlines (c # s) =
     (if c = CHR 0x0A then [] # getlines s
      else (case getlines s of [] \<Rightarrow> [[c]] | l # ls \<Rightarrow> (c # l) # ls))"

definition chop_cr :: "string \<Rightarrow> string" where
  "chop_cr line = (if line \<noteq> [] \<and> last line = CHR 0x0D then butlast line else line)"

definition content_length_key :: string where "content_length_key = ''content-length:''"

fun read_size :: "nat \<Rightarrow> string \<Rightarrow> nat" where
  "read_size len [] = len"
| "read_size len (c # s) = (if is_digit c then read_size (wrap64 (len * 10 + digit_val c)) s else len)"

definition is_blank :: "char \<Rightarrow> bool" where
  "is_blank c = (c = CHR '' '' \<or> c = CHR 0x09)"

fun content_length_lines :: "string list \<Rightarrow> nat" where
  "content_length_lines [] = 0"
| "content_length_lines (l # ls) =
     (let line = chop_cr l; k = length content_length_key
      in if k \<le> length line \<and> map tolower (take k line) = content_length_key
         then read_size 0 (dropWhile is_blank (drop k line))
         else content_length_lines ls)"

definition parse_content_length :: "string \<Rightarrow> nat" where
  "parse_content_length header = content_length_lines (getlines header)"

section \<open>Requests\<close>

text \<open>\<open>iss >> word\<close>: skip white space, read up to the next white space.\<close>

definition read_word :: "string \<Rightarrow> string \<times> string" where
  "read_word s = (let t = dropWhile is_space s in (takeWhile (\<lambda>c. \<not> is_space c) t, dropWhile (\<lambda>c. \<not> is_space c) t))"

record HttpRequest =
  req_method :: string
  req_url :: string
  req_body :: string
  req_stream :: bool

text \<open>The request line and the query: only \<open>stream=true\<close> is looked at.\<close>

definition parse_request :: "string \<Rightarrow> string \<Rightarrow> HttpRequest" where
  "parse_request header body =
     (let (m, r1) = read_word header;
          (u, r2) = read_word r1
      in case str_find ''?'' u of
           None \<Rightarrow> \<lparr>req_method = m, req_url = u, req_body = body, req_stream = False\<rparr>
         | Some q \<Rightarrow> \<lparr>req_method = m, req_url = take q u, req_body = body,
                      req_stream = str_contains ''stream=true'' (drop (q + 1) u)\<rparr>)"

definition header_end :: string where "header_end = [CHR 0x0D, CHR 0x0A, CHR 0x0D, CHR 0x0A]"

text \<open>
  One call of \<open>handleHttpRequest\<close> on the bytes collected so far: the request it extracts, if any,
  and the bytes it leaves.
\<close>

definition handleHttpRequest :: "string \<Rightarrow> HttpRequest option \<times> string" where
  "handleHttpRequest buffer =
     (case str_find header_end buffer of
        None \<Rightarrow> (None, buffer)
      | Some pos \<Rightarrow>
          let header = take pos buffer;
              cl = parse_content_length header;
              content_length = (if cl = 0 \<and> length buffer \<ge> pos + 4 then length buffer - (pos + 4) else cl);
              total_len = wrap64 (pos + 4 + content_length)
          in if length buffer < total_len then (None, buffer)
             else (Some (parse_request header (take content_length (drop (pos + 4) buffer))), drop total_len buffer))"

datatype Route =
    RouteOptions
  | RouteHealth
  | RouteMetrics
  | RouteMethodNotAllowed
  | RouteCompletion
  | RouteCompletionStream
  | RouteChat
  | RouteChatStream
  | RouteNotFound

definition route :: "HttpRequest \<Rightarrow> Route" where
  "route req =
     (if req_method req = ''OPTIONS'' then RouteOptions
      else if req_method req = ''GET'' \<and> req_url req = ''/health'' then RouteHealth
      else if req_method req = ''GET'' \<and> req_url req = ''/metrics'' then RouteMetrics
      else if req_method req \<noteq> ''POST'' then RouteMethodNotAllowed
      else if req_url req = ''/v1/completions''
      then (if req_stream req then RouteCompletionStream else RouteCompletion)
      else if req_url req = ''/v1/chat/completions''
      then (if req_stream req then RouteChatStream else RouteChat)
      else RouteNotFound)"

section \<open>The server\<close>

text \<open>
  \<open>http_buffers_\<close> is keyed by the shared connection pointer; connections are numbers here.  The
  requests handed to the gateway are logged with their connection.
\<close>

record HttpServer =
  http_buffers :: "nat \<rightharpoonup> string"
  handled :: "(nat \<times> HttpRequest) list"
  close_calls :: "nat list"

definition new_HttpServer :: HttpServer where
  "new_HttpServer = \<lparr>http_buffers = Map.empty, handled = [], close_calls = []\<rparr>"

definition onConnection :: "nat \<Rightarrow> bool \<Rightarrow> bool \<Rightarrow> HttpServer \<Rightarrow> HttpServer" where
  "onConnection conn connected has_close_cb s =
     (if \<not> connected \<and> has_close_cb then s\<lparr>close_calls := close_calls s @ [conn]\<rparr> else s)"

definition onMessage :: "nat \<Rightarrow> string \<Rightarrow> HttpServer \<Rightarrow> HttpServer" where
  "onMessage conn data s =
     (let cache = (case http_buffers s conn of None \<Rightarrow> [] | Some b \<Rightarrow> b) @ data;
          (r, rest) = handleHttpRequest cache
      in s\<lparr>http_buffers := (http_buffers s)(conn \<mapsto> rest),
           handled := handled s @ (case r of None \<Rightarrow> [] | Some req \<Rightarrow> [(conn, req)])\<rparr>)"

definition error_json :: "string \<Rightarrow> string \<Rightarrow> string \<Rightarrow> json" where
  "error_json message type code =
     JObject [(''error'', JObject ([(''message'', JString message), (''type'', JString type)]
        @ (if code \<noteq> [] then [(''code'', JString code)] else [])))]"

definition write_json_error :: "(json \<Rightarrow> string) \<Rightarrow> (header_map \<Rightarrow> header_map) \<Rightarrow> kernel_write \<Rightarrow> int \<Rightarrow> string
    \<Rightarrow> string \<Rightarrow> string \<Rightarrow> Response \<Rightarrow> Response res" where
  "write_json_error dump iter kw status message type code res =
     rbind (Response_Write iter True kw (dump (error_json message type code))
              (SetHeader ''Connection'' ''close'' (SetHeader ''Content-Type'' ''application/json'' (SetStatus status [] res))))
       (\<lambda>r. Inr (Response_End True r))"

definition write_options :: "(header_map \<Rightarrow> header_map) \<Rightarrow> kernel_write \<Rightarrow> Response \<Rightarrow> Response res" where
  "write_options iter kw res =
     rbind (Response_Write iter True kw []
       (SetHeader ''Connection'' ''close''
         (SetHeader ''Access-Control-Max-Age'' ''86400''
           (SetHeader ''Access-Control-Allow-Headers'' ''content-type''
             (SetHeader ''Access-Control-Allow-Methods'' ''POST, OPTIONS''
               (SetHeader ''Access-Control-Allow-Origin'' ''*''
                 (SetStatus 204 ''No Content'' res)))))))
       (\<lambda>r. Inr (Response_End True r))"

section \<open>Finding in a prefix\<close>

lemma starts_with_prefix: "starts_with pat s \<Longrightarrow> starts_with pat (s @ t)"
  by (auto simp: starts_with_iff)

lemma starts_with_take: "starts_with pat (s @ t) \<Longrightarrow> length pat \<le> length s \<Longrightarrow> starts_with pat s"
  by (simp add: starts_with_def)

lemma str_find_append: "str_find pat s = Some i \<Longrightarrow> str_find pat (s @ t) = Some i"
proof (induction s arbitrary: i)
  case Nil
  then show ?case by (cases t) (auto simp: starts_with_def split: if_splits)
next
  case (Cons c s)
  then show ?case using starts_with_take [of pat "c # s" t] starts_with_prefix [of pat "c # s" t] str_find_Some [of pat s]
    by (auto split: if_splits)
qed

lemma str_find_in_prefix:
  assumes "str_find pat (s @ t) = Some i" "str_find pat s = Some j"
  shows "j = i"
  using str_find_append [OF assms(2), of t] assms(1) by simp

section \<open>Framing\<close>

text \<open>A request on the wire: a header without an earlier blank line, and a body of the announced length.\<close>

definition http_message :: "string \<Rightarrow> string \<Rightarrow> string" where
  "http_message h body = h @ header_end @ body"

definition framed :: "string \<Rightarrow> string \<Rightarrow> bool" where
  "framed h body \<longleftrightarrow> str_find header_end (h @ header_end) = Some (length h)
     \<and> parse_content_length h = length body \<and> body \<noteq> [] \<and> length h + 4 + length body \<le> size_t_max"

lemma length_header_end [simp]: "length header_end = 4"
  by (simp add: header_end_def)

lemma http_message_find: "framed h body \<Longrightarrow> str_find header_end (http_message h body @ rest) = Some (length h)"
  using str_find_append [of header_end "h @ header_end" "length h" "body @ rest"]
  by (simp add: framed_def http_message_def)

lemma framed_wrap: "framed h body \<Longrightarrow> wrap64 (length h + 4 + length body) = length h + 4 + length body"
  by (simp add: framed_def wrap64_def size_t_max_def)

lemma complete_message:
  assumes "framed h body"
  shows "handleHttpRequest (http_message h body @ rest) = (Some (parse_request h body), rest)"
proof -
  have "take (length h) (http_message h body @ rest) = h"
    "drop (length h + 4) (http_message h body @ rest) = body @ rest"
    "drop (length h + 4 + length body) (http_message h body @ rest) = rest"
    by (simp_all add: http_message_def)
  then show ?thesis
    using http_message_find [OF assms, of rest] framed_wrap [OF assms] assms
    by (simp add: handleHttpRequest_def framed_def Let_def) (simp add: http_message_def)
qed

lemma incomplete_message:
  assumes "framed h body" "p @ q = http_message h body" "q \<noteq> []"
  shows "handleHttpRequest p = (None, p)"
proof (cases "str_find header_end p")
  case None
  then show ?thesis by (simp add: handleHttpRequest_def)
next
  case (Some j)
  have "str_find header_end (p @ q) = Some (length h)"
    using http_message_find [OF assms(1), of "[]"] assms(2) by simp
  with Some have j: "j = length h" using str_find_in_prefix by metis
  have "length h + 4 \<le> length p" using str_find_Some [OF Some] by (simp add: j)
  then have "take (length h) p = take (length h) (p @ q)" by simp
  also have "\<dots> = h" using assms(2) by (simp add: http_message_def)
  finally have h: "take (length h) p = h" .
  have "length p < length h + 4 + length body"
    using arg_cong [OF assms(2), of length] assms(3) by (cases q) (auto simp: http_message_def)
  moreover have "length body > 0" using assms(1) by (simp add: framed_def)
  ultimately show ?thesis
    using Some j h framed_wrap [OF assms(1)] assms(1)
    by (simp add: handleHttpRequest_def Let_def framed_def)
qed

definition cached :: "nat \<Rightarrow> HttpServer \<Rightarrow> string" where
  "cached conn s = (case http_buffers s conn of None \<Rightarrow> [] | Some b \<Rightarrow> b)"

lemma onMessage_waits:
  assumes "handleHttpRequest (cached conn s @ d) = (None, b)"
  shows "onMessage conn d s = s\<lparr>http_buffers := (http_buffers s)(conn \<mapsto> b)\<rparr>"
  using assms by (simp add: onMessage_def cached_def Let_def)

lemma fragments:
  assumes "framed h body" "frags \<noteq> []" "[] \<notin> set frags" "cached conn s @ concat frags = http_message h body"
  shows "\<exists>s'. fold (onMessage conn) frags s = s' \<and> handled s' = handled s @ [(conn, parse_request h body)]
    \<and> cached conn s' = []"
  using assms(2-)
proof (induction frags arbitrary: s)
  case (Cons d ds)
  show ?case
  proof (cases "ds = []")
    case True
    with Cons.prems(3) have "cached conn s @ d = http_message h body" by simp
    with complete_message [OF assms(1), of "[]"] have "handleHttpRequest (cached conn s @ d) = (Some (parse_request h body), [])"
      by simp
    with True show ?thesis by (simp add: onMessage_def cached_def Let_def)
  next
    case False
    with Cons.prems(2) have "concat ds \<noteq> []" by (cases ds) auto
    with incomplete_message [OF assms(1), of "cached conn s @ d" "concat ds"] Cons.prems(3)
    have "handleHttpRequest (cached conn s @ d) = (None, cached conn s @ d)" by simp
    note step = onMessage_waits [OF this]
    have "cached conn (onMessage conn d s) = cached conn s @ d" "handled (onMessage conn d s) = handled s"
      by (simp_all add: step cached_def)
    with Cons.IH [of "onMessage conn d s"] False Cons.prems show ?thesis by simp
  qed
qed simp

section \<open>Properties\<close>

text \<open>
  Claim C7. However the network fragments a request with a body of the announced length, the server
  hands it to the gateway exactly once, after its last fragment, with the right header and body,
  and nothing of it stays in the connection's cache.
\<close>

theorem fragmented_request_delivered_once:
  assumes "framed h body" "frags \<noteq> []" "[] \<notin> set frags" "concat frags = http_message h body" "cached conn s = []"
  shows "handled (fold (onMessage conn) frags s) = handled s @ [(conn, parse_request h body)]
    \<and> cached conn (fold (onMessage conn) frags s) = []"
  using fragments [OF assms(1-3), of conn s] assms(4,5) by auto

definition sample_header :: string where
  "sample_header = ''POST /v1/chat/completions HTTP/1.1'' @ crlf @ ''Content-Length: 2''"

lemma sample_framed: "framed sample_header ''{}''"
  by (simp add: framed_def sample_header_def crlf_def header_end_def starts_with_def parse_content_length_def
      chop_cr_def content_length_key_def tolower_def is_blank_def is_digit_def digit_val_def wrap64_def size_t_max_def
      char_of_def bit_0)

theorem fragmented_request_delivered_once_witness:
  "handled (fold (onMessage 4) [sample_header, header_end, ''{'', ''}''] new_HttpServer)
     = [(4, parse_request sample_header ''{}'')]"
proof -
  have "concat [sample_header, header_end, ''{'', ''}''] = http_message sample_header ''{}''"
    by (simp add: http_message_def)
  moreover have "[] \<notin> set [sample_header, header_end, ''{'', ''}'']" by (simp add: sample_header_def header_end_def)
  ultimately show ?thesis
    using fragmented_request_delivered_once [OF sample_framed, of "[sample_header, header_end, ''{'', ''}'']" 4 new_HttpServer]
    by (simp add: new_HttpServer_def cached_def)
qed

text \<open>
  Only one request is taken per read: when two complete requests arrive together, the
  second stays in the cache, although it could be handled at once, until the peer sends more.
\<close>

theorem pipelined_request_stalls:
  assumes "framed h1 b1" "framed h2 b2" "cached conn s = []"
  shows "handled (onMessage conn (http_message h1 b1 @ http_message h2 b2) s) = handled s @ [(conn, parse_request h1 b1)]
    \<and> handleHttpRequest (cached conn (onMessage conn (http_message h1 b1 @ http_message h2 b2) s))
        = (Some (parse_request h2 b2), [])"
proof -
  have "handleHttpRequest (http_message h1 b1 @ http_message h2 b2) = (Some (parse_request h1 b1), http_message h2 b2)"
    by (rule complete_message [OF assms(1)])
  with complete_message [OF assms(2), of "[]"] assms(3) show ?thesis
    by (simp add: onMessage_def cached_def Let_def)
qed

theorem pipelined_request_stalls_witness:
  "handled (onMessage 1 (http_message sample_header ''{}'' @ http_message sample_header ''{}'') new_HttpServer)
     = [(1, parse_request sample_header ''{}'')]"
  using pipelined_request_stalls [OF sample_framed sample_framed, of 1 new_HttpServer]
  by (simp add: cached_def new_HttpServer_def)

text \<open>
  A request without a Content-Length is given everything received so far as its body, a
  pipelined request included, and nothing is kept.
\<close>

theorem missing_length_takes_everything:
  assumes "str_find header_end (h @ header_end) = Some (length h)" "parse_content_length h = 0"
    "length h + 4 + length rest \<le> size_t_max"
  shows "handleHttpRequest (h @ header_end @ rest) = (Some (parse_request h rest), [])"
proof -
  have "str_find header_end (h @ header_end @ rest) = Some (length h)"
    using str_find_append [OF assms(1), of rest] by simp
  with assms(2,3) show ?thesis by (simp add: handleHttpRequest_def Let_def wrap64_def size_t_max_def)
qed

theorem missing_length_takes_everything_witness:
  "handleHttpRequest (''GET /health'' @ header_end @ ''GET /metrics'') = (Some (parse_request ''GET /health'' ''GET /metrics''), [])"
  by (rule missing_length_takes_everything)
     (simp_all add: header_end_def starts_with_def parse_content_length_def chop_cr_def content_length_key_def
       tolower_def size_t_max_def)

definition overflow_header :: string where
  "overflow_header = ''POST / HTTP/1.1'' @ crlf @ ''Content-Length: 18446744073709551615''"

text \<open>
  The announced length is added to the header length without a check: a Content-Length of
  $2^{64} - 1$ passes for a received body of two bytes, and the bytes erased end one before the body.
\<close>

theorem content_length_overflow:
  "handleHttpRequest (overflow_header @ header_end @ ''{}'')
     = (Some (parse_request overflow_header ''{}''), [CHR 0x0A] @ ''{}'')"
proof -
  have len: "length overflow_header = 53" by (simp add: overflow_header_def crlf_def)
  have "parse_content_length overflow_header = 18446744073709551615"
    by (simp add: overflow_header_def crlf_def parse_content_length_def chop_cr_def content_length_key_def tolower_def
        is_blank_def is_digit_def digit_val_def wrap64_def char_of_def bit_0)
  moreover have "str_find header_end (overflow_header @ header_end @ ''{}'') = Some (length overflow_header)"
    by (simp add: overflow_header_def crlf_def header_end_def starts_with_def)
  moreover have "drop 56 (overflow_header @ header_end @ ''{}'') = [CHR 0x0A] @ ''{}''"
    by (simp add: overflow_header_def crlf_def header_end_def)
  ultimately show ?thesis by (simp add: handleHttpRequest_def Let_def len wrap64_def)
qed

text \<open>
  No callback of the server removes an entry of \<open>http_buffers_\<close>, whose keys are shared pointers to
  the connections: once a connection has sent a byte, its entry stays.
\<close>

datatype server_event = Connection nat bool bool | Message nat string

fun server_step :: "server_event \<Rightarrow> HttpServer \<Rightarrow> HttpServer" where
  "server_step (Connection c up cb) = onConnection c up cb"
| "server_step (Message c d) = onMessage c d"

theorem http_buffers_never_released:
  "dom (http_buffers s) \<subseteq> dom (http_buffers (fold server_step evs s))"
proof (induction evs arbitrary: s)
  case (Cons ev evs)
  have "dom (http_buffers s) \<subseteq> dom (http_buffers (server_step ev s))"
    by (cases ev) (auto simp: onConnection_def onMessage_def Let_def split_def)
  with Cons.IH [of "server_step ev s"] show ?case by auto
qed simp

end
