(* ===== verification/Serving_Context.thy ===== *)
theory Serving_Context
  imports Cpp_Base
begin

text \<open>
  The request context of \<open>serving/core/ServingContext.h\<close>: the data a request carries, the two
  ways an engine reports back (\<open>EmitDelta\<close>, \<open>EmitFinish\<close>) and the two ways a handler waits for the
  end (\<open>WaitFinish\<close>, \<open>WaitFinishOrCancel\<close>).  The \<open>std::function\<close> callbacks are state
  transformers kept in a record of their own; whatever they change outside the context (the
  session, the HTTP response, the counters) is the field \<open>world\<close>.

  The second half is the interleaving model of \<open>EmitFinish\<close>: several threads (the engine, the
  connection's close callback, the rejecting handler) may call it at once, and a handler may be
  waiting.
\<close>

section \<open>Data\<close>

datatype FinishReason = Stop | Length | Cancelled | Error

record Message =
  role :: string
  content :: string

record StreamChunk =
  delta :: string
  is_finished :: bool
  chunk_reason :: FinishReason

record Usage =
  prompt_tokens :: int
  completion_tokens :: int
  total_tokens :: int

record 'w ServingContext =
  request_id :: string
  ctx_session_id :: string
  ctx_model :: string
  is_chat :: bool
  stream :: bool
  is_first_turn :: bool
  messages :: "Message list"
  ctx_session :: "nat option"
  prompt :: string
  params :: "string \<Rightarrow> string option"
  is_cancelled :: bool
  finished :: bool
  final_text :: string
  finish_reason :: FinishReason
  error_message :: string
  usage :: Usage
  world :: 'w

record 'w Callbacks =
  on_chunk :: "(StreamChunk \<Rightarrow> 'w ServingContext \<Rightarrow> 'w ServingContext) option"
  on_finish :: "(FinishReason \<Rightarrow> 'w ServingContext \<Rightarrow> 'w ServingContext) option"

definition new_context :: "'w \<Rightarrow> 'w ServingContext" where
  "new_context w =
     \<lparr>request_id = [], ctx_session_id = [], ctx_model = [], is_chat = False, stream = False,
      is_first_turn = False, messages = [], ctx_session = None, prompt = [],
      params = Map.empty, is_cancelled = False, finished = False, final_text = [],
      finish_reason = Stop, error_message = [],
      usage = \<lparr>prompt_tokens = 0, completion_tokens = 0, total_tokens = 0\<rparr>, world = w\<rparr>"

section \<open>Operations\<close>

definition call_on_chunk :: "'w Callbacks \<Rightarrow> StreamChunk \<Rightarrow> 'w ServingContext \<Rightarrow> 'w ServingContext" where
  "call_on_chunk cb c ctx =
     (if stream ctx then (case on_chunk cb of None \<Rightarrow> ctx | Some f \<Rightarrow> f c ctx) else ctx)"

definition call_on_finish :: "'w Callbacks \<Rightarrow> FinishReason \<Rightarrow> 'w ServingContext \<Rightarrow> 'w ServingContext" where
  "call_on_finish cb r ctx = (case on_finish cb of None \<Rightarrow> ctx | Some f \<Rightarrow> f r ctx)"

definition EmitDelta :: "'w Callbacks \<Rightarrow> string \<Rightarrow> 'w ServingContext \<Rightarrow> 'w ServingContext" where
  "EmitDelta cb text ctx =
     (if finished ctx then ctx
      else call_on_chunk cb \<lparr>delta = text, is_finished = False, chunk_reason = Stop\<rparr>
             (ctx\<lparr>final_text := final_text ctx @ text\<rparr>))"

definition EmitFinish :: "'w Callbacks \<Rightarrow> FinishReason \<Rightarrow> 'w ServingContext \<Rightarrow> 'w ServingContext" where
  "EmitFinish cb reason ctx =
     (if finished ctx then ctx
      else call_on_finish cb reason
             (call_on_chunk cb \<lparr>delta = [], is_finished = True, chunk_reason = reason\<rparr>
                (ctx\<lparr>finished := True, finish_reason := reason\<rparr>)))"

text \<open>
  The two waits.  What the other threads do to the context while the handler sleeps is a list of
  state transformers, one per wake-up; \<open>None\<close> means the list ended and the handler still waits.
\<close>

fun WaitFinish :: "('w ServingContext \<Rightarrow> 'w ServingContext) list \<Rightarrow> 'w ServingContext
    \<Rightarrow> 'w ServingContext option" where
  "WaitFinish [] ctx = (if finished ctx then Some ctx else None)"
| "WaitFinish (f # others) ctx = (if finished ctx then Some ctx else WaitFinish others (f ctx))"

fun WaitFinishOrCancel :: "'w Callbacks \<Rightarrow> (bool \<times> ('w ServingContext \<Rightarrow> 'w ServingContext)) list
    \<Rightarrow> 'w ServingContext \<Rightarrow> 'w ServingContext option" where
  "WaitFinishOrCancel cb [] ctx = (if finished ctx then Some ctx else None)"
| "WaitFinishOrCancel cb ((alive, f) # polls) ctx =
     (if finished ctx then Some ctx
      else if \<not> alive then Some (EmitFinish cb Cancelled (ctx\<lparr>is_cancelled := True\<rparr>))
      else WaitFinishOrCancel cb polls (f ctx))"

section \<open>The contract of the callbacks\<close>

text \<open>
  What the emit functions rely on: no callback touches the flags, the mode or the request data of
  the context (the callbacks of the gateway change \<open>final_text\<close> and the environment only).
\<close>

definition same_request :: "'w ServingContext \<Rightarrow> 'w ServingContext \<Rightarrow> bool" where
  "same_request a b \<longleftrightarrow>
     request_id a = request_id b \<and> ctx_session_id a = ctx_session_id b \<and> ctx_model a = ctx_model b
     \<and> is_chat a = is_chat b \<and> stream a = stream b \<and> messages a = messages b
     \<and> ctx_session a = ctx_session b \<and> prompt a = prompt b \<and> params a = params b
     \<and> error_message a = error_message b \<and> usage a = usage b"

lemma same_request_refl [simp]: "same_request a a"
  by (simp add: same_request_def)

lemma same_request_trans [trans]: "same_request a b \<Longrightarrow> same_request b c \<Longrightarrow> same_request a c"
  by (simp add: same_request_def)

locale well_behaved_callbacks =
  fixes cb :: "'w Callbacks"
  assumes chunk_frame: "on_chunk cb = Some f \<Longrightarrow>
      same_request (f c ctx) ctx \<and> finished (f c ctx) = finished ctx
      \<and> finish_reason (f c ctx) = finish_reason ctx"
    and finish_frame: "on_finish cb = Some g \<Longrightarrow>
      same_request (g r ctx) ctx \<and> finished (g r ctx) = finished ctx
      \<and> finish_reason (g r ctx) = finish_reason ctx"
begin

lemma call_on_chunk_frame:
  "same_request (call_on_chunk cb c ctx) ctx \<and> finished (call_on_chunk cb c ctx) = finished ctx
   \<and> finish_reason (call_on_chunk cb c ctx) = finish_reason ctx"
  by (auto simp: call_on_chunk_def dest: chunk_frame split: option.splits)

lemma call_on_finish_frame:
  "same_request (call_on_finish cb r ctx) ctx \<and> finished (call_on_finish cb r ctx) = finished ctx
   \<and> finish_reason (call_on_finish cb r ctx) = finish_reason ctx"
  by (auto simp: call_on_finish_def dest: finish_frame split: option.splits)

lemma EmitDelta_frame:
  "same_request (EmitDelta cb t ctx) ctx \<and> finished (EmitDelta cb t ctx) = finished ctx
   \<and> finish_reason (EmitDelta cb t ctx) = finish_reason ctx"
  using call_on_chunk_frame by (auto simp: EmitDelta_def same_request_def)

lemma EmitFinish_finished [simp]: "finished (EmitFinish cb r ctx)"
  by (simp add: EmitFinish_def call_on_chunk_frame call_on_finish_frame)

lemma EmitFinish_reason:
  "finish_reason (EmitFinish cb r ctx) = (if finished ctx then finish_reason ctx else r)"
  by (simp add: EmitFinish_def call_on_chunk_frame call_on_finish_frame)

lemma EmitFinish_request: "same_request (EmitFinish cb r ctx) ctx"
proof -
  have "same_request (ctx\<lparr>finished := True, finish_reason := r\<rparr>) ctx"
    by (simp add: same_request_def)
  then show ?thesis
    by (metis EmitFinish_def call_on_chunk_frame call_on_finish_frame same_request_refl
        same_request_trans)
qed

lemma EmitFinish_idem: "EmitFinish cb r' (EmitFinish cb r ctx) = EmitFinish cb r ctx"
  by (simp add: EmitFinish_def [of cb r'])

lemma EmitDelta_after_finish: "EmitDelta cb t (EmitFinish cb r ctx) = EmitFinish cb r ctx"
  by (simp add: EmitDelta_def)

lemma WaitFinishOrCancel_returns:
  assumes "\<exists>p \<in> set polls. \<not> fst p"
  shows "\<exists>ctx'. WaitFinishOrCancel cb polls ctx = Some ctx' \<and> finished ctx'"
  using assms
proof (induction polls arbitrary: ctx)
  case (Cons p ps)
  then show ?case by (cases p) auto
qed simp

lemma WaitFinishOrCancel_Some: "WaitFinishOrCancel cb polls ctx = Some ctx' \<Longrightarrow> finished ctx'"
proof (induction polls arbitrary: ctx)
  case (Cons p ps)
  then show ?case by (cases p) (auto split: if_splits)
qed (simp split: if_splits)

end

section \<open>Concurrent calls of EmitFinish\<close>

text \<open>
  One thread of the interleaving model is at a point of \<open>EmitFinish(r)\<close>: before the
  \<open>exchange\<close> (\<open>Entering\<close>), after having won it (\<open>Won\<close>), after the assignment to
  \<open>finish_reason\<close> and the notification (\<open>Wrote\<close>), after the last chunk (\<open>Sent\<close>), or back in
  the caller (\<open>Returned\<close>).  \<open>observed\<close> is what a waiting handler reads from \<open>finish_reason\<close> once
  it has seen \<open>finished\<close>; \<open>winner\<close> is a ghost field naming the thread that won the exchange.
\<close>

datatype emit_pc =
    Entering FinishReason
  | Won FinishReason
  | Wrote FinishReason
  | Sent FinishReason
  | Returned

record emit_sys =
  e_finished :: bool
  e_reason :: FinishReason
  e_pc :: "nat \<Rightarrow> emit_pc"
  e_chunks :: "FinishReason list"
  e_finishes :: "FinishReason list"
  e_observed :: "FinishReason option"
  e_winner :: "nat option"

definition emit_init :: "emit_sys \<Rightarrow> bool" where
  "emit_init s \<longleftrightarrow> \<not> e_finished s \<and> e_reason s = Stop
     \<and> (\<forall>i. e_pc s i = Returned \<or> (\<exists>r. e_pc s i = Entering r))
     \<and> e_chunks s = [] \<and> e_finishes s = [] \<and> e_observed s = None \<and> e_winner s = None"

inductive emit_step :: "emit_sys \<Rightarrow> emit_sys \<Rightarrow> bool" where
  exchange_win: "e_pc s i = Entering r \<Longrightarrow> \<not> e_finished s \<Longrightarrow>
     emit_step s (s\<lparr>e_finished := True, e_pc := (e_pc s)(i := Won r), e_winner := Some i\<rparr>)"
| exchange_lose: "e_pc s i = Entering r \<Longrightarrow> e_finished s \<Longrightarrow>
     emit_step s (s\<lparr>e_pc := (e_pc s)(i := Returned)\<rparr>)"
| write_reason: "e_pc s i = Won r \<Longrightarrow>
     emit_step s (s\<lparr>e_reason := r, e_pc := (e_pc s)(i := Wrote r)\<rparr>)"
| last_chunk: "e_pc s i = Wrote r \<Longrightarrow>
     emit_step s (s\<lparr>e_chunks := e_chunks s @ [r], e_pc := (e_pc s)(i := Sent r)\<rparr>)"
| finish_callback: "e_pc s i = Sent r \<Longrightarrow>
     emit_step s (s\<lparr>e_finishes := e_finishes s @ [r], e_pc := (e_pc s)(i := Returned)\<rparr>)"
| waiter_reads: "e_finished s \<Longrightarrow> e_observed s = None \<Longrightarrow>
     emit_step s (s\<lparr>e_observed := Some (e_reason s)\<rparr>)"

definition winner_inv :: "emit_sys \<Rightarrow> nat \<Rightarrow> bool" where
  "winner_inv s i = (case e_pc s i of
     Entering _ \<Rightarrow> False
   | Won _ \<Rightarrow> e_chunks s = [] \<and> e_finishes s = []
   | Wrote r \<Rightarrow> e_reason s = r \<and> e_chunks s = [] \<and> e_finishes s = []
   | Sent r \<Rightarrow> e_reason s = r \<and> e_chunks s = [r] \<and> e_finishes s = []
   | Returned \<Rightarrow> e_chunks s = [e_reason s] \<and> e_finishes s = [e_reason s])"

definition emit_inv :: "emit_sys \<Rightarrow> bool" where
  "emit_inv s \<longleftrightarrow>
     (case e_winner s of
        None \<Rightarrow> \<not> e_finished s \<and> e_chunks s = [] \<and> e_finishes s = []
          \<and> (\<forall>i. e_pc s i = Returned \<or> (\<exists>r. e_pc s i = Entering r))
      | Some w \<Rightarrow> e_finished s \<and> winner_inv s w
          \<and> (\<forall>i. i \<noteq> w \<longrightarrow> e_pc s i = Returned \<or> (\<exists>r. e_pc s i = Entering r)))"

lemma emit_init_inv: "emit_init s \<Longrightarrow> emit_inv s"
  by (simp add: emit_init_def emit_inv_def)

lemma emit_inv_active:
  "emit_inv s \<Longrightarrow> e_pc s i = Won r \<or> e_pc s i = Wrote r \<or> e_pc s i = Sent r \<Longrightarrow> e_winner s = Some i"
  by (auto simp: emit_inv_def split: option.splits) (metis emit_pc.distinct emit_pc.simps)+

lemma emit_step_inv: "emit_step s t \<Longrightarrow> emit_inv s \<Longrightarrow> emit_inv t"
proof (induction rule: emit_step.induct)
  case (exchange_win s i r)
  then show ?case by (auto simp: emit_inv_def winner_inv_def split: option.splits)
next
  case (exchange_lose s i r)
  then show ?case
    by (auto simp: emit_inv_def winner_inv_def split: option.splits emit_pc.splits)
next
  case (write_reason s i r)
  then have "e_winner s = Some i" using emit_inv_active by blast
  with write_reason show ?case by (auto simp: emit_inv_def winner_inv_def)
next
  case (last_chunk s i r)
  then have "e_winner s = Some i" using emit_inv_active by blast
  with last_chunk show ?case by (auto simp: emit_inv_def winner_inv_def)
next
  case (finish_callback s i r)
  then have "e_winner s = Some i" using emit_inv_active by blast
  with finish_callback show ?case by (auto simp: emit_inv_def winner_inv_def)
next
  case (waiter_reads s)
  then show ?case
    by (auto simp: emit_inv_def winner_inv_def split: option.splits emit_pc.splits)
qed

lemma reachable_emit_inv: "reachable emit_init emit_step s \<Longrightarrow> emit_inv s"
  by (erule reachable_invariant) (auto intro: emit_init_inv emit_step_inv)

section \<open>Properties\<close>


definition emit_start :: "emit_sys" where
  "emit_start = \<lparr>e_finished = False, e_reason = Stop, e_pc = (\<lambda>_. Returned)(0 := Entering Length),
     e_chunks = [], e_finishes = [], e_observed = None, e_winner = None\<rparr>"

lemma emit_start_init: "emit_init emit_start"
  by (simp add: emit_init_def emit_start_def)

lemma emit_start_won:
  "reachable emit_init emit_step
     (emit_start\<lparr>e_finished := True, e_pc := (e_pc emit_start)(0 := Won Length), e_winner := Some 0\<rparr>)"
proof (rule reachable_step)
  show "reachable emit_init emit_step emit_start"
    using emit_start_init by (rule reachable_init)
qed (rule exchange_win, simp_all add: emit_start_def)


text \<open>
  \<open>EmitFinish\<close> publishes \<open>finished\<close> before it assigns \<open>finish_reason\<close>: there is an
  execution with a single caller reporting \<open>length\<close> in which the waiting handler has already read
  the initial value \<open>stop\<close>.
\<close>

theorem waiter_may_read_stale_reason:
  "\<exists>s. reachable emit_init emit_step s \<and> e_pc s 0 = Wrote Length \<and> e_reason s = Length
     \<and> e_observed s = Some Stop"
proof -
  let ?s1 = "emit_start\<lparr>e_finished := True, e_pc := (e_pc emit_start)(0 := Won Length), e_winner := Some 0\<rparr>"
  let ?s2 = "?s1\<lparr>e_observed := Some (e_reason ?s1)\<rparr>"
  let ?s3 = "?s2\<lparr>e_reason := Length, e_pc := (e_pc ?s2)(0 := Wrote Length)\<rparr>"
  have "reachable emit_init emit_step ?s2"
    by (rule reachable_step [OF emit_start_won waiter_reads]) (simp_all add: emit_start_def)
  then have "reachable emit_init emit_step ?s3"
    by (rule reachable_step) (rule write_reason, simp)
  moreover have "e_pc ?s3 0 = Wrote Length \<and> e_reason ?s3 = Length \<and> e_observed ?s3 = Some Stop"
    by (simp add: emit_start_def)
  ultimately show ?thesis by blast
qed

end
