(* ===== verification/Stream_Writer.thy ===== *)
theory Stream_Writer
  imports Serving_Context Json_Value
begin

text \<open>
  \<open>serving/http/OpenAIStreamWriter.cc\<close>: the conversion of engine chunks into server-sent events.  A
  token may end inside a UTF-8 sequence, so the writer keeps the incomplete tail and prepends it
  to the next chunk.
\<close>

section \<open>UTF-8 prefixes\<close>

definition finish_reason_to_str :: "FinishReason \<Rightarrow> string" where
  "finish_reason_to_str r =
     (case r of Stop \<Rightarrow> ''stop'' | Length \<Rightarrow> ''length'' | Cancelled \<Rightarrow> ''cancelled'' | Error \<Rightarrow> ''error'')"

definition kUtf8Replacement :: string where
  "kUtf8Replacement = [CHR 0xEF, CHR 0xBF, CHR 0xBD]"

definition byte :: "char \<Rightarrow> nat" where "byte c = of_char c"

definition is_utf8_continuation :: "char \<Rightarrow> bool" where
  "is_utf8_continuation c = (byte c div 64 = 2)"

text \<open>The number of bytes announced by a lead byte; 0 for a byte that cannot start a sequence.\<close>

definition utf8_need :: "char \<Rightarrow> nat" where
  "utf8_need c =
     (let b = byte c
      in if b < 0x80 then 1
         else if 0xC2 \<le> b \<and> b \<le> 0xDF then 2
         else if 0xE0 \<le> b \<and> b \<le> 0xEF then 3
         else if 0xF0 \<le> b \<and> b \<le> 0xF4 then 4
         else 0)"

function split_utf8_prefix :: "bool \<Rightarrow> string \<Rightarrow> string \<times> string" where
  "split_utf8_prefix flush_incomplete [] = ([], [])"
| "split_utf8_prefix flush_incomplete (c # s) =
     (let need = utf8_need c
      in if need = 1 then (let (out, pend) = split_utf8_prefix flush_incomplete s in (c # out, pend))
         else if need = 0
         then (let (out, pend) = split_utf8_prefix flush_incomplete s in (kUtf8Replacement @ out, pend))
         else if length (c # s) < need
         then (if flush_incomplete then (kUtf8Replacement, []) else ([], c # s))
         else if \<not> list_all is_utf8_continuation (take (need - 1) s)
         then (let (out, pend) = split_utf8_prefix flush_incomplete s in (kUtf8Replacement @ out, pend))
         else (let (out, pend) = split_utf8_prefix flush_incomplete (drop (need - 1) s)
               in (c # take (need - 1) s @ out, pend)))"
  by pat_completeness auto
termination
  by (relation "measure (\<lambda>(_, s). length s)") auto

declare split_utf8_prefix.simps(2) [simp del]

section \<open>The writer\<close>

record StreamWriter =
  w_request_id :: string
  w_model :: string
  pending_bytes :: string

definition new_StreamWriter :: "string \<Rightarrow> string \<Rightarrow> StreamWriter" where
  "new_StreamWriter rid m = \<lparr>w_request_id = rid, w_model = m, pending_bytes = []\<rparr>"

definition chunk_json :: "StreamWriter \<Rightarrow> int \<Rightarrow> json \<Rightarrow> json \<Rightarrow> json" where
  "chunk_json w now delta_obj reason =
     JObject [(''id'', JString (''chatcmpl-'' @ w_request_id w)), (''object'', JString ''chat.completion.chunk''),
       (''created'', JInt (to_int32 now)), (''model'', JString (w_model w)),
       (''choices'', JArray [JObject [(''index'', JInt 0), (''delta'', delta_obj), (''finish_reason'', reason)]])]"

definition sse_data :: "string \<Rightarrow> string" where
  "sse_data payload = ''data: '' @ payload @ [CHR 0x0A, CHR 0x0A]"

text \<open>The text \<open>safe_delta\<close> a chunk yields and the bytes kept for the next one.\<close>

definition chunk_text :: "StreamChunk \<Rightarrow> string \<Rightarrow> string \<times> string" where
  "chunk_text chunk pend =
     (let (safe1, pend1) = (if delta chunk \<noteq> [] then split_utf8_prefix False (pend @ delta chunk) else ([], pend))
      in if is_finished chunk \<and> pend1 \<noteq> [] then (safe1 @ fst (split_utf8_prefix True pend1), []) else (safe1, pend1))"

definition OnChunk :: "(json \<Rightarrow> string) \<Rightarrow> int \<Rightarrow> StreamChunk \<Rightarrow> StreamWriter \<Rightarrow> string list \<times> StreamWriter" where
  "OnChunk dump now chunk w =
     (let (safe_delta, pend) = chunk_text chunk (pending_bytes w);
          w' = w\<lparr>pending_bytes := pend\<rparr>;
          j = (if \<not> is_finished chunk
               then chunk_json w now (JObject [(''content'', JString safe_delta)]) JNull
               else chunk_json w now (JObject []) (JString (finish_reason_to_str (chunk_reason chunk))))
      in (sse_data (dump j) # (if is_finished chunk then [sse_data ''[DONE]''] else []), w'))"

section \<open>Splitting a stream\<close>

definition prepend_out :: "string \<Rightarrow> string \<times> string \<Rightarrow> string \<times> string" where
  "prepend_out p x = (p @ fst x, snd x)"

lemma prepend_out_simps [simp]:
  "fst (prepend_out p x) = p @ fst x" "snd (prepend_out p x) = snd x"
  "prepend_out p (prepend_out q x) = prepend_out (p @ q) x" "prepend_out [] x = x"
  by (simp_all add: prepend_out_def)

lemma split_cons:
  "split_utf8_prefix f (c # s) =
     (if utf8_need c = 1 then prepend_out [c] (split_utf8_prefix f s)
      else if utf8_need c = 0 then prepend_out kUtf8Replacement (split_utf8_prefix f s)
      else if length (c # s) < utf8_need c then (if f then (kUtf8Replacement, []) else ([], c # s))
      else if \<not> list_all is_utf8_continuation (take (utf8_need c - 1) s)
      then prepend_out kUtf8Replacement (split_utf8_prefix f s)
      else prepend_out (c # take (utf8_need c - 1) s) (split_utf8_prefix f (drop (utf8_need c - 1) s)))"
  by (simp add: split_utf8_prefix.simps(2) Let_def prepend_out_def split_def)

text \<open>
  Splitting may be done piecewise: what follows an input continues from the bytes left pending.
\<close>

lemma split_append:
  "split_utf8_prefix f (x @ y)
     = prepend_out (fst (split_utf8_prefix False x)) (split_utf8_prefix f (snd (split_utf8_prefix False x) @ y))"
proof (induction "length x" arbitrary: x rule: less_induct)
  case less
  show ?case
  proof (cases x)
    case Nil
    then show ?thesis by simp
  next
    case (Cons c s)
    let ?n = "utf8_need c"
    have IH: "split_utf8_prefix f (t @ y)
        = prepend_out (fst (split_utf8_prefix False t)) (split_utf8_prefix f (snd (split_utf8_prefix False t) @ y))"
      if "length t < length x" for t
      using less that by blast
    consider (short) "?n \<noteq> 1" "?n \<noteq> 0" "length (c # s) < ?n"
      | (step) "?n = 1 \<or> ?n = 0 \<or> \<not> length (c # s) < ?n" by argo
    then show ?thesis
    proof cases
      case short
      then have "split_utf8_prefix False x = ([], x)" using Cons by (simp add: split_cons)
      then show ?thesis by simp
    next
      case step
      show ?thesis
      proof (cases "?n = 1 \<or> ?n = 0 \<or> \<not> list_all is_utf8_continuation (take (?n - 1) s)")
        case True
        have "\<not> length (c # s) < ?n \<Longrightarrow> take (?n - 1) (s @ y) = take (?n - 1) s" by simp
        with True step IH [of s] Cons show ?thesis
          by (auto simp: split_cons)
      next
        case False
        then have n: "?n \<noteq> 1" "?n \<noteq> 0" "\<not> length (c # s) < ?n" using step by auto
        then have "take (?n - 1) (s @ y) = take (?n - 1) s" "drop (?n - 1) (s @ y) = drop (?n - 1) s @ y" by auto
        with n False IH [of "drop (?n - 1) s"] Cons show ?thesis by (auto simp: split_cons)
      qed
    qed
  qed
qed

text \<open>
  Text made of complete sequences, as the writer understands them: a lead byte followed by as many
  continuation bytes as it announces.
\<close>

inductive utf8_wf :: "string \<Rightarrow> bool" where
  wf_Nil: "utf8_wf []"
| wf_seq: "utf8_need c \<noteq> 0 \<Longrightarrow> length t = utf8_need c - 1 \<Longrightarrow> list_all is_utf8_continuation t \<Longrightarrow> utf8_wf s
     \<Longrightarrow> utf8_wf (c # t @ s)"

lemma utf8_wf_append: "utf8_wf x \<Longrightarrow> utf8_wf y \<Longrightarrow> utf8_wf (x @ y)"
proof (induction rule: utf8_wf.induct)
  case (wf_seq c t s)
  then show ?case using utf8_wf.wf_seq [of c t "s @ y"] by simp
qed simp

lemma utf8_wf_replacement: "utf8_wf kUtf8Replacement"
proof -
  have "utf8_need (CHR 0xEF) = 3" "list_all is_utf8_continuation [CHR 0xBF, CHR 0xBD]"
    by (simp_all add: utf8_need_def byte_def is_utf8_continuation_def)
  from wf_seq [of "CHR 0xEF" "[CHR 0xBF, CHR 0xBD]" "[]"] this show ?thesis
    by (simp add: kUtf8Replacement_def wf_Nil)
qed

lemma wf_prepend: "utf8_wf p \<Longrightarrow> utf8_wf (fst x) \<Longrightarrow> utf8_wf (fst (prepend_out p x))"
  by (simp add: utf8_wf_append)

lemma split_wf: "utf8_wf (fst (split_utf8_prefix f s))"
proof (induction "length s" arbitrary: s f rule: less_induct)
  case less
  show ?case
  proof (cases s)
    case Nil
    then show ?thesis by (simp add: wf_Nil)
  next
    case (Cons c t)
    have one: "utf8_wf [c]" if "utf8_need c = Suc 0" using wf_seq [of c "[]" "[]"] that wf_Nil by simp
    have seq: "utf8_wf (c # take (utf8_need c - Suc 0) t)"
      if "0 < utf8_need c" "\<not> Suc (length t) < utf8_need c" "list_all is_utf8_continuation (take (utf8_need c - Suc 0) t)"
      using wf_seq [of c "take (utf8_need c - 1) t" "[]"] that wf_Nil by simp
    have IH: "utf8_wf (fst (split_utf8_prefix g t))" "utf8_wf (fst (split_utf8_prefix g (drop k t)))" for k g
      using less [of t] less [of "drop k t"] Cons by auto
    show ?thesis
      unfolding Cons split_cons
      by (auto simp del: prepend_out_simps intro!: wf_prepend one seq IH utf8_wf_replacement wf_Nil)
  qed
qed

lemma split_of_wf: "utf8_wf s \<Longrightarrow> split_utf8_prefix f s = (s, [])"
proof (induction rule: utf8_wf.induct)
  case (wf_seq c t s)
  then have "utf8_need c = 1 \<Longrightarrow> t = []" by simp
  with wf_seq show ?case by (auto simp: split_cons prepend_out_def)
qed simp

section \<open>Feeding chunks\<close>

fun feed :: "(json \<Rightarrow> string) \<Rightarrow> (int \<times> StreamChunk) list \<Rightarrow> StreamWriter \<Rightarrow> string list \<times> StreamWriter" where
  "feed dump [] w = ([], w)"
| "feed dump ((now, c) # cs) w =
     (let (out, w1) = OnChunk dump now c w; (outs, w2) = feed dump cs w1 in (out @ outs, w2))"

definition delta_chunk :: "string \<Rightarrow> StreamChunk" where
  "delta_chunk d = \<lparr>delta = d, is_finished = False, chunk_reason = Stop\<rparr>"

definition delta_event :: "(json \<Rightarrow> string) \<Rightarrow> StreamWriter \<Rightarrow> int \<Rightarrow> string \<Rightarrow> string" where
  "delta_event dump w now t = sse_data (dump (chunk_json w now (JObject [(''content'', JString t)]) JNull))"

lemma chunk_text_delta:
  "chunk_text (delta_chunk d) pend = (if d = [] then ([], pend) else split_utf8_prefix False (pend @ d))"
  by (simp add: chunk_text_def delta_chunk_def split_def)

lemma OnChunk_delta:
  "OnChunk dump now (delta_chunk d) w =
     ([delta_event dump w now (fst (chunk_text (delta_chunk d) (pending_bytes w)))],
      w\<lparr>pending_bytes := snd (chunk_text (delta_chunk d) (pending_bytes w))\<rparr>)"
  by (simp add: OnChunk_def Let_def split_def delta_event_def) (simp add: delta_chunk_def)

lemma split_pending_fix: "split_utf8_prefix False (snd (split_utf8_prefix False x)) = ([], snd (split_utf8_prefix False x))"
proof -
  obtain u p where "split_utf8_prefix False x = (u, p)" by fastforce
  with split_append [of False x "[]"] show ?thesis
    by (cases "split_utf8_prefix False p") (simp add: prepend_out_def)
qed

definition pending_fix :: "string \<Rightarrow> bool" where
  "pending_fix p \<longleftrightarrow> split_utf8_prefix False p = ([], p)"

lemma chunk_text_step:
  assumes "pending_fix p" "chunk_text (delta_chunk d) p = (t, p')"
  shows "pending_fix p' \<and> utf8_wf t \<and>
    split_utf8_prefix False (p @ d @ rest) = prepend_out t (split_utf8_prefix False (p' @ rest))"
proof (cases "d = []")
  case True
  with assms show ?thesis by (simp add: chunk_text_delta wf_Nil)
next
  case False
  with assms(2) have "split_utf8_prefix False (p @ d) = (t, p')" by (simp add: chunk_text_delta)
  with split_append [of False "p @ d" rest] split_wf [of False "p @ d"] split_pending_fix [of "p @ d"]
  show ?thesis by (simp add: pending_fix_def)
qed

lemma feed_deltas:
  assumes "pending_fix (pending_bytes w)"
  shows "\<exists>texts w'. feed dump (map (\<lambda>(now, d). (now, delta_chunk d)) ds) w
      = (map2 (\<lambda>(now, d) t. delta_event dump w now t) ds texts, w')
    \<and> length texts = length ds \<and> list_all utf8_wf texts \<and> w' = w\<lparr>pending_bytes := pending_bytes w'\<rparr>
    \<and> split_utf8_prefix False (pending_bytes w @ concat (map snd ds)) = (concat texts, pending_bytes w')"
  using assms
proof (induction ds arbitrary: w)
  case Nil
  then show ?case by (auto simp: pending_fix_def)
next
  case (Cons nd ds)
  obtain now d where nd: "nd = (now, d)" by (cases nd)
  obtain t p' where tp: "chunk_text (delta_chunk d) (pending_bytes w) = (t, p')" by fastforce
  let ?w1 = "w\<lparr>pending_bytes := p'\<rparr>"
  note st = chunk_text_step [OF Cons.prems tp]
  from Cons.IH [of ?w1] st obtain texts w' where IH:
    "feed dump (map (\<lambda>(now, d). (now, delta_chunk d)) ds) ?w1
      = (map2 (\<lambda>(now, d) t. delta_event dump ?w1 now t) ds texts, w')"
    "length texts = length ds" "list_all utf8_wf texts" "w' = ?w1\<lparr>pending_bytes := pending_bytes w'\<rparr>"
    "split_utf8_prefix False (p' @ concat (map snd ds)) = (concat texts, pending_bytes w')" by auto
  have same: "delta_event dump ?w1 = delta_event dump w"
    by (simp add: delta_event_def chunk_json_def fun_eq_iff)
  have "split_utf8_prefix False (pending_bytes w @ concat (map snd (nd # ds))) = (concat (t # texts), pending_bytes w')"
    using st IH(5) by (simp add: nd prepend_out_def)
  moreover have "feed dump (map (\<lambda>(now, d). (now, delta_chunk d)) (nd # ds)) w
      = (map2 (\<lambda>(now, d) t. delta_event dump w now t) (nd # ds) (t # texts), w')"
    using IH(1) by (simp add: nd OnChunk_delta tp same)
  moreover have "w' = w\<lparr>pending_bytes := pending_bytes w'\<rparr>" using IH(4) by simp
  ultimately show ?case using IH(2,3) st by (intro exI [of _ "t # texts"] exI [of _ w']) simp
qed

section \<open>Properties\<close>

text \<open>
  Claim C30. However the engine cuts its text into deltas, the stream writer emits one event per
  delta, every emitted text consists of complete UTF-8 sequences, and the concatenation of the
  texts is the sanitised prefix of the whole text, with only an incomplete last sequence held
  back; text that is well formed as a whole is emitted unchanged.
\<close>

theorem stream_writer_reassembles:
  "\<exists>texts w'. feed dump (map (\<lambda>(now, d). (now, delta_chunk d)) ds) (new_StreamWriter rid m)
      = (map2 (\<lambda>(now, d) t. delta_event dump (new_StreamWriter rid m) now t) ds texts, w')
    \<and> length texts = length ds \<and> list_all utf8_wf texts
    \<and> split_utf8_prefix False (concat (map snd ds)) = (concat texts, pending_bytes w')
    \<and> (utf8_wf (concat (map snd ds)) \<longrightarrow> concat texts = concat (map snd ds) \<and> pending_bytes w' = [])"
proof -
  have "pending_fix (pending_bytes (new_StreamWriter rid m))" by (simp add: pending_fix_def new_StreamWriter_def)
  from feed_deltas [OF this, of dump ds] obtain texts w' where
    f: "feed dump (map (\<lambda>(now, d). (now, delta_chunk d)) ds) (new_StreamWriter rid m)
      = (map2 (\<lambda>(now, d) t. delta_event dump (new_StreamWriter rid m) now t) ds texts, w')"
    "length texts = length ds" "list_all utf8_wf texts"
    "split_utf8_prefix False (concat (map snd ds)) = (concat texts, pending_bytes w')"
    by (auto simp: new_StreamWriter_def)
  moreover have "utf8_wf (concat (map snd ds)) \<longrightarrow> concat texts = concat (map snd ds) \<and> pending_bytes w' = []"
    using f(4) split_of_wf by fastforce
  ultimately show ?thesis by blast
qed

theorem stream_writer_reassembles_witness:
  "\<exists>texts w'. feed (\<lambda>_. []) [(1, delta_chunk ''h''), (2, delta_chunk ''i'')] (new_StreamWriter ''r'' ''m'')
      = (map2 (\<lambda>(now, d) t. delta_event (\<lambda>_. []) (new_StreamWriter ''r'' ''m'') now t) [(1, ''h''), (2, ''i'')] texts, w')
    \<and> concat texts = ''hi''"
proof -
  have "utf8_need (CHR ''h'') = 1" "utf8_need (CHR ''i'') = 1" by (simp_all add: utf8_need_def byte_def)
  then have "utf8_wf ''hi''"
    using wf_seq [of "CHR ''h''" "[]" "''i''"] wf_seq [of "CHR ''i''" "[]" "[]"] wf_Nil by simp
  with stream_writer_reassembles [of "\<lambda>_. []" "[(1, ''h''), (2, ''i'')]" "''r''" "''m''"] show ?thesis
    by fastforce
qed

text \<open>
  The last chunk of a stream clears the held-back bytes without ever showing them: its
  events are the same whatever was pending and whatever text the chunk carries, although the code
  computes the flushed text.
\<close>

theorem final_chunk_drops_pending:
  "OnChunk dump now \<lparr>delta = d, is_finished = True, chunk_reason = r\<rparr> w =
     ([sse_data (dump (chunk_json w now (JObject []) (JString (finish_reason_to_str r)))), sse_data ''[DONE]''],
      w\<lparr>pending_bytes := []\<rparr>)"
  by (auto simp: OnChunk_def chunk_text_def Let_def split_def)

end
