(* ===== verification/Session_Manager.thy ===== *)
theory Session_Manager
  imports Serving_Context "HOL-Library.AList"
begin

text \<open>
  \<open>serving/core/Session.h\<close> and \<open>SessionManager.{h,cc}\<close>: the table of sessions with its LRU list.
  Sessions are shared objects (\<open>std::shared_ptr\<close>), so they live in a heap and the table holds
  references; the LRU list is a \<open>std::list\<close> whose nodes have an identity, because the table's
  entries hold iterators into it.  Erasing through an iterator whose node is gone, and comparing
  or dereferencing such an iterator, is undefined behaviour and a value of the model.  Every call
  of \<open>Clock::now()\<close> is an argument; \<open>getOrCreate\<close> has a pair of them, because a new session reads
  the clock twice (\<open>created_at\<close>, \<open>last_active\<close>).
\<close>

section \<open>Sessions\<close>

record 't Session =
  session_id :: string
  s_model :: string
  model_ctx :: "nat option"
  history :: "Message list"
  created_at :: int
  last_active :: int
  closed :: bool
  pending :: "'t list"
  running :: bool

definition kMaxPending :: nat where "kMaxPending = 64"

definition new_Session :: "string \<Rightarrow> string \<Rightarrow> int \<Rightarrow> int \<Rightarrow> 't Session" where
  "new_Session sid m now1 now2 =
     \<lparr>session_id = sid, s_model = m, model_ctx = None, history = [], created_at = now1,
      last_active = now2, closed = False, pending = [], running = False\<rparr>"

definition touch_Session :: "int \<Rightarrow> 't Session \<Rightarrow> 't Session" where
  "touch_Session now s = s\<lparr>last_active := now\<rparr>"

section \<open>The manager\<close>

record Options =
  idle_ttl :: int
  max_sessions :: nat
  gc_batch :: nat

definition default_Options :: Options where
  "default_Options = \<lparr>idle_ttl = 30 * 60, max_sessions = 1024, gc_batch = 64\<rparr>"

record Entry =
  e_session :: nat
  lru_it :: nat

record 't SessionManager =
  opt :: Options
  table :: "(string \<times> Entry) list"
  lru :: "(nat \<times> string) list"
  next_node :: nat
  heap :: "nat \<Rightarrow> 't Session option"
  next_ref :: nat

definition new_SessionManager :: "Options \<Rightarrow> 't SessionManager" where
  "new_SessionManager op =
     \<lparr>opt = op, table = [], lru = [], next_node = 0, heap = Map.empty, next_ref = 0\<rparr>"

definition sm_size :: "'t SessionManager \<Rightarrow> nat" where
  "sm_size m = length (table m)"

definition list_erase :: "nat \<Rightarrow> (nat \<times> string) list \<Rightarrow> (nat \<times> string) list res" where
  "list_erase it l =
     (if it \<in> fst ` set l then Inr (filter (\<lambda>n. fst n \<noteq> it) l) else Inl UndefinedBehaviour)"

definition lru_push_front :: "string \<Rightarrow> 't SessionManager \<Rightarrow> 't SessionManager" where
  "lru_push_front sid m =
     m\<lparr>lru := (next_node m, sid) # lru m, next_node := Suc (next_node m)\<rparr>"

definition eraseUnlocked :: "string \<Rightarrow> 't SessionManager \<Rightarrow> (bool \<times> 't SessionManager) res" where
  "eraseUnlocked sid m =
     (case map_of (table m) sid of
        None \<Rightarrow> Inr (False, m)
      | Some e \<Rightarrow>
          rbind (list_erase (lru_it e) (lru m))
            (\<lambda>l. Inr (True, m\<lparr>lru := l, table := AList.delete sid (table m)\<rparr>)))"

definition touch_entry :: "int \<Rightarrow> Entry \<Rightarrow> 't SessionManager \<Rightarrow> 't SessionManager res" where
  "touch_entry now e m =
     (case heap m (e_session e) of
        None \<Rightarrow> Inl NullDeref
      | Some s \<Rightarrow> Inr (m\<lparr>heap := (heap m)(e_session e \<mapsto> touch_Session now s)\<rparr>))"

text \<open>\<open>moveToFront_(Entry &e)\<close> updates the entry stored in the table under \<open>key\<close>.\<close>

definition moveToFront :: "string \<Rightarrow> Entry \<Rightarrow> 't SessionManager \<Rightarrow> 't SessionManager res" where
  "moveToFront key e m =
     rbind (list_erase (lru_it e) (lru m))
       (\<lambda>l. case heap m (e_session e) of
              None \<Rightarrow> Inl NullDeref
            | Some s \<Rightarrow>
                let m' = lru_push_front (session_id s) (m\<lparr>lru := l\<rparr>)
                in Inr (m'\<lparr>table := AList.update key (e\<lparr>lru_it := next_node m\<rparr>) (table m')\<rparr>))"

definition shouldExpire :: "Options \<Rightarrow> 't Session \<Rightarrow> int \<Rightarrow> bool" where
  "shouldExpire op s now = (now - last_active s > idle_ttl op)"

text \<open>
  \<open>evictIfNeeded_\<close> loops as long as the table is too big; an id at the back of the list that is
  not in the table would make it loop for ever, so the loop is a partial function and \<open>None\<close> is
  "does not return".
\<close>

partial_function (option) evictIfNeeded :: "nat \<Rightarrow> 't SessionManager \<Rightarrow> (nat \<times> 't SessionManager) res option" where
  "evictIfNeeded removed m =
     (if sm_size m > max_sessions (opt m) \<and> lru m \<noteq> []
      then (case eraseUnlocked (snd (last (lru m))) m of
              Inl e \<Rightarrow> Some (Inl e)
            | Inr (_, m') \<Rightarrow> evictIfNeeded (Suc removed) m')
      else Some (Inr (removed, m)))"

definition getOrCreate :: "string \<Rightarrow> string \<Rightarrow> int \<times> int \<Rightarrow> 't SessionManager
    \<Rightarrow> (nat \<times> 't SessionManager) res option" where
  "getOrCreate sid mdl clk m =
     (case map_of (table m) sid of
        Some e \<Rightarrow>
          Some (rbind (touch_entry (fst clk) e m)
            (\<lambda>m1. rbind (moveToFront sid e m1) (\<lambda>m2. Inr (e_session e, m2))))
      | None \<Rightarrow>
          let r = next_ref m;
              m1 = m\<lparr>heap := (heap m)(r \<mapsto> new_Session sid mdl (fst clk) (snd clk)), next_ref := Suc r\<rparr>;
              m2 = lru_push_front sid m1;
              m3 = m2\<lparr>table := AList.update sid \<lparr>e_session = r, lru_it = next_node m1\<rparr> (table m2)\<rparr>
          in map_option (\<lambda>x. rbind x (\<lambda>(_, m4). Inr (r, m4))) (evictIfNeeded 0 m3))"

definition get :: "string \<Rightarrow> int \<Rightarrow> 't SessionManager \<Rightarrow> (nat option \<times> 't SessionManager) res" where
  "get sid now m =
     (case map_of (table m) sid of
        None \<Rightarrow> Inr (None, m)
      | Some e \<Rightarrow> rbind (touch_entry now e m)
          (\<lambda>m1. rbind (moveToFront sid e m1) (\<lambda>m2. Inr (Some (e_session e), m2))))"

definition close :: "string \<Rightarrow> 't SessionManager \<Rightarrow> (bool \<times> 't SessionManager) res" where
  "close sid m = eraseUnlocked sid m"

definition touch :: "string \<Rightarrow> int \<Rightarrow> 't SessionManager \<Rightarrow> 't SessionManager res" where
  "touch sid now m =
     (case map_of (table m) sid of
        None \<Rightarrow> Inr m
      | Some e \<Rightarrow> rbind (touch_entry now e m) (moveToFront sid e))"

text \<open>
  \<open>gc\<close> walks the list with a \<open>reverse_iterator\<close>.  Such an iterator is the node after the one it
  denotes (its base; \<open>None\<close> is \<open>end()\<close>), so the increment before the erase leaves as base exactly
  the node that is then erased.  \<open>rest\<close> are the nodes still ahead of the iterator; the test of the
  loop head is defined only while the base is a node of the list.
\<close>

definition base_valid :: "nat option \<Rightarrow> (nat \<times> string) list \<Rightarrow> bool" where
  "base_valid base l = (case base of None \<Rightarrow> True | Some n \<Rightarrow> n \<in> fst ` set l)"

fun gc_loop :: "int \<Rightarrow> nat option \<Rightarrow> (nat \<times> string) list \<Rightarrow> nat \<Rightarrow> 't SessionManager
    \<Rightarrow> (nat \<times> 't SessionManager) res" where
  "gc_loop now base [] removed m =
     (if base_valid base (lru m) then Inr (removed, m) else Inl UndefinedBehaviour)"
| "gc_loop now base ((n, sid) # rest) removed m =
     (if \<not> base_valid base (lru m) then Inl UndefinedBehaviour
      else if \<not> removed < gc_batch (opt m) then Inr (removed, m)
      else case map_of (table m) sid of
             None \<Rightarrow> gc_loop now (Some n) rest removed m
           | Some e \<Rightarrow>
               (case heap m (e_session e) of
                  None \<Rightarrow> Inl NullDeref
                | Some s \<Rightarrow>
                    if shouldExpire (opt m) s now \<or> closed s
                    then rbind (eraseUnlocked sid m)
                           (\<lambda>(_, m'). gc_loop now (Some n) rest (Suc removed) m')
                    else Inr (removed, m)))"

definition gc :: "int \<Rightarrow> 't SessionManager \<Rightarrow> (nat \<times> 't SessionManager) res" where
  "gc now m = gc_loop now None (rev (lru m)) 0 m"

section \<open>The invariant\<close>

definition lru_ids :: "'t SessionManager \<Rightarrow> string list" where
  "lru_ids m = map snd (lru m)"

definition entry_ok :: "'t SessionManager \<Rightarrow> string \<Rightarrow> Entry \<Rightarrow> bool" where
  "entry_ok m sid e \<longleftrightarrow> (lru_it e, sid) \<in> set (lru m) \<and> e_session e < next_ref m
     \<and> (\<exists>s. heap m (e_session e) = Some s \<and> session_id s = sid)"

definition sm_ok :: "'t SessionManager \<Rightarrow> bool" where
  "sm_ok m \<longleftrightarrow> distinct (map fst (table m)) \<and> distinct (map fst (lru m)) \<and> distinct (lru_ids m)
     \<and> (\<forall>n \<in> set (lru m). fst n < next_node m)
     \<and> set (lru_ids m) = fst ` set (table m)
     \<and> (\<forall>sid e. map_of (table m) sid = Some e \<longrightarrow> entry_ok m sid e)"

lemma sm_okD:
  assumes "sm_ok m"
  shows "distinct (map fst (table m))" "distinct (map fst (lru m))" "distinct (lru_ids m)"
    "n \<in> set (lru m) \<Longrightarrow> fst n < next_node m"
    "set (lru_ids m) = fst ` set (table m)"
    "map_of (table m) sid = Some e \<Longrightarrow> entry_ok m sid e"
  using assms by (auto simp: sm_ok_def)

lemma sm_ok_fresh: "sm_ok m \<Longrightarrow> next_node m \<notin> fst ` set (lru m)"
  by (auto dest: sm_okD(4))

lemma new_SessionManager_ok: "sm_ok (new_SessionManager op)"
  by (simp add: sm_ok_def new_SessionManager_def lru_ids_def)

lemma sm_ok_lookup: "sm_ok m \<Longrightarrow> map_of (table m) sid = None \<longleftrightarrow> sid \<notin> set (lru_ids m)"
  by (simp add: sm_okD(5) map_of_eq_None_iff)

lemma sm_size_lru: "sm_ok m \<Longrightarrow> sm_size m = length (lru_ids m)"
  using distinct_card [of "map fst (table m)"] distinct_card [of "lru_ids m"] sm_okD(1,3,5) [of m]
  by (simp add: sm_size_def)

text \<open>In a list whose nodes and ids are distinct, erasing a node erases its id.\<close>

lemma filter_node_id:
  assumes "distinct (map fst l)" "distinct (map snd l)" "(n, sid) \<in> set l"
  shows "filter (\<lambda>x. fst x \<noteq> n) l = filter (\<lambda>x. snd x \<noteq> sid) l"
proof (rule filter_cong [OF refl])
  fix x assume "x \<in> set l"
  with assms show "fst x \<noteq> n \<longleftrightarrow> snd x \<noteq> sid"
    by (metis (no_types, lifting) distinct_map inj_onD fst_conv snd_conv)
qed

lemma list_erase_ok:
  assumes "sm_ok m" "map_of (table m) sid = Some e"
  shows "list_erase (lru_it e) (lru m) = Inr (filter (\<lambda>x. snd x \<noteq> sid) (lru m))"
proof -
  from assms have "(lru_it e, sid) \<in> set (lru m)" by (auto dest: sm_okD(6) simp: entry_ok_def)
  moreover from this have "lru_it e \<in> fst ` set (lru m)" by force
  ultimately show ?thesis
    using sm_okD(2,3) [OF assms(1)] by (simp add: list_erase_def filter_node_id lru_ids_def)
qed

lemma map_snd_filter: "map snd (filter (\<lambda>x. snd x \<noteq> sid) l) = filter (\<lambda>s. s \<noteq> sid) (map snd l)"
  by (simp add: filter_map o_def)

lemma distinct_map_filterI: "distinct (map f l) \<Longrightarrow> distinct (map f (filter P l))"
  by (induction l) auto

lemma eraseUnlocked_absent: "map_of (table m) sid = None \<Longrightarrow> eraseUnlocked sid m = Inr (False, m)"
  by (simp add: eraseUnlocked_def)

definition erased :: "string \<Rightarrow> 't SessionManager \<Rightarrow> 't SessionManager" where
  "erased sid m = m\<lparr>lru := filter (\<lambda>x. snd x \<noteq> sid) (lru m), table := AList.delete sid (table m)\<rparr>"

lemma eraseUnlocked_present:
  "sm_ok m \<Longrightarrow> map_of (table m) sid = Some e \<Longrightarrow> eraseUnlocked sid m = Inr (True, erased sid m)"
  by (simp add: eraseUnlocked_def list_erase_ok erased_def)

lemma lru_ids_erased: "lru_ids (erased sid m) = filter (\<lambda>s. s \<noteq> sid) (lru_ids m)"
  by (simp add: lru_ids_def erased_def map_snd_filter)

lemma erased_frame [simp]:
  "heap (erased sid m) = heap m" "opt (erased sid m) = opt m" "next_ref (erased sid m) = next_ref m"
  "map_of (table (erased sid m)) x = (if x = sid then None else map_of (table m) x)"
  by (simp_all add: erased_def delete_conv)

lemma delete_key_set: "fst ` set (AList.delete k al) = fst ` set al - {k}"
  by (metis delete_keys set_map set_removeAll)

lemma erased_fields:
  "lru (erased sid m) = filter (\<lambda>x. snd x \<noteq> sid) (lru m)" "next_node (erased sid m) = next_node m"
  "table (erased sid m) = AList.delete sid (table m)"
  by (simp_all add: erased_def)

lemma erased_ok:
  assumes "sm_ok m"
  shows "sm_ok (erased sid m)"
  unfolding sm_ok_def
proof (intro conjI allI impI)
  fix x e assume "map_of (table (erased sid m)) x = Some e"
  then have "x \<noteq> sid" "map_of (table m) x = Some e" by (simp_all split: if_splits)
  with assms show "entry_ok (erased sid m) x e"
    by (auto simp: entry_ok_def erased_fields dest: sm_okD(6))
qed (use sm_okD(1-5) [OF assms] in
  \<open>auto simp: lru_ids_erased erased_fields distinct_delete delete_key_set intro!: distinct_map_filterI\<close>)

section \<open>Eviction\<close>

lemma lru_ids_eq_Nil [simp]: "lru_ids m = [] \<longleftrightarrow> lru m = []"
  by (simp add: lru_ids_def)

lemma sm_ok_back:
  assumes "sm_ok m" "lru m \<noteq> []"
  obtains e where "map_of (table m) (last (lru_ids m)) = Some e"
proof -
  from assms(2) have "last (lru_ids m) \<in> set (lru_ids m)" by simp
  with sm_ok_lookup [OF assms(1)] have "map_of (table m) (last (lru_ids m)) \<noteq> None" by blast
  with that show thesis by blast
qed

lemma distinct_filter_last: "distinct xs \<Longrightarrow> xs \<noteq> [] \<Longrightarrow> filter (\<lambda>x. x \<noteq> last xs) xs = butlast xs"
  by (induction xs rule: rev_induct) (auto simp: filter_id_conv)

text \<open>
  The loop returns after evicting exactly the surplus, from the back; sessions that stay keep
  their entry, and no session object is touched.
\<close>

lemma evictIfNeeded_spec:
  assumes "sm_ok m"
  shows "\<exists>m'. evictIfNeeded k m = Some (Inr (k + (sm_size m - max_sessions (opt m)), m')) \<and> sm_ok m'
    \<and> lru_ids m' = take (max_sessions (opt m)) (lru_ids m)
    \<and> heap m' = heap m \<and> opt m' = opt m \<and> next_ref m' = next_ref m
    \<and> (\<forall>x \<in> set (lru_ids m'). map_of (table m') x = map_of (table m) x)"
  using assms
proof (induction "length (lru m)" arbitrary: m k)
  case 0
  then have "sm_size m = 0" "lru m = []" by (simp_all add: sm_size_lru lru_ids_def)
  with 0 show ?case by (subst evictIfNeeded.simps) (auto simp: lru_ids_def)
next
  case (Suc n)
  show ?case
  proof (cases "sm_size m > max_sessions (opt m)")
    case False
    with Suc.prems show ?thesis
      by (subst evictIfNeeded.simps) (auto simp: sm_size_lru)
  next
    case True
    let ?b = "last (lru_ids m)"
    have ne: "lru m \<noteq> []" using Suc.hyps(2) by auto
    obtain e where e: "map_of (table m) ?b = Some e" using sm_ok_back [OF Suc.prems ne] .
    have ids: "lru_ids (erased ?b m) = butlast (lru_ids m)"
      using ne by (simp add: lru_ids_erased distinct_filter_last sm_okD(3) [OF Suc.prems])
    have len: "n = length (lru (erased ?b m))"
      using arg_cong [OF ids, of length] Suc.hyps(2) by (simp add: lru_ids_def)
    have step: "evictIfNeeded k m = evictIfNeeded (Suc k) (erased ?b m)"
      using True ne eraseUnlocked_present [OF Suc.prems e]
      by (subst evictIfNeeded.simps) (simp add: lru_ids_def last_map)
    have sz: "sm_size (erased ?b m) = sm_size m - 1"
      by (simp add: sm_size_lru Suc.prems erased_ok ids)
    have tk: "take (max_sessions (opt m)) (butlast (lru_ids m)) = take (max_sessions (opt m)) (lru_ids m)"
      using True by (simp add: take_butlast sm_size_lru [OF Suc.prems])
    have "?b \<notin> set (butlast (lru_ids m))"
      unfolding ids [symmetric] lru_ids_erased by simp
    then have notb: "?b \<notin> set (take (max_sessions (opt m)) (lru_ids m))"
      using tk by (metis in_set_takeD)
    have cnt: "Suc k + (sm_size m - 1 - max_sessions (opt m)) = k + (sm_size m - max_sessions (opt m))"
      using True by simp
    from Suc.hyps(1) [OF len erased_ok [OF Suc.prems], of "Suc k"] obtain m' where
      m': "evictIfNeeded k m = Some (Inr (k + (sm_size m - max_sessions (opt m)), m'))" "sm_ok m'"
        "lru_ids m' = take (max_sessions (opt m)) (lru_ids m)"
        "heap m' = heap m" "opt m' = opt m" "next_ref m' = next_ref m"
        "\<forall>x \<in> set (lru_ids m'). map_of (table m') x = map_of (table (erased ?b m)) x"
      unfolding step [symmetric] sz cnt ids erased_frame(1-3) tk by blast
    from m'(7) notb have "\<forall>x \<in> set (lru_ids m'). map_of (table m') x = map_of (table m) x"
      by (metis m'(3) erased_frame(4))
    with m' show ?thesis by blast
  qed
qed

section \<open>Accesses\<close>

text \<open>The effect of \<open>touch\<close> followed by \<open>moveToFront_\<close> on an entry of the table.\<close>

definition accessed :: "int \<Rightarrow> string \<Rightarrow> Entry \<Rightarrow> 't SessionManager \<Rightarrow> 't SessionManager" where
  "accessed now sid e m =
     m\<lparr>heap := (heap m)(e_session e := map_option (touch_Session now) (heap m (e_session e))),
       lru := (next_node m, sid) # filter (\<lambda>x. snd x \<noteq> sid) (lru m),
       next_node := Suc (next_node m),
       table := AList.update sid (e\<lparr>lru_it := next_node m\<rparr>) (table m)\<rparr>"

lemma accessed_fields:
  "heap (accessed now sid e m) =
     (heap m)(e_session e := map_option (touch_Session now) (heap m (e_session e)))"
  "lru (accessed now sid e m) = (next_node m, sid) # filter (\<lambda>x. snd x \<noteq> sid) (lru m)"
  "next_node (accessed now sid e m) = Suc (next_node m)"
  "table (accessed now sid e m) = AList.update sid (e\<lparr>lru_it := next_node m\<rparr>) (table m)"
  "next_ref (accessed now sid e m) = next_ref m" "opt (accessed now sid e m) = opt m"
  by (simp_all add: accessed_def)

lemma lru_ids_accessed: "lru_ids (accessed now sid e m) = sid # filter (\<lambda>s. s \<noteq> sid) (lru_ids m)"
  by (simp add: lru_ids_def accessed_fields map_snd_filter)

lemma access_hit:
  assumes "sm_ok m" "map_of (table m) sid = Some e"
  shows "rbind (touch_entry now e m) (\<lambda>m1. rbind (moveToFront sid e m1) f) = f (accessed now sid e m)"
proof -
  from assms obtain s where s: "heap m (e_session e) = Some s" "session_id s = sid"
    using sm_okD(6) [OF assms] by (auto simp: entry_ok_def)
  with list_erase_ok [OF assms] show ?thesis
    by (simp add: touch_entry_def moveToFront_def Let_def lru_push_front_def accessed_def touch_Session_def)
qed

lemma access_hit':
  assumes "sm_ok m" "map_of (table m) sid = Some e"
  shows "rbind (touch_entry now e m) (moveToFront sid e) = Inr (accessed now sid e m)"
proof -
  have *: "rbind r Inr = r" for r :: "'x res" by (cases r) auto
  show ?thesis using access_hit [OF assms, of now Inr] by (simp add: *)
qed

lemma accessed_ok:
  assumes "sm_ok m" "map_of (table m) sid = Some e"
  shows "sm_ok (accessed now sid e m)"
  unfolding sm_ok_def
proof (intro conjI allI impI)
  note ok = sm_okD [OF assms(1)]
  from ok(5) assms(2) show "set (lru_ids (accessed now sid e m)) = fst ` set (table (accessed now sid e m))"
    by (auto simp: lru_ids_accessed accessed_fields dom_update)
  show "distinct (map fst (lru (accessed now sid e m)))"
    using ok(2) sm_ok_fresh [OF assms(1)] by (auto simp: accessed_fields image_iff intro!: distinct_map_filterI)
  fix x e' assume x: "map_of (table (accessed now sid e m)) x = Some e'"
  show "entry_ok (accessed now sid e m) x e'"
  proof (cases "x = sid")
    case True
    with x ok(6) [OF assms(2)] show ?thesis
      by (auto simp: accessed_fields update_conv' entry_ok_def touch_Session_def)
  next
    case False
    with x have "entry_ok m x e'" by (auto simp: accessed_fields update_conv' dest: ok(6))
    with False ok(6) [OF assms(2)] show ?thesis
      by (auto simp: accessed_fields entry_ok_def touch_Session_def)
  qed
qed (use sm_okD(1,3,4) [OF assms(1)] in
  \<open>auto simp: accessed_fields distinct_update lru_ids_accessed less_SucI\<close>)

definition created :: "string \<Rightarrow> string \<Rightarrow> int \<times> int \<Rightarrow> 't SessionManager \<Rightarrow> 't SessionManager" where
  "created sid mdl clk m =
     m\<lparr>heap := (heap m)(next_ref m \<mapsto> new_Session sid mdl (fst clk) (snd clk)),
       next_ref := Suc (next_ref m), lru := (next_node m, sid) # lru m, next_node := Suc (next_node m),
       table := AList.update sid \<lparr>e_session = next_ref m, lru_it = next_node m\<rparr> (table m)\<rparr>"

lemma created_fields:
  "heap (created sid mdl clk m) = (heap m)(next_ref m \<mapsto> new_Session sid mdl (fst clk) (snd clk))"
  "lru (created sid mdl clk m) = (next_node m, sid) # lru m"
  "next_node (created sid mdl clk m) = Suc (next_node m)"
  "next_ref (created sid mdl clk m) = Suc (next_ref m)"
  "table (created sid mdl clk m)
     = AList.update sid \<lparr>e_session = next_ref m, lru_it = next_node m\<rparr> (table m)"
  "opt (created sid mdl clk m) = opt m"
  by (simp_all add: created_def)

lemma lru_ids_created: "lru_ids (created sid mdl clk m) = sid # lru_ids m"
  by (simp add: lru_ids_def created_fields)

lemma created_ok:
  assumes "sm_ok m" "map_of (table m) sid = None"
  shows "sm_ok (created sid mdl clk m)"
  unfolding sm_ok_def
proof (intro conjI allI impI)
  note ok = sm_okD [OF assms(1)]
  from assms(2) sm_ok_lookup [OF assms(1)] have new: "sid \<notin> set (lru_ids m)" by blast
  then show "distinct (lru_ids (created sid mdl clk m))" using ok(3) by (simp add: lru_ids_created)
  show "set (lru_ids (created sid mdl clk m)) = fst ` set (table (created sid mdl clk m))"
    using ok(5) by (auto simp: lru_ids_created created_fields dom_update)
  show "distinct (map fst (lru (created sid mdl clk m)))"
    using ok(2) sm_ok_fresh [OF assms(1)] by (simp add: created_fields)
  fix x e' assume x: "map_of (table (created sid mdl clk m)) x = Some e'"
  show "entry_ok (created sid mdl clk m) x e'"
  proof (cases "x = sid")
    case True
    with x show ?thesis by (auto simp: created_fields update_conv' entry_ok_def new_Session_def)
  next
    case False
    with x have "entry_ok m x e'" by (auto simp: created_fields update_conv' dest: ok(6))
    then show ?thesis by (auto simp: created_fields entry_ok_def)
  qed
qed (use sm_okD(1,4) [OF assms(1)] in \<open>auto simp: created_fields distinct_update less_SucI\<close>)

lemma getOrCreate_hit:
  "sm_ok m \<Longrightarrow> map_of (table m) sid = Some e \<Longrightarrow>
   getOrCreate sid mdl clk m = Some (Inr (e_session e, accessed (fst clk) sid e m))"
  by (simp add: getOrCreate_def access_hit)

lemma getOrCreate_miss:
  "map_of (table m) sid = None \<Longrightarrow>
   getOrCreate sid mdl clk m
     = map_option (\<lambda>x. rbind x (\<lambda>(_, m'). Inr (next_ref m, m'))) (evictIfNeeded 0 (created sid mdl clk m))"
  by (simp add: getOrCreate_def created_def Let_def lru_push_front_def)

section \<open>The abstract LRU list\<close>

definition lru_create :: "nat \<Rightarrow> string \<Rightarrow> string list \<Rightarrow> string list" where
  "lru_create cap sid xs =
     (if sid \<in> set xs then sid # filter (\<lambda>s. s \<noteq> sid) xs else take cap (sid # xs))"

definition lru_touch :: "string \<Rightarrow> string list \<Rightarrow> string list" where
  "lru_touch sid xs = (if sid \<in> set xs then sid # filter (\<lambda>s. s \<noteq> sid) xs else xs)"

definition lru_remove :: "string \<Rightarrow> string list \<Rightarrow> string list" where
  "lru_remove sid xs = filter (\<lambda>s. s \<noteq> sid) xs"

datatype sm_op =
    OpGetOrCreate string string "int \<times> int"
  | OpGet string int
  | OpTouch string int
  | OpClose string

fun op_sid :: "sm_op \<Rightarrow> string" where
  "op_sid (OpGetOrCreate sid _ _) = sid"
| "op_sid (OpGet sid _) = sid"
| "op_sid (OpTouch sid _) = sid"
| "op_sid (OpClose sid) = sid"

fun abs_op :: "nat \<Rightarrow> sm_op \<Rightarrow> string list \<Rightarrow> string list" where
  "abs_op cap (OpGetOrCreate sid _ _) xs = lru_create cap sid xs"
| "abs_op cap (OpGet sid _) xs = lru_touch sid xs"
| "abs_op cap (OpTouch sid _) xs = lru_touch sid xs"
| "abs_op cap (OpClose sid) xs = lru_remove sid xs"

fun sm_apply :: "sm_op \<Rightarrow> 't SessionManager \<Rightarrow> 't SessionManager res option" where
  "sm_apply (OpGetOrCreate sid mdl clk) m = map_option (\<lambda>r. rbind r (\<lambda>(_, m'). Inr m')) (getOrCreate sid mdl clk m)"
| "sm_apply (OpGet sid now) m = Some (rbind (get sid now m) (\<lambda>(_, m'). Inr m'))"
| "sm_apply (OpTouch sid now) m = Some (touch sid now m)"
| "sm_apply (OpClose sid) m = Some (rbind (close sid m) (\<lambda>(_, m'). Inr m'))"

lemma distinct_abs_op: "distinct xs \<Longrightarrow> distinct (abs_op cap op xs)"
  by (cases op) (auto simp: lru_create_def lru_touch_def lru_remove_def intro!: distinct_take)

lemma length_filter_other: "distinct xs \<Longrightarrow> x \<in> set xs \<Longrightarrow> Suc (length (filter (\<lambda>s. s \<noteq> x) xs)) = length xs"
  by (induction xs) (auto intro!: arg_cong [where f = length] filter_True)

lemma length_abs_op: "distinct xs \<Longrightarrow> length xs \<le> cap \<Longrightarrow> length (abs_op cap op xs) \<le> cap"
  by (cases op)
     (auto simp: lru_create_def lru_touch_def lru_remove_def length_filter_other
       intro: order_trans [OF length_filter_le])

text \<open>The ids in front of a session in the list are those used since it was used.\<close>

fun newer :: "string \<Rightarrow> string list \<Rightarrow> string list" where
  "newer sid [] = []"
| "newer sid (x # xs) = (if x = sid then [] else x # newer sid xs)"

lemma newer_filter: "x \<noteq> sid \<Longrightarrow> set (newer sid (filter (\<lambda>s. s \<noteq> x) xs)) \<subseteq> set (newer sid xs)"
  by (induction xs) auto

lemma newer_subset: "set (newer sid xs) \<subseteq> set xs"
  by (induction xs) auto

lemma distinct_newer: "distinct xs \<Longrightarrow> distinct (newer sid xs)"
  using newer_subset by (induction xs) fastforce+

lemma take_keeps:
  "sid \<in> set xs \<Longrightarrow> length (newer sid xs) < n \<Longrightarrow>
   sid \<in> set (take n xs) \<and> newer sid (take n xs) = newer sid xs"
proof (induction xs arbitrary: n)
  case (Cons x xs)
  then show ?case by (cases n) auto
qed simp

lemma abs_op_keeps:
  assumes "sid \<in> set xs" "distinct xs" "set (newer sid xs) \<subseteq> A" "finite A" "card A < cap"
    and "op_sid op \<in> insert sid A" "op \<noteq> OpClose sid"
  shows "sid \<in> set (abs_op cap op xs) \<and> set (newer sid (abs_op cap op xs)) \<subseteq> A"
proof -
  have front: "set (newer sid (x # filter (\<lambda>s. s \<noteq> x) xs)) \<subseteq> A" if "x \<in> insert sid A" for x
    using that newer_filter [of x sid xs] assms(3) by (cases "x = sid") auto
  have new: "sid \<in> set (take cap (x # xs)) \<and> set (newer sid (take cap (x # xs))) \<subseteq> A"
    if "x \<in> insert sid A" "x \<notin> set xs" for x
  proof -
    have x: "x \<noteq> sid" "x \<in> A" using that assms(1) by auto
    then have sub: "set (newer sid (x # xs)) \<subseteq> A" using assms(3) by auto
    have "distinct (newer sid (x # xs))" using that(2) assms(2) by (intro distinct_newer) simp
    then have "length (newer sid (x # xs)) \<le> card A"
      using sub assms(4) by (metis card_mono distinct_card)
    with take_keeps [of sid "x # xs" cap] sub assms(1,5) show ?thesis by simp
  qed
  have rm: "sid \<in> set (lru_remove x xs) \<and> set (newer sid (lru_remove x xs)) \<subseteq> A" if "x \<noteq> sid" for x
    using that newer_filter [of x sid xs] assms(1,3) by (auto simp: lru_remove_def)
  show ?thesis
    using assms(1,3,6,7) front new rm
    by (cases op) (auto simp: lru_create_def lru_touch_def)
qed

section \<open>The interface of the session table\<close>

locale lru_table =
  fixes inv :: "'s \<Rightarrow> bool" and ids :: "'s \<Rightarrow> string list" and cap :: "'s \<Rightarrow> nat"
    and ap :: "sm_op \<Rightarrow> 's \<Rightarrow> 's res option"
  assumes ids_distinct: "inv s \<Longrightarrow> distinct (ids s)"
    and ap_refines: "inv s \<Longrightarrow>
      \<exists>s'. ap op s = Some (Inr s') \<and> inv s' \<and> cap s' = cap s \<and> ids s' = abs_op (cap s) op (ids s)"
begin

lemma run_refines:
  assumes "inv s"
  shows "\<exists>s'. run_ops ap ops s = Some (Inr s') \<and> inv s' \<and> cap s' = cap s
    \<and> ids s' = fold (abs_op (cap s)) ops (ids s)"
  using assms
proof (induction ops arbitrary: s)
  case (Cons op ops)
  from ap_refines [OF Cons.prems, of op] obtain s1 where
    "ap op s = Some (Inr s1)" "inv s1" "cap s1 = cap s" "ids s1 = abs_op (cap s) op (ids s)" by blast
  with Cons.IH [of s1] show ?case by simp
qed simp

lemma run_bounded:
  assumes "inv s" "length (ids s) \<le> cap s"
  shows "\<exists>s'. run_ops ap ops s = Some (Inr s') \<and> inv s' \<and> length (ids s') \<le> cap s"
proof -
  have "distinct xs \<Longrightarrow> length xs \<le> c \<Longrightarrow> length (fold (abs_op c) ops xs) \<le> c" for c xs
    by (induction ops arbitrary: xs) (auto simp: distinct_abs_op length_abs_op)
  with run_refines [OF assms(1), of ops] ids_distinct assms show ?thesis by fastforce
qed

lemma run_keeps:
  assumes "inv s" "sid \<in> set (ids s)" "set (newer sid (ids s)) \<subseteq> A" "finite A" "card A < cap s"
    and "op_sid ` set ops \<subseteq> insert sid A" "OpClose sid \<notin> set ops"
  shows "\<exists>s'. run_ops ap ops s = Some (Inr s') \<and> inv s' \<and> sid \<in> set (ids s')"
proof -
  have "sid \<in> set (fold (abs_op (cap s)) ops xs)"
    if "distinct xs" "sid \<in> set xs" "set (newer sid xs) \<subseteq> A" for xs
    using that assms(6,7)
  proof (induction ops arbitrary: xs)
    case (Cons op ops)
    from Cons.prems have "op_sid op \<in> insert sid A" "op \<noteq> OpClose sid" by auto
    with abs_op_keeps [OF Cons.prems(2,1,3) assms(4,5), of op] Cons distinct_abs_op
    show ?case by simp
  qed simp
  with run_refines [OF assms(1), of ops] ids_distinct assms show ?thesis by metis
qed

end

lemma getOrCreate_spec:
  assumes "sm_ok m"
  shows "\<exists>r m'. getOrCreate sid mdl clk m = Some (Inr (r, m')) \<and> sm_ok m' \<and> opt m' = opt m
    \<and> lru_ids m' = lru_create (max_sessions (opt m)) sid (lru_ids m)
    \<and> (\<exists>s. heap m' r = Some s \<and> session_id s = sid)
    \<and> (sid \<in> set (lru_ids m') \<longrightarrow> map_option e_session (map_of (table m') sid) = Some r)"
proof (cases "map_of (table m) sid")
  case (Some e)
  with assms have "sid \<in> set (lru_ids m)" by (metis option.distinct(1) sm_ok_lookup)
  moreover have "entry_ok m sid e" using sm_okD(6) [OF assms Some] .
  ultimately show ?thesis
    using getOrCreate_hit [OF assms Some] accessed_ok [OF assms Some]
    by (auto simp: lru_ids_accessed lru_create_def accessed_fields update_conv' entry_ok_def touch_Session_def)
next
  case None
  then have new: "sid \<notin> set (lru_ids m)" using sm_ok_lookup [OF assms] by blast
  from evictIfNeeded_spec [OF created_ok [OF assms None], of 0 mdl clk] obtain k m' where
    m': "evictIfNeeded 0 (created sid mdl clk m) = Some (Inr (k, m'))" "sm_ok m'"
      "lru_ids m' = take (max_sessions (opt m)) (sid # lru_ids m)"
      "heap m' = heap (created sid mdl clk m)" "opt m' = opt m"
      "\<forall>x \<in> set (lru_ids m'). map_of (table m') x = map_of (table (created sid mdl clk m)) x"
    unfolding lru_ids_created created_fields(6) by blast
  have "getOrCreate sid mdl clk m = Some (Inr (next_ref m, m'))"
    using m'(1) by (simp add: getOrCreate_miss [OF None])
  with m' new show ?thesis
    by (auto simp: lru_create_def created_fields update_conv' new_Session_def)
qed

lemma get_hit:
  "sm_ok m \<Longrightarrow> map_of (table m) sid = Some e \<Longrightarrow>
   get sid now m = Inr (Some (e_session e), accessed now sid e m)"
  by (simp add: get_def access_hit del: rbind_eq_Inr)

lemma touch_hit:
  "sm_ok m \<Longrightarrow> map_of (table m) sid = Some e \<Longrightarrow> touch sid now m = Inr (accessed now sid e m)"
  by (simp add: touch_def access_hit' del: rbind_eq_Inr)

lemma get_spec:
  assumes "sm_ok m"
  shows "\<exists>m'. get sid now m = Inr (map_option e_session (map_of (table m) sid), m') \<and> sm_ok m'
    \<and> opt m' = opt m \<and> lru_ids m' = lru_touch sid (lru_ids m)"
proof (cases "map_of (table m) sid")
  case (Some e)
  moreover from this have "sid \<in> set (lru_ids m)" by (metis assms option.distinct(1) sm_ok_lookup)
  ultimately show ?thesis
    using get_hit [OF assms Some] accessed_ok [OF assms Some]
    by (simp add: lru_ids_accessed lru_touch_def accessed_fields)
qed (use assms sm_ok_lookup [OF assms, of sid] in \<open>simp add: get_def lru_touch_def\<close>)

lemma touch_spec:
  assumes "sm_ok m"
  shows "\<exists>m'. touch sid now m = Inr m' \<and> sm_ok m' \<and> opt m' = opt m \<and> lru_ids m' = lru_touch sid (lru_ids m)"
proof (cases "map_of (table m) sid")
  case (Some e)
  moreover from this have "sid \<in> set (lru_ids m)" by (metis assms option.distinct(1) sm_ok_lookup)
  ultimately show ?thesis
    using touch_hit [OF assms Some] accessed_ok [OF assms Some]
    by (simp add: lru_ids_accessed lru_touch_def accessed_fields)
qed (use assms sm_ok_lookup [OF assms, of sid] in \<open>simp add: touch_def lru_touch_def\<close>)

lemma close_spec:
  assumes "sm_ok m"
  shows "\<exists>m'. close sid m = Inr (sid \<in> set (lru_ids m), m') \<and> sm_ok m' \<and> opt m' = opt m
    \<and> lru_ids m' = lru_remove sid (lru_ids m)"
proof (cases "map_of (table m) sid")
  case None
  then have "sid \<notin> set (lru_ids m)" using assms sm_ok_lookup by blast
  then have "lru_remove sid (lru_ids m) = lru_ids m"
    unfolding lru_remove_def by (intro filter_True) auto
  with None \<open>sid \<notin> _\<close> assms show ?thesis by (simp add: close_def eraseUnlocked_absent)
next
  case (Some e)
  moreover from this have "sid \<in> set (lru_ids m)" by (metis assms option.distinct(1) sm_ok_lookup)
  ultimately show ?thesis
    using eraseUnlocked_present [OF assms Some] erased_ok [OF assms]
    by (simp add: close_def lru_ids_erased lru_remove_def)
qed

interpretation sessions: lru_table sm_ok lru_ids "\<lambda>m. max_sessions (opt m)" sm_apply
proof
  fix m :: "'t SessionManager" and op
  assume ok: "sm_ok m"
  show "distinct (lru_ids m)" using ok by (rule sm_okD(3))
  show "\<exists>m'. sm_apply op m = Some (Inr m') \<and> sm_ok m' \<and> max_sessions (opt m') = max_sessions (opt m)
      \<and> lru_ids m' = abs_op (max_sessions (opt m)) op (lru_ids m)"
  proof (cases op)
    case (OpGetOrCreate sid mdl clk)
    with getOrCreate_spec [OF ok, of sid mdl clk] show ?thesis by fastforce
  next
    case (OpGet sid now)
    with get_spec [OF ok, of sid now] show ?thesis by fastforce
  next
    case (OpTouch sid now)
    with touch_spec [OF ok, of sid now] show ?thesis by fastforce
  next
    case (OpClose sid)
    with close_spec [OF ok, of sid] show ?thesis by fastforce
  qed
qed

section \<open>Garbage collection\<close>

definition tail_session :: "'t SessionManager \<Rightarrow> 't Session option" where
  "tail_session m =
     (if lru m = [] then None
      else case map_of (table m) (last (lru_ids m)) of
             None \<Rightarrow> None
           | Some e \<Rightarrow> heap m (e_session e))"

definition expired :: "int \<Rightarrow> 't SessionManager \<Rightarrow> 't Session \<Rightarrow> bool" where
  "expired now m s = (shouldExpire (opt m) s now \<or> closed s)"

lemma rev_lru_Cons: "lru m \<noteq> [] \<Longrightarrow> \<exists>n rest. rev (lru m) = (n, last (lru_ids m)) # rest \<and> n \<in> fst ` set (lru m)"
  by (cases "lru m" rule: rev_cases) (auto simp: lru_ids_def)

lemma gc_loop_bad_base: "\<not> base_valid base (lru m) \<Longrightarrow> gc_loop now base ns k m = Inl UndefinedBehaviour"
  by (cases ns) auto

lemma erased_base_invalid:
  assumes "sm_ok m" "(n, sid) \<in> set (lru m)"
  shows "\<not> base_valid (Some n) (lru (erased sid m))"
  using assms sm_okD(2,3) [OF assms(1)]
  by (auto simp: base_valid_def erased_fields lru_ids_def) (metis distinct_map inj_onD fst_conv snd_conv)

text \<open>The value of \<open>gc()\<close> in every state of a well-formed manager.\<close>

lemma gc_cases:
  assumes "sm_ok m"
  shows "gc now m =
    (case tail_session m of
       None \<Rightarrow> Inr (0, m)
     | Some s \<Rightarrow> if gc_batch (opt m) > 0 \<and> expired now m s then Inl UndefinedBehaviour else Inr (0, m))"
proof (cases "lru m = []")
  case True
  then show ?thesis by (simp add: gc_def tail_session_def base_valid_def)
next
  case False
  let ?sid = "last (lru_ids m)"
  obtain n rest where rl: "rev (lru m) = (n, ?sid) # rest" using rev_lru_Cons [OF False] by blast
  then have mem: "(n, ?sid) \<in> set (lru m)" by (metis list.set_intros(1) set_rev)
  obtain e where e: "map_of (table m) ?sid = Some e" using sm_ok_back [OF assms False] .
  obtain s where s: "heap m (e_session e) = Some s" using sm_okD(6) [OF assms e] by (auto simp: entry_ok_def)
  have "gc_loop now (Some n) rest (Suc 0) (erased ?sid m) = Inl UndefinedBehaviour"
    by (rule gc_loop_bad_base [OF erased_base_invalid [OF assms mem]])
  with False rl e s eraseUnlocked_present [OF assms e] show ?thesis
    by (simp add: gc_def tail_session_def base_valid_def expired_def)
qed

section \<open>Properties\<close>

text \<open>
  Claim C1. Every sequence of \<open>getOrCreate\<close>, \<open>get\<close>, \<open>touch\<close> and \<open>close\<close> calls on a well-formed
  manager returns without undefined behaviour (the eviction loop ends, no iterator dangles), keeps
  the manager well-formed, and changes the list of session ids exactly as the abstract LRU list
  does: a used id moves to the front, a new one enters in front and pushes out the surplus at the
  back, a closed one leaves.
\<close>

theorem session_manager_refines_lru:
  assumes "sm_ok m"
  shows "\<exists>m'. run_ops sm_apply ops m = Some (Inr m') \<and> sm_ok m'
    \<and> lru_ids m' = fold (abs_op (max_sessions (opt m))) ops (lru_ids m)"
  using sessions.run_refines [OF assms, of ops] by blast

theorem session_manager_refines_lru_witness:
  "\<exists>m' :: unit SessionManager.
     run_ops sm_apply [OpGetOrCreate ''a'' ''m'' (0, 0), OpGetOrCreate ''b'' ''m'' (1, 1), OpGet ''a'' 2]
       (new_SessionManager default_Options) = Some (Inr m')
     \<and> sm_ok m' \<and> lru_ids m' = [''a'', ''b'']"
  using session_manager_refines_lru [OF new_SessionManager_ok, of
      "[OpGetOrCreate ''a'' ''m'' (0, 0), OpGetOrCreate ''b'' ''m'' (1, 1), OpGet ''a'' 2]" default_Options]
  by (simp add: lru_create_def lru_touch_def new_SessionManager_def default_Options_def lru_ids_def)

text \<open>
  From a new manager, no sequence of calls makes the table hold more than
  \<open>max_sessions\<close> sessions.
\<close>

theorem session_count_bounded:
  "\<exists>m'. run_ops sm_apply ops (new_SessionManager op) = Some (Inr m') \<and> sm_ok m'
     \<and> sm_size m' \<le> max_sessions op"
proof -
  have "length (lru_ids (new_SessionManager op)) \<le> max_sessions (opt (new_SessionManager op))"
    by (simp add: new_SessionManager_def lru_ids_def)
  from sessions.run_bounded [OF new_SessionManager_ok this, of ops] show ?thesis
    by (auto simp: sm_size_lru new_SessionManager_def)
qed

text \<open>
  \<open>getOrCreate\<close> followed by any calls that do not close the session and that name fewer
  than \<open>max_sessions\<close> other sessions leaves the session in the table.
\<close>

theorem recently_used_session_survives:
  assumes "sm_ok m" "card (op_sid ` set ops - {sid}) < max_sessions (opt m)" "OpClose sid \<notin> set ops"
  shows "\<exists>m'. run_ops sm_apply (OpGetOrCreate sid mdl clk # ops) m = Some (Inr m')
    \<and> sm_ok m' \<and> sid \<in> fst ` set (table m')"
proof -
  obtain r m1 where m1: "getOrCreate sid mdl clk m = Some (Inr (r, m1))" "sm_ok m1" "opt m1 = opt m"
    "lru_ids m1 = lru_create (max_sessions (opt m)) sid (lru_ids m)"
    using getOrCreate_spec [OF assms(1), of sid mdl clk] by blast
  then have "sid \<in> set (lru_ids m1) \<and> newer sid (lru_ids m1) = []"
    using assms(2) by (cases "max_sessions (opt m)") (auto simp: lru_create_def)
  then obtain m' where "run_ops sm_apply ops m1 = Some (Inr m') \<and> sm_ok m' \<and> sid \<in> set (lru_ids m')"
    using sessions.run_keeps [OF m1(2), of sid "op_sid ` set ops - {sid}" ops] assms(2,3) m1(3) by auto
  with m1(1) show ?thesis by (auto simp: sm_okD(5))
qed

theorem recently_used_session_survives_witness:
  "\<exists>m' :: unit SessionManager.
     run_ops sm_apply [OpGetOrCreate ''a'' ''m'' (0, 0), OpGetOrCreate ''b'' ''m'' (1, 1)]
       (new_SessionManager \<lparr>idle_ttl = 1800, max_sessions = 2, gc_batch = 64\<rparr>) = Some (Inr m')
     \<and> ''a'' \<in> fst ` set (table m')"
proof -
  have "card (op_sid ` set [OpGetOrCreate ''b'' ''m'' (1, 1)] - {''a''}) < 2" by simp
  then show ?thesis
    using recently_used_session_survives [OF new_SessionManager_ok, of "[OpGetOrCreate ''b'' ''m'' (1, 1)]" "''a''"
        "\<lparr>idle_ttl = 1800, max_sessions = 2, gc_batch = 64\<rparr>" "''m''" "(0, 0)"]
    by (auto simp: new_SessionManager_def)
qed

text \<open>
  With room for at least one session, the object \<open>getOrCreate\<close> returns is the one the
  next \<open>get\<close> of the same id returns, and it carries that id.
\<close>

theorem getOrCreate_then_get:
  assumes "sm_ok m" "max_sessions (opt m) > 0"
  shows "\<exists>r m1 m2. getOrCreate sid mdl clk m = Some (Inr (r, m1)) \<and> get sid now m1 = Inr (Some r, m2)
    \<and> map_option session_id (heap m1 r) = Some sid"
proof -
  obtain r m1 where m1: "getOrCreate sid mdl clk m = Some (Inr (r, m1))" "sm_ok m1"
    "lru_ids m1 = lru_create (max_sessions (opt m)) sid (lru_ids m)"
    "\<exists>s. heap m1 r = Some s \<and> session_id s = sid"
    "sid \<in> set (lru_ids m1) \<longrightarrow> map_option e_session (map_of (table m1) sid) = Some r"
    using getOrCreate_spec [OF assms(1), of sid mdl clk] by blast
  then have "map_option e_session (map_of (table m1) sid) = Some r"
    using assms(2) by (cases "max_sessions (opt m)") (auto simp: lru_create_def)
  with m1(1,4) get_spec [OF m1(2), of sid now] show ?thesis by auto
qed

theorem getOrCreate_then_get_witness:
  "\<exists>r m1 m2. getOrCreate ''s'' ''m'' (0, 0) (new_SessionManager default_Options :: unit SessionManager)
       = Some (Inr (r, m1))
     \<and> get ''s'' 5 m1 = Inr (Some r, m2) \<and> map_option session_id (heap m1 r) = Some ''s''"
  by (rule getOrCreate_then_get [OF new_SessionManager_ok])
     (simp add: new_SessionManager_def default_Options_def)

text \<open>
  \<open>gc()\<close> never removes a session in a defined execution: when the least recently used
  session is neither idle too long nor closed it returns 0 and changes nothing, and when it is
  (and \<open>gc_batch\<close> is positive) the loop erases the node its reverse iterator is based on and then
  compares that iterator, which is undefined behaviour.
\<close>

theorem gc_erases_its_own_base:
  assumes "sm_ok m"
  shows "(\<forall>s. tail_session m = Some s \<and> gc_batch (opt m) > 0 \<and> expired now m s
       \<longrightarrow> gc now m = Inl UndefinedBehaviour)
    \<and> ((\<forall>s. tail_session m = Some s \<longrightarrow> \<not> expired now m s) \<longrightarrow> gc now m = Inr (0, m))"
  by (simp add: gc_cases [OF assms] split: option.splits)

definition gc_example :: "unit SessionManager" where
  "gc_example = created ''s'' ''m'' (0, 0) (new_SessionManager default_Options)"

theorem gc_erases_its_own_base_witness:
  "sm_ok gc_example \<and> gc 10000 gc_example = Inl UndefinedBehaviour \<and> gc 5 gc_example = Inr (0, gc_example)"
proof -
  have ok: "sm_ok gc_example"
    unfolding gc_example_def by (rule created_ok [OF new_SessionManager_ok]) (simp add: new_SessionManager_def)
  have "tail_session gc_example = Some (new_Session ''s'' ''m'' 0 0)"
    by (simp add: tail_session_def gc_example_def created_def new_SessionManager_def lru_ids_def)
  moreover have "expired 10000 gc_example (new_Session ''s'' ''m'' 0 0)"
    "\<not> expired 5 gc_example (new_Session ''s'' ''m'' 0 0)" "gc_batch (opt gc_example) > 0"
    by (simp_all add: expired_def shouldExpire_def gc_example_def created_def new_SessionManager_def
        default_Options_def new_Session_def)
  ultimately show ?thesis
    using ok gc_erases_its_own_base [OF ok, of 10000] gc_erases_its_own_base [OF ok, of 5] by auto
qed

end
