(* ===== verification/Thread_Pool.thy ===== *)
theory Thread_Pool
  imports Cpp_Base
begin

text \<open>
  \<open>serving/core/ThreadPool.{h,cc}\<close> as an interleaving model.  A worker is at a point of
  \<open>WorkerLoop\<close>: at the head of the loop, on its way into the critical section, inside
  \<open>cv_.wait\<close> with the mutex held after the predicate was false, blocked on the condition variable,
  running a task, or gone.  \<open>Submit\<close> is two steps (the push under the mutex, then \<open>notify_one\<close>) and
  the destructor three (\<open>stop_.store\<close>, which takes no mutex, \<open>notify_all\<close>, and the joins).  The fields
  \<open>p_submitted\<close> and \<open>p_started\<close> are ghosts recording the order of submissions and of task starts.
\<close>

section \<open>State and steps\<close>

datatype 't worker_pc =
    AtLoop
  | Acquiring
  | Deciding
  | Blocked
  | Running 't
  | Exited

datatype destructor_pc = Alive | Stopping | Joining

record 't ThreadPool =
  p_q :: "'t list"
  p_stop :: bool
  p_workers :: nat
  p_pc :: "nat \<Rightarrow> 't worker_pc"
  p_notify :: nat
  p_dtor :: destructor_pc
  p_submitted :: "'t list"
  p_started :: "'t list"

definition new_ThreadPool :: "nat \<Rightarrow> 't ThreadPool" where
  "new_ThreadPool n = \<lparr>p_q = [], p_stop = False, p_workers = n, p_pc = (\<lambda>i. if i < n then AtLoop else Exited),
     p_notify = 0, p_dtor = Alive, p_submitted = [], p_started = []\<rparr>"

definition pool_init :: "'t ThreadPool \<Rightarrow> bool" where
  "pool_init p \<longleftrightarrow> (\<exists>n > 0. p = new_ThreadPool n)"

definition mutex_free :: "'t ThreadPool \<Rightarrow> bool" where
  "mutex_free p \<longleftrightarrow> (\<forall>i. p_pc p i \<noteq> Deciding)"

definition set_pc :: "nat \<Rightarrow> 't worker_pc \<Rightarrow> 't ThreadPool \<Rightarrow> 't ThreadPool" where
  "set_pc i c p = p\<lparr>p_pc := (p_pc p)(i := c)\<rparr>"

definition notify_all :: "'t ThreadPool \<Rightarrow> 't ThreadPool" where
  "notify_all p = p\<lparr>p_pc := (\<lambda>i. if p_pc p i = Blocked then Acquiring else p_pc p i)\<rparr>"

text \<open>The body of the critical section once the mutex is held.\<close>

definition worker_section :: "nat \<Rightarrow> 't ThreadPool \<Rightarrow> 't ThreadPool" where
  "worker_section i p =
     (case p_q p of
        [] \<Rightarrow> set_pc i (if p_stop p then Exited else Deciding) p
      | t # q \<Rightarrow> set_pc i (Running t) (p\<lparr>p_q := q, p_started := p_started p @ [t]\<rparr>))"

inductive pool_step :: "'t ThreadPool \<Rightarrow> 't ThreadPool \<Rightarrow> bool" where
  submit_push: "mutex_free p \<Longrightarrow>
     pool_step p (p\<lparr>p_q := p_q p @ [t], p_submitted := p_submitted p @ [t], p_notify := Suc (p_notify p)\<rparr>)"
| submit_notify_one: "p_notify p = Suc k \<Longrightarrow> p_pc p i = Blocked \<Longrightarrow>
     pool_step p (set_pc i Acquiring (p\<lparr>p_notify := k\<rparr>))"
| submit_notify_none: "p_notify p = Suc k \<Longrightarrow> \<forall>i. p_pc p i \<noteq> Blocked \<Longrightarrow>
     pool_step p (p\<lparr>p_notify := k\<rparr>)"
| loop_exit: "p_pc p i = AtLoop \<Longrightarrow> p_stop p \<Longrightarrow> pool_step p (set_pc i Exited p)"
| loop_enter: "p_pc p i = AtLoop \<Longrightarrow> \<not> p_stop p \<Longrightarrow> pool_step p (set_pc i Acquiring p)"
| section_step: "p_pc p i = Acquiring \<Longrightarrow> mutex_free p \<Longrightarrow> pool_step p (worker_section i p)"
| wait_block: "p_pc p i = Deciding \<Longrightarrow> pool_step p (set_pc i Blocked p)"
| spurious_wakeup: "p_pc p i = Blocked \<Longrightarrow> pool_step p (set_pc i Acquiring p)"
| task_done: "p_pc p i = Running t \<Longrightarrow> pool_step p (set_pc i AtLoop p)"
| dtor_stop: "p_dtor p = Alive \<Longrightarrow> pool_step p (p\<lparr>p_stop := True, p_dtor := Stopping\<rparr>)"
| dtor_notify: "p_dtor p = Stopping \<Longrightarrow> pool_step p (notify_all (p\<lparr>p_dtor := Joining\<rparr>))"

definition dtor_returns :: "'t ThreadPool \<Rightarrow> bool" where
  "dtor_returns p \<longleftrightarrow> p_dtor p = Joining \<and> (\<forall>i < p_workers p. p_pc p i = Exited)"

section \<open>The invariant\<close>

definition active :: "'t worker_pc \<Rightarrow> bool" where
  "active c = (case c of AtLoop \<Rightarrow> True | Acquiring \<Rightarrow> True | Running _ \<Rightarrow> True | _ \<Rightarrow> False)"

definition pool_inv :: "'t ThreadPool \<Rightarrow> bool" where
  "pool_inv p \<longleftrightarrow>
     p_submitted p = p_started p @ p_q p
     \<and> 0 < p_workers p
     \<and> (\<forall>i \<ge> p_workers p. p_pc p i = Exited)
     \<and> (p_stop p \<longleftrightarrow> p_dtor p \<noteq> Alive)
     \<and> (\<forall>i. p_pc p i = Deciding \<longrightarrow> p_q p = [])
     \<and> (\<not> p_stop p \<longrightarrow> (\<forall>i < p_workers p. p_pc p i \<noteq> Exited))
     \<and> (\<not> p_stop p \<and> p_q p \<noteq> [] \<longrightarrow> 0 < p_notify p \<or> (\<exists>i. active (p_pc p i)))"

lemma set_pc_fields [simp]:
  "p_q (set_pc i c p) = p_q p" "p_stop (set_pc i c p) = p_stop p" "p_workers (set_pc i c p) = p_workers p"
  "p_pc (set_pc i c p) = (p_pc p)(i := c)" "p_notify (set_pc i c p) = p_notify p"
  "p_dtor (set_pc i c p) = p_dtor p" "p_submitted (set_pc i c p) = p_submitted p"
  "p_started (set_pc i c p) = p_started p"
  by (simp_all add: set_pc_def)

lemma active_simps [simp]:
  "active AtLoop" "active Acquiring" "active (Running t)"
  "\<not> active Deciding" "\<not> active Blocked" "\<not> active Exited"
  by (simp_all add: active_def)

lemma pool_init_inv: "pool_init p \<Longrightarrow> pool_inv p"
  by (auto simp: pool_init_def pool_inv_def new_ThreadPool_def)

lemma pool_inv_worker: "pool_inv p \<Longrightarrow> p_pc p i \<noteq> Exited \<Longrightarrow> i < p_workers p"
  unfolding pool_inv_def by (meson not_less)

text \<open>A worker that becomes active keeps the invariant whatever it does to the counter.\<close>

lemma pool_inv_activate:
  assumes "pool_inv p" "p_pc p i = Blocked \<or> p_pc p i = AtLoop \<or> (\<exists>t. p_pc p i = Running t)"
    "c = AtLoop \<or> c = Acquiring"
  shows "pool_inv (set_pc i c (p\<lparr>p_notify := k\<rparr>))"
proof -
  have "active c" "c \<noteq> Deciding" "c \<noteq> Exited" using assms(3) by auto
  moreover have "i < p_workers p"
    using assms(1,2) by (auto intro: pool_inv_worker)
  ultimately show ?thesis using assms(1) by (auto simp: pool_inv_def)
qed

lemma pool_inv_idle_worker:
  assumes "pool_inv p" "\<not> p_stop p" "p_q p \<noteq> []" "\<forall>i. p_pc p i \<noteq> Blocked"
  shows "\<exists>i. active (p_pc p i)"
proof -
  from assms have "p_pc p 0 \<noteq> Exited" "p_pc p 0 \<noteq> Deciding" "p_pc p 0 \<noteq> Blocked"
    by (auto simp: pool_inv_def)
  then have "active (p_pc p 0)" by (cases "p_pc p 0") auto
  then show ?thesis ..
qed

lemma set_pc_same_notify: "set_pc i c p = set_pc i c (p\<lparr>p_notify := p_notify p\<rparr>)"
  by simp

lemma worker_section_inv:
  assumes "pool_inv p" "p_pc p i = Acquiring" "mutex_free p"
  shows "pool_inv (worker_section i p)"
proof -
  have "i < p_workers p" using assms(1,2) by (simp add: pool_inv_worker)
  with assms show ?thesis
    by (cases "p_q p") (auto simp: pool_inv_def worker_section_def mutex_free_def)
qed

lemma pool_step_inv: "pool_step p p' \<Longrightarrow> pool_inv p \<Longrightarrow> pool_inv p'"
proof (induction rule: pool_step.induct)
  case (submit_push p t)
  then show ?case by (auto simp: pool_inv_def mutex_free_def)
next
  case (submit_notify_none p k)
  then show ?case using pool_inv_idle_worker [of p] by (auto simp: pool_inv_def)
next
  case (submit_notify_one p k i)
  then show ?case by (intro pool_inv_activate) auto
next
  case (loop_enter p i)
  then show ?case by (subst set_pc_same_notify, intro pool_inv_activate) auto
next
  case (spurious_wakeup p i)
  then show ?case by (subst set_pc_same_notify, intro pool_inv_activate) auto
next
  case (task_done p i t)
  then show ?case by (subst set_pc_same_notify, intro pool_inv_activate) auto
next
  case (section_step p i)
  then show ?case by (rule worker_section_inv [rotated])
next
  case (wait_block p i)
  then have "i < p_workers p" by (simp add: pool_inv_worker)
  with wait_block show ?case by (auto simp: pool_inv_def)
next
  case (dtor_notify p)
  then show ?case by (auto simp: pool_inv_def notify_all_def)
qed (auto simp: pool_inv_def)

lemma reachable_pool_inv: "reachable pool_init pool_step p \<Longrightarrow> pool_inv p"
  by (erule reachable_invariant) (auto intro: pool_init_inv pool_step_inv)

section \<open>Properties\<close>

text \<open>
  Claim C28. In every reachable state of the pool the tasks were started in the order of their
  submission, each at most once (what was submitted is what was started followed by the queue);
  and while the pool is not being destroyed, no task is forgotten in the queue: a queued task has
  a pending notification or a worker that is not blocked.
\<close>

theorem thread_pool_fifo_no_lost_wakeup:
  assumes "reachable pool_init pool_step p"
  shows "p_submitted p = p_started p @ p_q p
    \<and> (\<not> p_stop p \<and> p_q p \<noteq> [] \<longrightarrow> 0 < p_notify p \<or> (\<exists>i < p_workers p. active (p_pc p i)))"
proof -
  have inv: "pool_inv p" using assms by (rule reachable_pool_inv)
  then have "active (p_pc p i) \<Longrightarrow> i < p_workers p" for i
    by (rule pool_inv_worker) auto
  with inv show ?thesis unfolding pool_inv_def by blast
qed

definition one_worker :: "nat ThreadPool" where
  "one_worker = new_ThreadPool 1"

lemma one_worker_reachable: "reachable pool_init pool_step one_worker"
  by (rule reachable_init) (auto simp: pool_init_def one_worker_def)

lemma one_worker_submitted:
  "reachable pool_init pool_step (one_worker\<lparr>p_q := [7], p_submitted := [7], p_notify := 1\<rparr>)"
proof (rule reachable_step [OF one_worker_reachable])
  have "mutex_free one_worker" by (simp add: mutex_free_def one_worker_def new_ThreadPool_def)
  from submit_push [OF this, of 7]
  show "pool_step one_worker (one_worker\<lparr>p_q := [7], p_submitted := [7], p_notify := 1\<rparr>)"
    by (simp add: one_worker_def new_ThreadPool_def)
qed

theorem thread_pool_fifo_no_lost_wakeup_witness:
  "\<exists>p :: nat ThreadPool. reachable pool_init pool_step p \<and> p_q p = [7] \<and> p_submitted p = p_started p @ [7]"
  using one_worker_submitted thread_pool_fifo_no_lost_wakeup [OF one_worker_submitted] by force

definition hung_pool :: "nat ThreadPool" where
  "hung_pool = one_worker\<lparr>p_stop := True, p_dtor := Joining, p_pc := (\<lambda>i. if i = 0 then Blocked else Exited)\<rparr>"

lemma hung_pool_reachable: "reachable pool_init pool_step hung_pool"
proof -
  let ?p1 = "set_pc 0 Acquiring one_worker"
  let ?p2 = "set_pc 0 Deciding ?p1"
  let ?p3 = "?p2\<lparr>p_stop := True, p_dtor := Stopping\<rparr>"
  let ?p4 = "notify_all (?p3\<lparr>p_dtor := Joining\<rparr>)"
  have "pool_step one_worker ?p1" by (rule loop_enter) (simp_all add: one_worker_def new_ThreadPool_def)
  moreover have "pool_step ?p1 (worker_section 0 ?p1)"
    by (rule section_step) (simp_all add: mutex_free_def one_worker_def new_ThreadPool_def)
  moreover have "worker_section 0 ?p1 = ?p2" by (simp add: worker_section_def one_worker_def new_ThreadPool_def)
  moreover have "pool_step ?p2 ?p3" by (rule dtor_stop) (simp add: one_worker_def new_ThreadPool_def)
  moreover have "pool_step ?p3 ?p4" by (rule dtor_notify) simp
  moreover have "pool_step ?p4 (set_pc 0 Blocked ?p4)" by (rule wait_block) (simp add: notify_all_def)
  moreover have "set_pc 0 Blocked ?p4 = hung_pool"
    by (auto simp: hung_pool_def notify_all_def one_worker_def new_ThreadPool_def set_pc_def fun_eq_iff)
  ultimately show ?thesis using one_worker_reachable by (metis reachable_step)
qed

text \<open>
  The destructor stores \<open>stop_\<close> and notifies without taking the mutex, so it can fall
  between a worker's test of the wait predicate and its blocking: there is a reachable state in
  which the destructor waits in \<open>join\<close>, the worker is blocked with \<open>stop_\<close> set, and no step but a
  spurious wake-up (or a further submission) can change the state.
\<close>

theorem pool_destructor_may_hang:
  "reachable pool_init pool_step hung_pool \<and> \<not> dtor_returns hung_pool
   \<and> {p'. pool_step hung_pool p' \<and> p_submitted p' = p_submitted hung_pool} = {set_pc 0 Acquiring hung_pool}"
proof (intro conjI subset_antisym subsetI)
  show "\<not> dtor_returns hung_pool"
    by (simp add: dtor_returns_def hung_pool_def one_worker_def new_ThreadPool_def)
  fix p' assume "p' \<in> {p'. pool_step hung_pool p' \<and> p_submitted p' = p_submitted hung_pool}"
  then have "pool_step hung_pool p'" "p_submitted p' = p_submitted hung_pool" by auto
  then show "p' \<in> {set_pc 0 Acquiring hung_pool}"
    by (cases rule: pool_step.cases)
       (auto simp: hung_pool_def one_worker_def new_ThreadPool_def split: if_splits)
next
  fix p' assume "p' \<in> {set_pc 0 Acquiring hung_pool}"
  moreover have "pool_step hung_pool (set_pc 0 Acquiring hung_pool)"
    by (rule spurious_wakeup) (simp add: hung_pool_def)
  ultimately show "p' \<in> {p'. pool_step hung_pool p' \<and> p_submitted p' = p_submitted hung_pool}" by simp
qed (rule hung_pool_reachable)

text \<open>
  The loop head tests \<open>stop_\<close> before the queue, so the destructor can return with
  submitted tasks that were never run.
\<close>

theorem pool_destructor_drops_tasks:
  "\<exists>p :: nat ThreadPool. reachable pool_init pool_step p \<and> dtor_returns p \<and> p_submitted p = [7] \<and> p_started p = []"
proof -
  let ?p1 = "one_worker\<lparr>p_q := [7], p_submitted := [7], p_notify := 1\<rparr>"
  let ?p2 = "?p1\<lparr>p_stop := True, p_dtor := Stopping\<rparr>"
  let ?p3 = "notify_all (?p2\<lparr>p_dtor := Joining\<rparr>)"
  have "pool_step ?p1 ?p2" by (rule dtor_stop) (simp add: one_worker_def new_ThreadPool_def)
  moreover have "pool_step ?p2 ?p3" by (rule dtor_notify) simp
  moreover have "pool_step ?p3 (set_pc 0 Exited ?p3)"
    by (rule loop_exit) (simp_all add: notify_all_def one_worker_def new_ThreadPool_def)
  ultimately have "reachable pool_init pool_step (set_pc 0 Exited ?p3)"
    using one_worker_submitted by (metis reachable_step)
  moreover have "dtor_returns (set_pc 0 Exited ?p3) \<and> p_submitted (set_pc 0 Exited ?p3) = [7]
      \<and> p_started (set_pc 0 Exited ?p3) = []"
    by (simp add: dtor_returns_def notify_all_def one_worker_def new_ThreadPool_def)
  ultimately show ?thesis by blast
qed

end
