(* ===== verification/Executors.thy ===== *)
theory Executors
  imports Session_Manager Thread_Pool
begin

text \<open>
  The two serial executors: \<open>serving/core/SessionExecutor.{h,cc}\<close> runs the tasks of a session one
  after the other, and \<open>SubmitPerModel\<close>/\<open>RunModelQueue\<close> of \<open>serving/core/EngineExecutor.{h,cc}\<close>
  those of a model.  Both have the same shape: a critical section that appends a task and decides
  whether a drain has to be posted to the thread pool, and a drain loop whose critical section
  takes the next task or clears the running flag.  The interleaving model \<open>sq_step\<close> takes the two
  critical sections as arguments; the locale \<open>serial_queue\<close> states what they promise.
\<close>

section \<open>Critical sections of SessionExecutor\<close>

definition get_max_pending :: "environ \<Rightarrow> nat" where
  "get_max_pending env =
     (case getenv_nonempty env ''MAX_SESSION_PENDING'' of
        None \<Rightarrow> kMaxPending
      | Some v \<Rightarrow> (case stoi v of Inr n \<Rightarrow> if n > 0 then nat n else kMaxPending | Inl _ \<Rightarrow> kMaxPending))"

text \<open>The result is \<open>(accepted, need_schedule, session)\<close>.\<close>

definition SessionExecutor_Submit :: "nat \<Rightarrow> 't \<Rightarrow> 't Session \<Rightarrow> bool \<times> bool \<times> 't Session" where
  "SessionExecutor_Submit max_pending task s =
     (if length (pending s) \<ge> max_pending then (False, False, s)
      else let s1 = s\<lparr>pending := pending s @ [task]\<rparr>
           in if \<not> running s1 then (True, True, s1\<lparr>running := True\<rparr>) else (True, False, s1))"

definition SessionExecutor_Drain :: "'t Session \<Rightarrow> 't option \<times> 't Session" where
  "SessionExecutor_Drain s =
     (case pending s of
        [] \<Rightarrow> (None, s\<lparr>running := False\<rparr>)
      | t # ts \<Rightarrow> (Some t, s\<lparr>pending := ts\<rparr>))"

section \<open>Critical sections of EngineExecutor\<close>

record 't ModelQueue =
  mq_tasks :: "'t list"
  mq_running :: bool

definition new_ModelQueue :: "'t ModelQueue" where
  "new_ModelQueue = \<lparr>mq_tasks = [], mq_running = False\<rparr>"

definition MAX_QUEUE_FLOOR :: nat where "MAX_QUEUE_FLOOR = 1"

definition SubmitPerModel :: "nat \<Rightarrow> 't \<Rightarrow> 't ModelQueue \<Rightarrow> bool \<times> bool \<times> 't ModelQueue" where
  "SubmitPerModel max_queue task mq =
     (let cap = max MAX_QUEUE_FLOOR max_queue
      in if length (mq_tasks mq) \<ge> cap then (False, False, mq)
         else let mq1 = mq\<lparr>mq_tasks := mq_tasks mq @ [task]\<rparr>
              in if \<not> mq_running mq1 then (True, True, mq1\<lparr>mq_running := True\<rparr>) else (True, False, mq1))"

definition RunModelQueue :: "'t ModelQueue \<Rightarrow> 't option \<times> 't ModelQueue" where
  "RunModelQueue mq =
     (case mq_tasks mq of
        [] \<Rightarrow> (None, mq\<lparr>mq_running := False\<rparr>)
      | t # ts \<Rightarrow> (Some t, mq\<lparr>mq_tasks := ts\<rparr>))"

text \<open>\<open>queues_[model]\<close> creates the queue of a model on first use.\<close>

definition model_queue_slot :: "string \<Rightarrow> (string \<rightharpoonup> 't ModelQueue) \<Rightarrow> 't ModelQueue \<times> (string \<rightharpoonup> 't ModelQueue)" where
  "model_queue_slot model qs =
     (case qs model of
        Some mq \<Rightarrow> (mq, qs)
      | None \<Rightarrow> (new_ModelQueue, qs(model \<mapsto> new_ModelQueue)))"

section \<open>Interleaving\<close>

text \<open>
  The state of the system around one queue object: submitters that have left the critical section
  and have still to call \<open>pool_.Submit\<close>, drains waiting in the pool, drains running (at the critical
  section, \<open>None\<close>, or executing a task), and the ghosts recording the order of acceptance and of
  starts.  A task that throws is caught and logged by the session executor; in the model executor
  the exception leaves the worker thread, which terminates the process.
\<close>

record ('q, 't) sq_sys =
  sq_obj :: 'q
  sq_posting :: nat
  sq_posted :: nat
  sq_drains :: "'t option list"
  sq_dead :: bool
  sq_accepted :: "'t list"
  sq_started :: "'t list"

definition sq_new :: "'q \<Rightarrow> ('q, 't) sq_sys" where
  "sq_new q = \<lparr>sq_obj = q, sq_posting = 0, sq_posted = 0, sq_drains = [], sq_dead = False,
     sq_accepted = [], sq_started = []\<rparr>"

inductive sq_step :: "bool \<Rightarrow> ('t \<Rightarrow> 'q \<Rightarrow> bool \<times> bool \<times> 'q) \<Rightarrow> ('q \<Rightarrow> 't option \<times> 'q)
    \<Rightarrow> ('q, 't) sq_sys \<Rightarrow> ('q, 't) sq_sys \<Rightarrow> bool"
  for catches :: bool and submit :: "'t \<Rightarrow> 'q \<Rightarrow> bool \<times> bool \<times> 'q" and pop :: "'q \<Rightarrow> 't option \<times> 'q" where
  sq_accept: "\<not> sq_dead s \<Longrightarrow> submit t (sq_obj s) = (True, need, q') \<Longrightarrow>
     sq_step catches submit pop s
       (s\<lparr>sq_obj := q', sq_posting := sq_posting s + (if need then 1 else 0), sq_accepted := sq_accepted s @ [t]\<rparr>)"
| sq_reject: "\<not> sq_dead s \<Longrightarrow> submit t (sq_obj s) = (False, need, q') \<Longrightarrow>
     sq_step catches submit pop s (s\<lparr>sq_obj := q'\<rparr>)"
| sq_post: "\<not> sq_dead s \<Longrightarrow> sq_posting s = Suc k \<Longrightarrow>
     sq_step catches submit pop s (s\<lparr>sq_posting := k, sq_posted := Suc (sq_posted s)\<rparr>)"
| sq_begin: "\<not> sq_dead s \<Longrightarrow> sq_posted s = Suc k \<Longrightarrow>
     sq_step catches submit pop s (s\<lparr>sq_posted := k, sq_drains := None # sq_drains s\<rparr>)"
| sq_take: "\<not> sq_dead s \<Longrightarrow> sq_drains s = ds1 @ None # ds2 \<Longrightarrow> pop (sq_obj s) = (Some t, q') \<Longrightarrow>
     sq_step catches submit pop s
       (s\<lparr>sq_obj := q', sq_drains := ds1 @ Some t # ds2, sq_started := sq_started s @ [t]\<rparr>)"
| sq_leave: "\<not> sq_dead s \<Longrightarrow> sq_drains s = ds1 @ None # ds2 \<Longrightarrow> pop (sq_obj s) = (None, q') \<Longrightarrow>
     sq_step catches submit pop s (s\<lparr>sq_obj := q', sq_drains := ds1 @ ds2\<rparr>)"
| sq_return: "\<not> sq_dead s \<Longrightarrow> sq_drains s = ds1 @ Some t # ds2 \<Longrightarrow>
     sq_step catches submit pop s (s\<lparr>sq_drains := ds1 @ None # ds2\<rparr>)"
| sq_throw: "\<not> sq_dead s \<Longrightarrow> sq_drains s = ds1 @ Some t # ds2 \<Longrightarrow>
     sq_step catches submit pop s
       (if catches then s\<lparr>sq_drains := ds1 @ None # ds2\<rparr> else s\<lparr>sq_dead := True\<rparr>)"

definition sq_executing :: "('q, 't) sq_sys \<Rightarrow> 't list" where
  "sq_executing s = List.map_filter id (sq_drains s)"

section \<open>The interface of a serial queue\<close>

locale serial_queue =
  fixes submit :: "'t \<Rightarrow> 'q \<Rightarrow> bool \<times> bool \<times> 'q" and pop :: "'q \<Rightarrow> 't option \<times> 'q"
    and tasks :: "'q \<Rightarrow> 't list" and busy :: "'q \<Rightarrow> bool" and cap :: nat
  assumes submit_full: "length (tasks q) \<ge> cap \<Longrightarrow> submit t q = (False, False, q)"
    and submit_room: "length (tasks q) < cap \<Longrightarrow>
      \<exists>q'. submit t q = (True, \<not> busy q, q') \<and> tasks q' = tasks q @ [t] \<and> busy q'"
    and pop_empty: "tasks q = [] \<Longrightarrow> \<exists>q'. pop q = (None, q') \<and> tasks q' = [] \<and> \<not> busy q'"
    and pop_next: "tasks q = t # ts \<Longrightarrow> \<exists>q'. pop q = (Some t, q') \<and> tasks q' = ts \<and> busy q' = busy q"
begin

definition inv :: "('q, 't) sq_sys \<Rightarrow> bool" where
  "inv s \<longleftrightarrow> sq_accepted s = sq_started s @ tasks (sq_obj s)
     \<and> length (tasks (sq_obj s)) \<le> cap
     \<and> (tasks (sq_obj s) \<noteq> [] \<longrightarrow> busy (sq_obj s))
     \<and> sq_posting s + sq_posted s + length (sq_drains s) = (if busy (sq_obj s) then 1 else 0)"

lemma submit_Some:
  assumes "submit t q = (True, need, q')"
  shows "length (tasks q) < cap \<and> need = (\<not> busy q) \<and> tasks q' = tasks q @ [t] \<and> busy q'"
  using assms submit_full [of q t] submit_room [of q t] by (cases "length (tasks q) < cap") auto

lemma submit_None:
  assumes "submit t q = (False, need, q')"
  shows "q' = q \<and> length (tasks q) \<ge> cap"
  using assms submit_full [of q t] submit_room [of q t] by (cases "length (tasks q) < cap") auto

lemma pop_Some: "pop q = (Some t, q') \<Longrightarrow> tasks q = t # tasks q' \<and> busy q' = busy q"
  using pop_empty [of q] pop_next [of q] by (cases "tasks q") force+

lemma pop_None: "pop q = (None, q') \<Longrightarrow> tasks q = [] \<and> tasks q' = [] \<and> \<not> busy q'"
  using pop_empty [of q] pop_next [of q] by (cases "tasks q") force+

lemma inv_step: "sq_step catches submit pop s s' \<Longrightarrow> inv s \<Longrightarrow> inv s'"
proof (induction rule: sq_step.induct)
  case (sq_accept s t need q')
  then show ?case by (auto simp: inv_def dest!: submit_Some split: if_splits)
next
  case (sq_reject s t need q')
  then show ?case by (auto simp: inv_def dest!: submit_None)
next
  case (sq_take s ds1 ds2 t q')
  then show ?case by (auto simp: inv_def dest!: pop_Some split: if_splits)
next
  case (sq_leave s ds1 ds2 q')
  then show ?case by (auto simp: inv_def dest!: pop_None split: if_splits)
qed (auto simp: inv_def split: if_splits)

lemma reachable_inv:
  assumes "reachable (\<lambda>s. s = sq_new q0) (sq_step catches submit pop) s" "tasks q0 = []" "\<not> busy q0"
  shows "inv s"
  using assms(1)
proof (rule reachable_invariant)
  show "inv s" if "s = sq_new q0" for s using that assms(2,3) by (simp add: inv_def sq_new_def)
qed (rule inv_step)

lemma serial:
  assumes "inv s"
  shows "length (sq_executing s) \<le> 1"
proof -
  have "length (sq_drains s) \<le> 1" using assms by (auto simp: inv_def split: if_splits)
  moreover have "length (List.map_filter id xs) \<le> length xs" for xs :: "'t option list"
    by (simp add: List.map_filter_def)
  ultimately show ?thesis unfolding sq_executing_def using order_trans by blast
qed

lemma never_forgotten:
  assumes "inv s" "tasks (sq_obj s) \<noteq> []"
  shows "sq_posting s > 0 \<or> sq_posted s > 0 \<or> sq_drains s \<noteq> []"
  using assms by (auto simp: inv_def)

text \<open>From every state the drains can empty the queue, starting everything accepted, in order.\<close>

lemma drain_at_section:
  assumes "inv s" "\<not> sq_dead s" "busy (sq_obj s)"
  shows "\<exists>s'. (sq_step catches submit pop)\<^sup>*\<^sup>* s s' \<and> inv s' \<and> \<not> sq_dead s' \<and> sq_drains s' = [None]
    \<and> sq_obj s' = sq_obj s \<and> sq_accepted s' = sq_accepted s"
proof -
  let ?R = "sq_step catches submit pop"
  have one: "sq_posting s + sq_posted s + length (sq_drains s) = 1" using assms by (simp add: inv_def)
  consider (posting) "sq_posting s = 1" "sq_posted s = 0" "sq_drains s = []"
    | (posted) "sq_posting s = 0" "sq_posted s = 1" "sq_drains s = []"
    | (executing) t where "sq_posting s = 0" "sq_posted s = 0" "sq_drains s = [Some t]"
    | (there) "sq_drains s = [None]"
    using one by (cases "sq_drains s"; cases "hd (sq_drains s)") fastforce+
  then show ?thesis
  proof cases
    case posting
    let ?s1 = "s\<lparr>sq_posting := 0, sq_posted := 1\<rparr>"
    let ?s2 = "?s1\<lparr>sq_posted := 0, sq_drains := [None]\<rparr>"
    have s1: "?R s ?s1" using sq_post [OF assms(2), of 0] posting by simp
    have s2: "?R ?s1 ?s2" using sq_begin [of ?s1 0] assms(2) posting by simp
    from s1 s2 have "?R\<^sup>*\<^sup>* s ?s2" by (meson rtranclp.rtrancl_refl rtranclp.rtrancl_into_rtrancl)
    moreover have "inv ?s2" using inv_step [OF s2 inv_step [OF s1 assms(1)]] .
    ultimately show ?thesis using assms(2) by (intro exI [of _ ?s2]) simp
  next
    case posted
    let ?s2 = "s\<lparr>sq_posted := 0, sq_drains := [None]\<rparr>"
    have s2: "?R s ?s2" using sq_begin [OF assms(2), of 0] posted by simp
    then show ?thesis using assms(2) inv_step [OF s2 assms(1)] by (intro exI [of _ ?s2]) auto
  next
    case executing
    let ?s2 = "s\<lparr>sq_drains := [None]\<rparr>"
    have s2: "?R s ?s2" using sq_return [OF assms(2), of "[]" t "[]"] executing by simp
    then show ?thesis using assms(2) inv_step [OF s2 assms(1)] by (intro exI [of _ ?s2]) auto
  next
    case there
    then show ?thesis using assms by (intro exI [of _ s]) simp
  qed
qed

lemma drains_complete:
  assumes "inv s" "\<not> sq_dead s"
  shows "\<exists>s'. (sq_step catches submit pop)\<^sup>*\<^sup>* s s' \<and> sq_started s' = sq_accepted s
    \<and> tasks (sq_obj s') = [] \<and> \<not> busy (sq_obj s')"
  using assms
proof (induction "length (tasks (sq_obj s))" arbitrary: s)
  case 0
  show ?case
  proof (cases "busy (sq_obj s)")
    case False
    with 0 show ?thesis by (intro exI [of _ s]) (auto simp: inv_def)
  next
    case True
    from drain_at_section [OF 0(2,3) True] obtain s1 where s1:
      "(sq_step catches submit pop)\<^sup>*\<^sup>* s s1" "inv s1" "\<not> sq_dead s1" "sq_drains s1 = [None]"
      "sq_obj s1 = sq_obj s" "sq_accepted s1 = sq_accepted s" by blast
    obtain q' where q': "pop (sq_obj s1) = (None, q')" "tasks q' = []" "\<not> busy q'"
      using pop_empty [of "sq_obj s1"] 0(1) s1(5) by auto
    have "sq_step catches submit pop s1 (s1\<lparr>sq_obj := q', sq_drains := []\<rparr>)"
      using sq_leave [OF s1(3), of "[]" "[]" _ q'] s1(4) q'(1) by simp
    with s1(1) have "(sq_step catches submit pop)\<^sup>*\<^sup>* s (s1\<lparr>sq_obj := q', sq_drains := []\<rparr>)" by simp
    moreover have "sq_started s1 = sq_accepted s" using s1(2,5,6) 0(1) by (simp add: inv_def)
    ultimately show ?thesis using q'(2,3) by (intro exI [of _ "s1\<lparr>sq_obj := q', sq_drains := []\<rparr>"]) simp
  qed
next
  case (Suc n)
  then obtain t ts where ts: "tasks (sq_obj s) = t # ts" by (cases "tasks (sq_obj s)") auto
  then have "busy (sq_obj s)" using Suc.prems(1) by (simp add: inv_def)
  from drain_at_section [OF Suc.prems this] obtain s1 where s1:
    "(sq_step catches submit pop)\<^sup>*\<^sup>* s s1" "inv s1" "\<not> sq_dead s1" "sq_drains s1 = [None]"
    "sq_obj s1 = sq_obj s" "sq_accepted s1 = sq_accepted s" by blast
  obtain q' where q': "pop (sq_obj s1) = (Some t, q')" "tasks q' = ts"
    using pop_next [of "sq_obj s1" t ts] ts s1(5) by auto
  let ?s2 = "s1\<lparr>sq_obj := q', sq_drains := [Some t], sq_started := sq_started s1 @ [t]\<rparr>"
  have s2: "sq_step catches submit pop s1 ?s2"
    using sq_take [OF s1(3), of "[]" "[]" _ t q'] s1(4) q'(1) by simp
  have "n = length (tasks (sq_obj ?s2))" using Suc.hyps(2) ts q'(2) by simp
  from Suc.hyps(1) [OF this inv_step [OF s2 s1(2)]] s1(3,6) obtain s' where
    "(sq_step catches submit pop)\<^sup>*\<^sup>* ?s2 s'" "sq_started s' = sq_accepted s"
    "tasks (sq_obj s') = []" "\<not> busy (sq_obj s')" by auto
  moreover have "(sq_step catches submit pop)\<^sup>*\<^sup>* s ?s2" using s1(1) s2 by simp
  ultimately show ?case by (meson rtranclp_trans)
qed

end

interpretation session_queue: serial_queue "SessionExecutor_Submit cap" SessionExecutor_Drain pending running cap for cap
  by unfold_locales (auto simp: SessionExecutor_Submit_def SessionExecutor_Drain_def Let_def)

interpretation model_queue: serial_queue "SubmitPerModel max_queue" RunModelQueue mq_tasks mq_running
    "max MAX_QUEUE_FLOOR max_queue" for max_queue
  by unfold_locales (auto simp: SubmitPerModel_def RunModelQueue_def Let_def)

section \<open>Properties\<close>

abbreviation session_reachable :: "environ \<Rightarrow> 't Session \<Rightarrow> ('t Session, 't) sq_sys \<Rightarrow> bool" where
  "session_reachable env s0 \<equiv>
     reachable (\<lambda>s. s = sq_new s0) (sq_step True (SessionExecutor_Submit (get_max_pending env)) SessionExecutor_Drain)"

abbreviation model_reachable :: "nat \<Rightarrow> ('t ModelQueue, 't) sq_sys \<Rightarrow> bool" where
  "model_reachable max_queue \<equiv>
     reachable (\<lambda>s. s = sq_new new_ModelQueue) (sq_step False (SubmitPerModel max_queue) RunModelQueue)"

text \<open>The session executor's tasks catch every exception, so it never dies.\<close>

lemma catching_never_dies:
  assumes "reachable (\<lambda>s. s = sq_new q0) (sq_step True submit pop) s"
  shows "\<not> sq_dead s"
  using assms
proof (rule reachable_invariant)
  show "\<not> sq_dead t" if "\<not> sq_dead s" "sq_step True submit pop s t" for s t
    using that(2,1) by (induction rule: sq_step.induct) auto
qed (simp add: sq_new_def)

lemma get_max_pending_pos: "0 < get_max_pending env"
  by (auto simp: get_max_pending_def kMaxPending_def split: option.splits sum.splits)

lemma new_Session_idle: "pending (new_Session sid m t1 t2) = [] \<and> \<not> running (new_Session sid m t1 t2)"
  by (simp add: new_Session_def)

text \<open>
  Claim C2. However submissions, pool threads and drains of one session interleave, at most one of
  its tasks executes at any moment, tasks start in the order they were accepted (what was accepted
  is what was started followed by the queue), the queue never exceeds the configured maximum, and
  a queued task always has a drain under way.
\<close>

theorem session_tasks_serial_fifo:
  assumes "session_reachable env (new_Session sid m t1 t2) s"
  shows "length (sq_executing s) \<le> 1
    \<and> sq_accepted s = sq_started s @ pending (sq_obj s)
    \<and> length (pending (sq_obj s)) \<le> get_max_pending env
    \<and> (pending (sq_obj s) \<noteq> [] \<longrightarrow> sq_posting s > 0 \<or> sq_posted s > 0 \<or> sq_drains s \<noteq> [])"
proof -
  have inv: "session_queue.inv (get_max_pending env) s"
    using assms new_Session_idle [of sid m t1 t2] by (intro session_queue.reachable_inv) auto
  with session_queue.serial [OF inv] session_queue.never_forgotten [OF inv] show ?thesis
    by (auto simp: session_queue.inv_def)
qed

abbreviation empty_session :: "nat Session" where
  "empty_session \<equiv> new_Session ''s'' ''m'' 0 0"

lemma session_accept_example:
  "session_reachable Map.empty empty_session
     ((sq_new empty_session)\<lparr>sq_obj := empty_session\<lparr>pending := [7], running := True\<rparr>,
        sq_posting := 1, sq_accepted := [7]\<rparr>)"
proof (rule reachable_step)
  show "session_reachable Map.empty empty_session (sq_new empty_session)" by (rule reachable_init) simp
  have "SessionExecutor_Submit (get_max_pending Map.empty) 7 empty_session
      = (True, True, empty_session\<lparr>pending := [7], running := True\<rparr>)"
    using get_max_pending_pos [of Map.empty] by (simp add: SessionExecutor_Submit_def new_Session_def)
  from sq_accept [of "sq_new empty_session" _ 7, OF _ , where catches = True and pop = SessionExecutor_Drain] this
  show "sq_step True (SessionExecutor_Submit (get_max_pending Map.empty)) SessionExecutor_Drain (sq_new empty_session)
     ((sq_new empty_session)\<lparr>sq_obj := empty_session\<lparr>pending := [7], running := True\<rparr>,
        sq_posting := 1, sq_accepted := [7]\<rparr>)"
    by (fastforce simp: sq_new_def)
qed

theorem session_tasks_serial_fifo_witness:
  "\<exists>s. session_reachable Map.empty empty_session s \<and> pending (sq_obj s) = [7]
     \<and> sq_accepted s = sq_started s @ [7] \<and> length (sq_executing s) \<le> 1"
  using session_accept_example session_tasks_serial_fifo [OF session_accept_example] by force

text \<open>
  From every reachable state of a session's executor the drains can run to the end: there
  is a continuation in which every accepted task has been started, in order, the queue is empty
  and the session is idle again.
\<close>

theorem session_drains_complete:
  assumes "session_reachable env (new_Session sid m t1 t2) s"
  shows "\<exists>s'. (sq_step True (SessionExecutor_Submit (get_max_pending env)) SessionExecutor_Drain)\<^sup>*\<^sup>* s s'
    \<and> sq_started s' = sq_accepted s \<and> pending (sq_obj s') = [] \<and> \<not> running (sq_obj s')"
proof -
  have "session_queue.inv (get_max_pending env) s"
    using assms new_Session_idle [of sid m t1 t2] by (intro session_queue.reachable_inv) auto
  then show ?thesis using catching_never_dies [OF assms] by (rule session_queue.drains_complete)
qed

theorem session_drains_complete_witness:
  "\<exists>s s'. session_reachable Map.empty empty_session s \<and> sq_accepted s = [7]
     \<and> (sq_step True (SessionExecutor_Submit (get_max_pending Map.empty)) SessionExecutor_Drain)\<^sup>*\<^sup>* s s'
     \<and> sq_started s' = [7]"
  using session_accept_example session_drains_complete [OF session_accept_example] by force

text \<open>
  The tasks of one model are serialised in the same way: at most one executes, they start
  in the order of acceptance, the queue holds at most \<open>max(1, max_queue)\<close> tasks, a queued task has
  a drain under way, and a submission is refused exactly when the queue is full, leaving it
  unchanged.
\<close>

theorem model_tasks_serial_fifo:
  assumes "model_reachable max_queue s"
  shows "length (sq_executing s) \<le> 1
    \<and> sq_accepted s = sq_started s @ mq_tasks (sq_obj s)
    \<and> length (mq_tasks (sq_obj s)) \<le> max 1 max_queue
    \<and> (mq_tasks (sq_obj s) \<noteq> [] \<longrightarrow> sq_posting s > 0 \<or> sq_posted s > 0 \<or> sq_drains s \<noteq> [])
    \<and> (\<forall>t. SubmitPerModel max_queue t (sq_obj s) = (False, False, sq_obj s)
          \<longleftrightarrow> length (mq_tasks (sq_obj s)) = max 1 max_queue)"
proof -
  have inv: "model_queue.inv max_queue s"
    using assms by (intro model_queue.reachable_inv) (auto simp: new_ModelQueue_def)
  then have bound: "length (mq_tasks (sq_obj s)) \<le> max 1 max_queue"
    unfolding model_queue.inv_def unfolding MAX_QUEUE_FLOOR_def by blast
  have "SubmitPerModel max_queue t (sq_obj s) = (False, False, sq_obj s)
      \<longleftrightarrow> length (mq_tasks (sq_obj s)) = max 1 max_queue" for t
    using bound by (auto simp: SubmitPerModel_def Let_def MAX_QUEUE_FLOOR_def)
  with bound inv model_queue.serial [OF inv] model_queue.never_forgotten [OF inv] show ?thesis
    by (simp add: model_queue.inv_def)
qed

theorem model_tasks_serial_fifo_witness:
  "\<exists>s :: (nat ModelQueue, nat) sq_sys. model_reachable 5 s
     \<and> length (mq_tasks (sq_obj s)) \<le> max 1 5 \<and> sq_accepted s = sq_started s @ mq_tasks (sq_obj s)"
proof -
  have "model_reachable 5 (sq_new new_ModelQueue :: (nat ModelQueue, nat) sq_sys)"
    by (rule reachable_init) simp
  from this model_tasks_serial_fifo [OF this] show ?thesis by blast
qed

end
