(* ===== verification/Engines.thy ===== *)
theory Engines
  imports Session_Manager
begin

text \<open>
  The engines of \<open>engine/\<close>: \<open>DummyEngine\<close>, \<open>LlamaEngine\<close> with its per-session KV cache
  (\<open>ModelContext\<close>), and the cache of \<open>EngineFactory\<close>.  The llama.cpp library is not part of the
  repository: its calls are the fields of a record \<open>llama_api\<close> that every definition takes as an
  argument.  While an engine runs, other threads may cancel or finish the context; what they do is
  a list of state transformers, one of which is applied at every \<open>cancelled.load()\<close>.
\<close>

section \<open>Contexts and interference\<close>

record 'k ModelContext =
  mc_ctx :: "'k option"
  mc_sampler :: bool
  n_past :: int
  initialized :: bool

text \<open>
  The state an engine works on: the request, its session, the model contexts (objects owned by
  \<open>shared_ptr\<close>), and the pending interference.  \<open>r_trace\<close> is a ghost: for every successful
  \<open>llama_decode\<close> the model context and the positions of the batch.
\<close>

record ('w, 't, 'k) run_state =
  r_ctx :: "'w ServingContext"
  r_session :: "'t Session option"
  r_heap :: "nat \<Rightarrow> 'k ModelContext option"
  r_next :: nat
  r_others :: "('w ServingContext \<Rightarrow> 'w ServingContext) list"
  r_trace :: "(nat \<times> int list) list"

definition interfere :: "('w, 't, 'k) run_state \<Rightarrow> ('w, 't, 'k) run_state" where
  "interfere st =
     (case r_others st of
        [] \<Rightarrow> st
      | f # fs \<Rightarrow> st\<lparr>r_ctx := f (r_ctx st), r_others := fs\<rparr>)"

definition map_ctx :: "('w ServingContext \<Rightarrow> 'w ServingContext) \<Rightarrow> ('w, 't, 'k) run_state \<Rightarrow> ('w, 't, 'k) run_state" where
  "map_ctx f st = st\<lparr>r_ctx := f (r_ctx st)\<rparr>"

definition finalize_usage :: "'w ServingContext \<Rightarrow> 'w ServingContext" where
  "finalize_usage ctx =
     ctx\<lparr>usage := (usage ctx)\<lparr>total_tokens := prompt_tokens (usage ctx) + completion_tokens (usage ctx)\<rparr>\<rparr>"

definition finish_run :: "'w Callbacks \<Rightarrow> FinishReason \<Rightarrow> ('w, 't, 'k) run_state \<Rightarrow> ('w, 't, 'k) run_state" where
  "finish_run cb r = map_ctx (\<lambda>ctx. EmitFinish cb r (finalize_usage ctx))"

definition fail_run :: "'w Callbacks \<Rightarrow> string \<Rightarrow> ('w, 't, 'k) run_state \<Rightarrow> ('w, 't, 'k) run_state" where
  "fail_run cb msg st = finish_run cb Error (map_ctx (\<lambda>ctx. ctx\<lparr>error_message := msg\<rparr>) st)"

text \<open>A cancellation point: \<open>if (ctx->cancelled.load()) { finalize; EmitFinish(cancelled); return; }\<close>.\<close>

definition unless_cancelled :: "'w Callbacks \<Rightarrow> (('w, 't, 'k) run_state \<Rightarrow> ('w, 't, 'k) run_state res)
    \<Rightarrow> ('w, 't, 'k) run_state \<Rightarrow> ('w, 't, 'k) run_state res" where
  "unless_cancelled cb k st =
     (let st1 = interfere st
      in if is_cancelled (r_ctx st1) then Inr (finish_run cb Cancelled st1) else k st1)"

section \<open>DummyEngine\<close>

definition add_completion :: "'w ServingContext \<Rightarrow> 'w ServingContext" where
  "add_completion ctx = ctx\<lparr>usage := (usage ctx)\<lparr>completion_tokens := completion_tokens (usage ctx) + 1\<rparr>\<rparr>"

fun dummy_loop :: "'w Callbacks \<Rightarrow> nat \<Rightarrow> ('w, 't, 'k) run_state \<Rightarrow> ('w, 't, 'k) run_state res" where
  "dummy_loop cb 0 st = Inr (finish_run cb Stop st)"
| "dummy_loop cb (Suc n) st =
     unless_cancelled cb
       (\<lambda>st1. dummy_loop cb n (map_ctx (\<lambda>ctx. add_completion (EmitDelta cb ''hello '' ctx)) st1)) st"

definition DummyEngine_Run :: "'w Callbacks \<Rightarrow> ('w, 't, 'k) run_state \<Rightarrow> ('w, 't, 'k) run_state res" where
  "DummyEngine_Run cb st = dummy_loop cb 20 st"

section \<open>The llama.cpp interface\<close>

type_synonym llama_token = int

text \<open>
  \<open>llama_chat_apply_template\<close> returns the length of the formatted text (or a negative number) and
  fills the buffer; \<open>llama_tokenize\<close> and \<open>llama_token_to_piece\<close> return a count and what they wrote;
  \<open>llama_decode\<close> gets the batch as (token, position, logits wanted) triples.
\<close>

record 'k llama_api =
  llama_init_from_model :: "int \<Rightarrow> int \<Rightarrow> int \<Rightarrow> 'k option"
  llama_sampler_init_greedy :: bool
  llama_n_ctx :: "'k \<Rightarrow> int"
  llama_model_has_vocab :: bool
  llama_model_chat_template :: "string option"
  llama_chat_apply_template :: "string \<Rightarrow> Message list \<Rightarrow> bool \<Rightarrow> int \<times> string"
  llama_tokenize :: "string \<Rightarrow> nat \<Rightarrow> bool \<Rightarrow> int \<times> llama_token list"
  llama_decode :: "'k \<Rightarrow> (llama_token \<times> int \<times> bool) list \<Rightarrow> int \<times> 'k"
  llama_sampler_sample :: "'k \<Rightarrow> llama_token \<times> 'k"
  llama_vocab_is_eog :: "llama_token \<Rightarrow> bool"
  llama_token_to_piece :: "llama_token \<Rightarrow> nat \<Rightarrow> int \<times> string"

text \<open>\<open>std::vector::resize\<close> and what a C function writes into a buffer of a given size.\<close>

definition resize :: "'a \<Rightarrow> nat \<Rightarrow> 'a list \<Rightarrow> 'a list" where
  "resize z n xs = take n xs @ replicate (n - length xs) z"

definition fill_buffer :: "'a list \<Rightarrow> 'a list \<Rightarrow> 'a list" where
  "fill_buffer w buf = take (length buf) w @ drop (length w) buf"

lemma length_resize [simp]: "length (resize z n xs) = n"
  by (simp add: resize_def)

lemma length_fill_buffer [simp]: "length (fill_buffer w buf) = length buf"
  by (simp add: fill_buffer_def)

section \<open>LlamaEngine helpers\<close>

definition tokenize_text :: "'k llama_api \<Rightarrow> string \<Rightarrow> bool \<Rightarrow> llama_token list option" where
  "tokenize_text api text add_special =
     (if \<not> llama_model_has_vocab api then None
      else let cap = length text + 16;
               (n, toks) = llama_tokenize api text cap add_special
           in if n < 0 then None
              else Some (resize 0 (nat n) (fill_buffer toks (replicate cap 0))))"

definition build_chat_delta_prompt :: "'k llama_api \<Rightarrow> Message list \<Rightarrow> Message list \<Rightarrow> string + string" where
  "build_chat_delta_prompt api hist incoming =
     (let tmpl = (case llama_model_chat_template api of None \<Rightarrow> ''chatml'' | Some t \<Rightarrow> t);
          prev_len = (if hist = [] then 0 else fst (llama_chat_apply_template api tmpl hist False));
          (new_len, text) = llama_chat_apply_template api tmpl (hist @ incoming) True
      in if prev_len < 0 then Inl ''chat template apply failed (prev)''
         else if new_len < 0 then Inl ''chat template apply failed (full)''
         else let formatted = fill_buffer text (replicate (nat new_len) (CHR 0x00));
                  prev = (if prev_len > new_len then 0 else prev_len)
              in Inr (drop (nat prev) (take (nat new_len) formatted)))"

definition token_to_piece :: "'k llama_api \<Rightarrow> llama_token \<Rightarrow> string" where
  "token_to_piece api tok =
     (let s = replicate 64 (CHR 0x00);
          (n, w) = llama_token_to_piece api tok 64
      in if n < 0 then []
         else if n > 64
         then (let s2 = resize (CHR 0x00) (nat n) (fill_buffer w s);
                   (n2, w2) = llama_token_to_piece api tok (nat n)
               in if n2 < 0 then [] else resize (CHR 0x00) (nat n2) (fill_buffer w2 s2))
         else resize (CHR 0x00) (nat n) (fill_buffer w s))"

definition batch_positions :: "int \<Rightarrow> nat \<Rightarrow> int list" where
  "batch_positions n0 len = map (\<lambda>i. n0 + int i) [0 ..< len]"

definition make_batch :: "llama_token list \<Rightarrow> int \<Rightarrow> (llama_token \<times> int \<times> bool) list" where
  "make_batch toks n0 =
     map (\<lambda>i. (toks ! i, n0 + int i, i = length toks - 1)) [0 ..< length toks]"

text \<open>
  \<open>decode_tokens\<close> on the model context \<open>r\<close>: an empty vector is a success without a call; on
  success the ghost trace records the positions.
\<close>

definition decode_tokens :: "'k llama_api \<Rightarrow> nat \<Rightarrow> llama_token list \<Rightarrow> ('w, 't, 'k) run_state
    \<Rightarrow> (bool \<times> ('w, 't, 'k) run_state) res" where
  "decode_tokens api r toks st =
     (case r_heap st r of
        None \<Rightarrow> Inl NullDeref
      | Some mc \<Rightarrow>
          (case mc_ctx mc of
             None \<Rightarrow> Inr (True, st)
           | Some k \<Rightarrow>
               if toks = [] then Inr (True, st)
               else let (rc, k') = llama_decode api k (make_batch toks (n_past mc));
                        st1 = st\<lparr>r_heap := (r_heap st)(r \<mapsto> mc\<lparr>mc_ctx := Some k'\<rparr>)\<rparr>
                    in if rc = 0
                       then Inr (True, st1\<lparr>r_trace := r_trace st1 @ [(r, batch_positions (n_past mc) (length toks))]\<rparr>)
                       else Inr (False, st1)))"

definition advance :: "nat \<Rightarrow> int \<Rightarrow> ('w, 't, 'k) run_state \<Rightarrow> ('w, 't, 'k) run_state" where
  "advance r d st = st\<lparr>r_heap := (r_heap st)(r := map_option (\<lambda>mc. mc\<lparr>n_past := n_past mc + d\<rparr>) (r_heap st r))\<rparr>"

definition CreateNewContext :: "'k llama_api \<Rightarrow> environ \<Rightarrow> 'k ModelContext option" where
  "CreateNewContext api e =
     (case llama_init_from_model api (get_env_int e ''LLAMA_N_CTX'' 4096) (get_env_int e ''LLAMA_N_THREADS'' 4)
             (get_env_int e ''LLAMA_N_THREADS_BATCH'' 4) of
        None \<Rightarrow> None
      | Some k \<Rightarrow> Some \<lparr>mc_ctx = Some k, mc_sampler = llama_sampler_init_greedy api, n_past = 0, initialized = True\<rparr>)"

definition assign_new_context :: "'k llama_api \<Rightarrow> environ \<Rightarrow> 't Session \<Rightarrow> ('w, 't, 'k) run_state
    \<Rightarrow> nat option \<times> ('w, 't, 'k) run_state" where
  "assign_new_context api e s st =
     (case CreateNewContext api e of
        None \<Rightarrow> (None, st\<lparr>r_session := Some (s\<lparr>model_ctx := None\<rparr>)\<rparr>)
      | Some mc \<Rightarrow>
          (Some (r_next st),
           st\<lparr>r_session := Some (s\<lparr>model_ctx := Some (r_next st)\<rparr>),
              r_heap := (r_heap st)(r_next st \<mapsto> mc), r_next := Suc (r_next st)\<rparr>))"

text \<open>\<open>model_ctx.reset()\<close> runs the destructor of the context, which frees the KV cache.\<close>

definition EnsureContext :: "'k llama_api \<Rightarrow> environ \<Rightarrow> 't Session \<Rightarrow> ('w, 't, 'k) run_state
    \<Rightarrow> (nat option \<times> ('w, 't, 'k) run_state) res" where
  "EnsureContext api e s st =
     (case model_ctx s of
        None \<Rightarrow> Inr (assign_new_context api e s st)
      | Some r \<Rightarrow>
          (case r_heap st r of
             None \<Rightarrow> Inl NullDeref
           | Some mc \<Rightarrow>
               (case mc_ctx mc of
                  None \<Rightarrow> Inl NullDeref
                | Some k \<Rightarrow>
                    if n_past mc > llama_n_ctx api k - get_env_int e ''KV_RESET_MARGIN'' 256
                    then Inr (assign_new_context api e s (st\<lparr>r_heap := (r_heap st)(r := None)\<rparr>))
                    else Inr (Some r, st))))"

section \<open>LlamaEngine::Run\<close>

definition stoi_or_512 :: "string \<Rightarrow> int" where
  "stoi_or_512 v = (case stoi v of Inr n \<Rightarrow> n | Inl _ \<Rightarrow> 512)"

definition max_new_tokens :: "environ \<Rightarrow> 'w ServingContext \<Rightarrow> nat" where
  "max_new_tokens e ctx =
     (let n = (case params ctx ''max_tokens'' of
                 Some v \<Rightarrow> stoi_or_512 v
               | None \<Rightarrow> (case e ''DEFAULT_MAX_TOKENS'' of Some v \<Rightarrow> stoi_or_512 v | None \<Rightarrow> 512))
      in nat (if n \<le> 0 then 1 else n))"

definition emit_piece :: "'w Callbacks \<Rightarrow> string \<Rightarrow> ('w, 't, 'k) run_state \<Rightarrow> ('w, 't, 'k) run_state" where
  "emit_piece cb piece st =
     (if piece = [] then st
      else let st1 = interfere st
           in if is_cancelled (r_ctx st1) then st1 else map_ctx (EmitDelta cb piece) st1)"

definition sample_token :: "'k llama_api \<Rightarrow> nat \<Rightarrow> ('w, 't, 'k) run_state \<Rightarrow> (llama_token \<times> ('w, 't, 'k) run_state) res" where
  "sample_token api r st =
     (case r_heap st r of
        None \<Rightarrow> Inl NullDeref
      | Some mc \<Rightarrow>
          (case mc_ctx mc of
             None \<Rightarrow> Inl NullDeref
           | Some k \<Rightarrow>
               let (tok, k') = llama_sampler_sample api k
               in Inr (tok, st\<lparr>r_heap := (r_heap st)(r \<mapsto> mc\<lparr>mc_ctx := Some k'\<rparr>)\<rparr>)))"

text \<open>One iteration of the generation loop, after its first cancellation point; \<open>k\<close> is the rest.\<close>

definition decode_step :: "'k llama_api \<Rightarrow> 'w Callbacks \<Rightarrow> nat \<Rightarrow> (('w, 't, 'k) run_state \<Rightarrow> ('w, 't, 'k) run_state res)
    \<Rightarrow> llama_token \<Rightarrow> ('w, 't, 'k) run_state \<Rightarrow> ('w, 't, 'k) run_state res" where
  "decode_step api cb r k tok st3 =
     rbind (decode_tokens api r [tok] st3) (\<lambda>(ok, st4).
       if \<not> ok then Inr (fail_run cb ''LlamaEngine: llama_decode failed (decode)'' st4)
       else unless_cancelled cb (\<lambda>st5. k (emit_piece cb (token_to_piece api tok) st5))
              (map_ctx add_completion (advance r 1 st4)))"

definition generate_step :: "'k llama_api \<Rightarrow> 'w Callbacks \<Rightarrow> nat \<Rightarrow> (('w, 't, 'k) run_state \<Rightarrow> ('w, 't, 'k) run_state res)
    \<Rightarrow> ('w, 't, 'k) run_state \<Rightarrow> ('w, 't, 'k) run_state res" where
  "generate_step api cb r k st1 =
     rbind (sample_token api r st1) (\<lambda>(tok, st2).
       if llama_vocab_is_eog api tok then Inr (finish_run cb Stop st2)
       else unless_cancelled cb (decode_step api cb r k tok) st2)"

fun generate :: "'k llama_api \<Rightarrow> 'w Callbacks \<Rightarrow> nat \<Rightarrow> nat \<Rightarrow> ('w, 't, 'k) run_state \<Rightarrow> ('w, 't, 'k) run_state res" where
  "generate api cb r 0 st = Inr (finish_run cb Length st)"
| "generate api cb r (Suc n) st = unless_cancelled cb (generate_step api cb r (generate api cb r n)) st"

definition prefill_and_generate :: "'k llama_api \<Rightarrow> environ \<Rightarrow> 'w Callbacks \<Rightarrow> nat \<Rightarrow> llama_token list
    \<Rightarrow> ('w, 't, 'k) run_state \<Rightarrow> ('w, 't, 'k) run_state res" where
  "prefill_and_generate api e cb r toks st =
     rbind (decode_tokens api r toks st) (\<lambda>(ok, st1).
       if \<not> ok then Inr (fail_run cb ''LlamaEngine: llama_decode failed (prefill)'' st1)
       else unless_cancelled cb (\<lambda>st2. generate api cb r (max_new_tokens e (r_ctx st2)) st2)
              (advance r (int (length toks)) st1))"

definition add_prompt_tokens :: "nat \<Rightarrow> 'w ServingContext \<Rightarrow> 'w ServingContext" where
  "add_prompt_tokens n ctx = ctx\<lparr>usage := (usage ctx)\<lparr>prompt_tokens := prompt_tokens (usage ctx) + int n\<rparr>\<rparr>"

definition tokenize_and_run :: "'k llama_api \<Rightarrow> environ \<Rightarrow> 'w Callbacks \<Rightarrow> nat \<Rightarrow> string
    \<Rightarrow> ('w, 't, 'k) run_state \<Rightarrow> ('w, 't, 'k) run_state res" where
  "tokenize_and_run api e cb r prm =
     unless_cancelled cb (\<lambda>st.
       case r_heap st r of
         None \<Rightarrow> Inl NullDeref
       | Some mc \<Rightarrow>
           (case tokenize_text api prm (n_past mc = 0) of
              None \<Rightarrow> Inr (fail_run cb ''LlamaEngine: tokenize failed'' st)
            | Some toks \<Rightarrow>
                unless_cancelled cb (prefill_and_generate api e cb r toks)
                  (map_ctx (add_prompt_tokens (length toks)) st)))"

definition chat_prompt :: "'k llama_api \<Rightarrow> ('w, 't, 'k) run_state \<Rightarrow> string + string" where
  "chat_prompt api st =
     (if is_chat (r_ctx st)
      then build_chat_delta_prompt api (case r_session st of None \<Rightarrow> [] | Some s \<Rightarrow> history s) (messages (r_ctx st))
      else Inr (prompt (r_ctx st)))"

definition context_ready :: "'k ModelContext \<Rightarrow> bool" where
  "context_ready mc = (mc_ctx mc \<noteq> None \<and> mc_sampler mc)"

text \<open>\<open>Run\<close> from the moment \<open>mc\<close> is known to be non-null.\<close>

definition run_with_context :: "'k llama_api \<Rightarrow> environ \<Rightarrow> 'w Callbacks \<Rightarrow> nat \<Rightarrow> ('w, 't, 'k) run_state
    \<Rightarrow> ('w, 't, 'k) run_state res" where
  "run_with_context api e cb r st =
     (case r_heap st r of
        None \<Rightarrow> Inl NullDeref
      | Some mc \<Rightarrow>
          if \<not> context_ready mc
          then Inr (fail_run cb ''LlamaEngine: failed to create session ModelContext'' st)
          else if \<not> llama_model_has_vocab api
          then Inr (fail_run cb ''LlamaEngine: vocab null'' st)
          else (case chat_prompt api st of
                  Inl err \<Rightarrow> Inr (fail_run cb (''LlamaEngine: '' @ err) st)
                | Inr prm \<Rightarrow> tokenize_and_run api e cb r prm st))"

definition run_in_session :: "'k llama_api \<Rightarrow> environ \<Rightarrow> 'w Callbacks \<Rightarrow> 't Session \<Rightarrow> ('w, 't, 'k) run_state
    \<Rightarrow> ('w, 't, 'k) run_state res" where
  "run_in_session api e cb s st1 =
     rbind (EnsureContext api e s st1) (\<lambda>(mr, st2).
       case mr of
         None \<Rightarrow> Inr (fail_run cb ''LlamaEngine: failed to create session ModelContext'' st2)
       | Some r \<Rightarrow> run_with_context api e cb r st2)"

definition LlamaEngine_Run :: "'k llama_api \<Rightarrow> environ \<Rightarrow> 'w Callbacks \<Rightarrow> ('w, 't, 'k) run_state
    \<Rightarrow> ('w, 't, 'k) run_state res" where
  "LlamaEngine_Run api e cb st =
     (case r_session st of
        None \<Rightarrow> Inr (fail_run cb ''LlamaEngine: ctx/session null'' st)
      | Some s \<Rightarrow> unless_cancelled cb (run_in_session api e cb s) st)"

section \<open>The invariant of the KV caches\<close>

definition positions_of :: "nat \<Rightarrow> (nat \<times> int list) list \<Rightarrow> int list" where
  "positions_of r tr = concat (map snd (filter (\<lambda>x. fst x = r) tr))"

definition context_ok :: "(nat \<times> int list) list \<Rightarrow> nat \<Rightarrow> 'k ModelContext \<Rightarrow> bool" where
  "context_ok tr r mc \<longleftrightarrow> mc_ctx mc \<noteq> None \<and> 0 \<le> n_past mc \<and> positions_of r tr = batch_positions 0 (nat (n_past mc))"

text \<open>
  Every live context has its llama context, and the positions decoded into it since it was created
  are exactly 0, 1, ..., \<open>n_past\<close> - 1; the session's context, if any, is live.
\<close>

definition kv_ok :: "('w, 't, 'k) run_state \<Rightarrow> bool" where
  "kv_ok st \<longleftrightarrow> (\<forall>r mc. r_heap st r = Some mc \<longrightarrow> r < r_next st \<and> context_ok (r_trace st) r mc)
     \<and> (\<forall>x \<in> set (r_trace st). fst x < r_next st)
     \<and> (\<forall>s r. r_session st = Some s \<and> model_ctx s = Some r \<longrightarrow> r_heap st r \<noteq> None)"

text \<open>What the stages of a run keep: everything except the request, the interference and one context.\<close>

lemma kv_ok_cong:
  "r_heap a = r_heap b \<Longrightarrow> r_next a = r_next b \<Longrightarrow> r_trace a = r_trace b \<Longrightarrow> r_session a = r_session b
   \<Longrightarrow> kv_ok a = kv_ok b"
  by (simp add: kv_ok_def)

lemma interfere_fields [simp]:
  "r_heap (interfere st) = r_heap st" "r_next (interfere st) = r_next st" "r_trace (interfere st) = r_trace st"
  "r_session (interfere st) = r_session st"
  by (simp_all add: interfere_def split: list.splits)

lemma map_ctx_fields [simp]:
  "r_heap (map_ctx f st) = r_heap st" "r_next (map_ctx f st) = r_next st" "r_trace (map_ctx f st) = r_trace st"
  "r_session (map_ctx f st) = r_session st" "r_ctx (map_ctx f st) = f (r_ctx st)"
  by (simp_all add: map_ctx_def)

lemma finish_run_fields [simp]:
  "r_heap (finish_run cb r st) = r_heap st" "r_next (finish_run cb r st) = r_next st"
  "r_trace (finish_run cb r st) = r_trace st" "r_session (finish_run cb r st) = r_session st"
  by (simp_all add: finish_run_def)

lemma fail_run_fields [simp]:
  "r_heap (fail_run cb m st) = r_heap st" "r_next (fail_run cb m st) = r_next st"
  "r_trace (fail_run cb m st) = r_trace st" "r_session (fail_run cb m st) = r_session st"
  by (simp_all add: fail_run_def)

lemma emit_piece_fields [simp]:
  "r_heap (emit_piece cb p st) = r_heap st" "r_next (emit_piece cb p st) = r_next st"
  "r_trace (emit_piece cb p st) = r_trace st" "r_session (emit_piece cb p st) = r_session st"
  by (simp_all add: emit_piece_def Let_def)

lemma kv_ok_frame [simp]:
  "kv_ok (interfere st) = kv_ok st" "kv_ok (map_ctx f st) = kv_ok st" "kv_ok (finish_run cb r st) = kv_ok st"
  "kv_ok (fail_run cb m st) = kv_ok st" "kv_ok (emit_piece cb p st) = kv_ok st"
  by (rule kv_ok_cong; simp)+

lemma batch_positions_append:
  "batch_positions 0 (nat n) @ batch_positions n k = batch_positions 0 (nat (n + int k))" if "0 \<le> n"
  using that by (auto simp: batch_positions_def nat_add_distrib intro!: nth_equalityI simp: nth_append)

lemma positions_of_append: "positions_of r (tr @ [(q, ps)]) = positions_of r tr @ (if q = r then ps else [])"
  by (simp add: positions_of_def)

lemma kv_ok_heapD: "kv_ok st \<Longrightarrow> r_heap st r = Some mc \<Longrightarrow> r < r_next st \<and> context_ok (r_trace st) r mc"
  by (simp add: kv_ok_def)

text \<open>Replacing a live context and extending the trace by positions decoded into it.\<close>

lemma kv_ok_update:
  assumes "kv_ok st" "r_heap st r \<noteq> None" "context_ok (r_trace st @ tr) r mc" "\<forall>x \<in> set tr. fst x = r"
  shows "kv_ok (st\<lparr>r_trace := r_trace st @ tr, r_heap := (r_heap st)(r \<mapsto> mc)\<rparr>)"
proof -
  have other: "positions_of q (r_trace st @ tr) = positions_of q (r_trace st)" if "q \<noteq> r" for q
    using that assms(4) by (auto simp: positions_of_def filter_empty_conv)
  from assms(2) obtain mc0 where "r_heap st r = Some mc0" by blast
  with assms(1) have "r < r_next st" by (simp add: kv_ok_heapD)
  with assms other show ?thesis by (auto simp: kv_ok_def context_ok_def)
qed

lemma kv_ok_update_same:
  assumes "kv_ok st" "r_heap st r = Some mc"
  shows "kv_ok (st\<lparr>r_heap := (r_heap st)(r \<mapsto> mc\<lparr>mc_ctx := Some k\<rparr>)\<rparr>)"
  using kv_ok_update [of st r "[]" "mc\<lparr>mc_ctx := Some k\<rparr>"] kv_ok_heapD [OF assms] assms
  by (simp add: context_ok_def)

lemma decode_tokens_ok:
  assumes "kv_ok st" "r_heap st r \<noteq> None"
  shows "\<exists>ok st'. decode_tokens api r toks st = Inr (ok, st') \<and> r_heap st' r \<noteq> None
    \<and> (ok \<longrightarrow> kv_ok (advance r (int (length toks)) st')) \<and> (\<not> ok \<longrightarrow> kv_ok st')"
proof -
  obtain mc where mc: "r_heap st r = Some mc" using assms(2) by blast
  then have cok: "context_ok (r_trace st) r mc" using kv_ok_heapD [OF assms(1)] by blast
  then obtain k where k: "mc_ctx mc = Some k" by (auto simp: context_ok_def)
  show ?thesis
  proof (cases "toks = []")
    case True
    have "advance r 0 st = st" using mc by (simp add: advance_def fun_upd_idem)
    with True mc k assms show ?thesis by (intro exI [of _ True]) (simp add: decode_tokens_def)
  next
    case False
    obtain rc k' where d: "llama_decode api k (make_batch toks (n_past mc)) = (rc, k')" by fastforce
    show ?thesis
    proof (cases "rc = 0")
      case True
      let ?ps = "batch_positions (n_past mc) (length toks)"
      let ?mc = "mc\<lparr>mc_ctx := Some k', n_past := n_past mc + int (length toks)\<rparr>"
      have "context_ok (r_trace st @ [(r, ?ps)]) r ?mc"
        using cok by (simp add: context_ok_def positions_of_append batch_positions_append)
      from kv_ok_update [OF assms this] have "kv_ok (st\<lparr>r_trace := r_trace st @ [(r, ?ps)], r_heap := (r_heap st)(r \<mapsto> ?mc)\<rparr>)"
        by simp
      with True mc k d False show ?thesis by (intro exI [of _ True]) (simp add: decode_tokens_def advance_def)
    next
      case rc: False
      with mc k d False kv_ok_update_same [OF assms(1) mc] show ?thesis
        by (intro exI [of _ False]) (simp add: decode_tokens_def)
    qed
  qed
qed

lemma advance_live [simp]:
  "r_heap (advance r d st) r = map_option (\<lambda>mc. mc\<lparr>n_past := n_past mc + d\<rparr>) (r_heap st r)"
  by (simp add: advance_def)

lemma sample_token_ok:
  assumes "kv_ok st" "r_heap st r \<noteq> None"
  shows "\<exists>tok st'. sample_token api r st = Inr (tok, st') \<and> kv_ok st' \<and> r_heap st' r \<noteq> None"
proof -
  obtain mc where mc: "r_heap st r = Some mc" using assms(2) by blast
  then obtain k where k: "mc_ctx mc = Some k" using kv_ok_heapD [OF assms(1)] by (auto simp: context_ok_def)
  obtain tok k' where "llama_sampler_sample api k = (tok, k')" by fastforce
  with mc k kv_ok_update_same [OF assms(1) mc] show ?thesis by (simp add: sample_token_def)
qed

lemma kv_ok_drop:
  assumes "kv_ok st" "r_session st = Some s"
  shows "kv_ok (st\<lparr>r_heap := (r_heap st)(r := None), r_session := Some (s\<lparr>model_ctx := None\<rparr>)\<rparr>)"
  using assms by (auto simp: kv_ok_def)

lemma assign_new_context_ok:
  assumes "kv_ok (st\<lparr>r_session := Some (s\<lparr>model_ctx := None\<rparr>)\<rparr>)"
  shows "\<exists>mr st'. assign_new_context api e s st = (mr, st') \<and> kv_ok st' \<and> (\<forall>r. mr = Some r \<longrightarrow> r_heap st' r \<noteq> None)"
proof (cases "CreateNewContext api e")
  case None
  with assms show ?thesis by (simp add: assign_new_context_def)
next
  case (Some mc)
  then have "mc_ctx mc \<noteq> None" "n_past mc = 0" by (auto simp: CreateNewContext_def split: option.splits)
  moreover have "positions_of (r_next st) (r_trace st) = []"
    using assms by (auto simp: kv_ok_def positions_of_def filter_empty_conv)
  ultimately have "context_ok (r_trace st) (r_next st) mc" by (simp add: context_ok_def batch_positions_def)
  with Some assms show ?thesis
    by (auto simp: assign_new_context_def kv_ok_def less_SucI dest!: bspec)
qed

lemma EnsureContext_ok:
  assumes "kv_ok st" "r_session st = Some s"
  shows "\<exists>mr st'. EnsureContext api e s st = Inr (mr, st') \<and> kv_ok st' \<and> (\<forall>r. mr = Some r \<longrightarrow> r_heap st' r \<noteq> None)"
proof (cases "model_ctx s")
  case None
  then have "st\<lparr>r_session := Some (s\<lparr>model_ctx := None\<rparr>)\<rparr> = st" using assms(2) by simp
  then show ?thesis using None assms(1) assign_new_context_ok [where st = st and s = s]
    by (auto simp: EnsureContext_def)
next
  case (Some r)
  then obtain mc where mc: "r_heap st r = Some mc" using assms by (auto simp: kv_ok_def)
  then obtain k where "mc_ctx mc = Some k" using kv_ok_heapD [OF assms(1)] by (auto simp: context_ok_def)
  with Some mc assms(1) kv_ok_drop [OF assms, of r]
    assign_new_context_ok [where st = "st\<lparr>r_heap := (r_heap st)(r := None)\<rparr>" and s = s]
  show ?thesis by (auto simp: EnsureContext_def)
qed

section \<open>Every run finishes the request\<close>

definition run_done :: "('w, 't, 'k) run_state \<Rightarrow> bool" where
  "run_done st \<longleftrightarrow> finished (r_ctx st) \<and> kv_ok st
     \<and> total_tokens (usage (r_ctx st)) = prompt_tokens (usage (r_ctx st)) + completion_tokens (usage (r_ctx st))"

definition returns_done :: "('w, 't, 'k) run_state res \<Rightarrow> bool" where
  "returns_done x \<longleftrightarrow> (\<exists>st. x = Inr st \<and> run_done st)"

context well_behaved_callbacks
begin

lemma finish_run_done: "kv_ok st \<Longrightarrow> returns_done (Inr (finish_run cb r st))"
  using EmitFinish_request [of r "finalize_usage (r_ctx st)"]
  by (simp add: returns_done_def run_done_def finish_run_def finalize_usage_def same_request_def)

lemma fail_run_done: "kv_ok st \<Longrightarrow> returns_done (Inr (fail_run cb m st))"
  unfolding fail_run_def by (rule finish_run_done) simp

lemma unless_cancelled_done:
  assumes "kv_ok st"
    and "\<And>st1. kv_ok st1 \<Longrightarrow> r_heap st1 = r_heap st \<Longrightarrow> r_session st1 = r_session st \<Longrightarrow> returns_done (k st1)"
  shows "returns_done (unless_cancelled cb k st)"
  using assms finish_run_done [of "interfere st"] by (simp add: unless_cancelled_def Let_def)

lemma dummy_loop_done: "kv_ok st \<Longrightarrow> returns_done (dummy_loop cb n st)"
  by (induction n arbitrary: st) (auto intro!: finish_run_done unless_cancelled_done)

lemma decode_step_done:
  assumes "kv_ok st" "r_heap st r \<noteq> None"
    and "\<And>st1. kv_ok st1 \<Longrightarrow> r_heap st1 r \<noteq> None \<Longrightarrow> returns_done (k st1)"
  shows "returns_done (decode_step api cb r k tok st)"
proof -
  from decode_tokens_ok [OF assms(1,2), of api "[tok]"] obtain ok st1 where
    d: "decode_tokens api r [tok] st = Inr (ok, st1)" "r_heap st1 r \<noteq> None"
      "ok \<Longrightarrow> kv_ok (advance r 1 st1)" "\<not> ok \<Longrightarrow> kv_ok st1" by auto
  show ?thesis
  proof (cases ok)
    case True
    with d have "returns_done (unless_cancelled cb (\<lambda>st5. k (emit_piece cb p st5))
        (map_ctx add_completion (advance r 1 st1)))" for p
      by (intro unless_cancelled_done assms(3)) auto
    with True d(1) show ?thesis by (simp add: decode_step_def)
  next
    case False
    with d show ?thesis by (simp add: decode_step_def fail_run_done)
  qed
qed

lemma generate_step_done:
  assumes "kv_ok st" "r_heap st r \<noteq> None"
    and "\<And>st1. kv_ok st1 \<Longrightarrow> r_heap st1 r \<noteq> None \<Longrightarrow> returns_done (k st1)"
  shows "returns_done (generate_step api cb r k st)"
proof -
  from sample_token_ok [OF assms(1,2), of api] obtain tok st1 where
    s: "sample_token api r st = Inr (tok, st1)" "kv_ok st1" "r_heap st1 r \<noteq> None" by blast
  have "returns_done (unless_cancelled cb (decode_step api cb r k tok) st1)"
    using s assms(3) by (intro unless_cancelled_done decode_step_done) auto
  with s finish_run_done [OF s(2)] show ?thesis by (simp add: generate_step_def)
qed

lemma generate_done:
  assumes "kv_ok st" "r_heap st r \<noteq> None"
  shows "returns_done (generate api cb r n st)"
  using assms
proof (induction n arbitrary: st)
  case 0
  then show ?case by (simp add: finish_run_done)
next
  case (Suc n)
  then show ?case
    unfolding generate.simps by (intro unless_cancelled_done generate_step_done) auto
qed

lemma prefill_and_generate_done:
  assumes "kv_ok st" "r_heap st r \<noteq> None"
  shows "returns_done (prefill_and_generate api e cb r toks st)"
proof -
  from decode_tokens_ok [OF assms, of api toks] obtain ok st1 where
    d: "decode_tokens api r toks st = Inr (ok, st1)" "r_heap st1 r \<noteq> None"
      "ok \<Longrightarrow> kv_ok (advance r (int (length toks)) st1)" "\<not> ok \<Longrightarrow> kv_ok st1" by auto
  show ?thesis
  proof (cases ok)
    case True
    with d have "returns_done (unless_cancelled cb (\<lambda>st2. generate api cb r (max_new_tokens e (r_ctx st2)) st2)
        (advance r (int (length toks)) st1))"
      by (intro unless_cancelled_done generate_done) auto
    with True d(1) show ?thesis by (simp add: prefill_and_generate_def)
  next
    case False
    with d show ?thesis by (simp add: prefill_and_generate_def fail_run_done)
  qed
qed

lemma tokenize_and_run_done:
  assumes "kv_ok st" "r_heap st r \<noteq> None"
  shows "returns_done (tokenize_and_run api e cb r prm st)"
  unfolding tokenize_and_run_def
proof (rule unless_cancelled_done [OF assms(1)], goal_cases)
  case (1 st1)
  then obtain mc where "r_heap st1 r = Some mc" using assms(2) by auto
  with 1 show ?case
    by (auto split: option.split intro!: fail_run_done unless_cancelled_done prefill_and_generate_done)
qed

lemma run_with_context_done:
  assumes "kv_ok st" "r_heap st r \<noteq> None"
  shows "returns_done (run_with_context api e cb r st)"
  using assms
  by (auto simp: run_with_context_def split: sum.split intro!: fail_run_done tokenize_and_run_done)

lemma run_in_session_done:
  assumes "kv_ok st" "r_session st = Some s"
  shows "returns_done (run_in_session api e cb s st)"
proof -
  from EnsureContext_ok [OF assms, of api e] obtain mr st2 where
    ec: "EnsureContext api e s st = Inr (mr, st2)" "kv_ok st2" "\<forall>r. mr = Some r \<longrightarrow> r_heap st2 r \<noteq> None" by blast
  then show ?thesis
    by (cases mr) (auto simp: run_in_session_def intro!: fail_run_done run_with_context_done)
qed

lemma LlamaEngine_Run_done: "kv_ok st \<Longrightarrow> returns_done (LlamaEngine_Run api e cb st)"
  by (cases "r_session st")
     (auto simp: LlamaEngine_Run_def intro!: fail_run_done unless_cancelled_done run_in_session_done)

lemma DummyEngine_Run_done: "kv_ok st \<Longrightarrow> returns_done (DummyEngine_Run cb st)"
  by (simp add: DummyEngine_Run_def dummy_loop_done del: dummy_loop.simps)

end

section \<open>EngineFactory\<close>

text \<open>
  Engines are shared objects; the number is the identity of the object.  The constructor of
  \<open>LlamaEngine\<close> asserts that the model file loads, which is up to the library.
\<close>

datatype Engine = Llama nat string | Dummy nat string

definition GetEnvOrDefault :: "environ \<Rightarrow> string \<Rightarrow> string \<Rightarrow> string" where
  "GetEnvOrDefault e name fallback = (case getenv_nonempty e name of Some v \<Rightarrow> v | None \<Rightarrow> fallback)"

definition default_model_path :: string where
  "default_model_path = ''/home/dongsong/workspace/llm_MultimodalServer/llm_MultimodalServer/models/qwen2.5-1.5b/qwen2.5-1.5b-instruct-q4_0.gguf''"

definition CreateNewEngine :: "environ \<Rightarrow> (string \<Rightarrow> bool) \<Rightarrow> nat \<Rightarrow> string \<Rightarrow> Engine option res" where
  "CreateNewEngine e model_loads fresh model =
     (if model = ''llama''
      then (let path = GetEnvOrDefault e ''LLAMA_MODEL_PATH'' default_model_path
            in if model_loads path then Inr (Some (Llama fresh path)) else Inl AssertFailed)
      else if model = ''dummy'' then Inr (Some (Dummy fresh ''Hello''))
      else Inr None)"

text \<open>
  \<open>Create\<close> releases the lock while it builds the engine; \<open>between\<close> is what other threads do to the
  cache meanwhile.
\<close>

definition EngineFactory_Create :: "environ \<Rightarrow> (string \<Rightarrow> bool) \<Rightarrow> nat \<Rightarrow> ((string \<rightharpoonup> Engine) \<Rightarrow> (string \<rightharpoonup> Engine))
    \<Rightarrow> string \<Rightarrow> (string \<rightharpoonup> Engine) \<Rightarrow> (Engine option \<times> (string \<rightharpoonup> Engine)) res" where
  "EngineFactory_Create e model_loads fresh between model cache =
     (case cache model of
        Some eng \<Rightarrow> Inr (Some eng, cache)
      | None \<Rightarrow>
          rbind (CreateNewEngine e model_loads fresh model) (\<lambda>new.
            let cache1 = between cache
            in case new of
                 None \<Rightarrow> Inr (None, cache1)
               | Some eng \<Rightarrow>
                   (case cache1 model of
                      Some old \<Rightarrow> Inr (Some old, cache1)
                    | None \<Rightarrow> Inr (Some eng, cache1(model \<mapsto> eng)))))"

definition ClearCache :: "(string \<rightharpoonup> Engine) \<Rightarrow> (string \<rightharpoonup> Engine)" where
  "ClearCache cache = Map.empty"

section \<open>Properties\<close>


definition no_callbacks :: "unit Callbacks" where
  "no_callbacks = \<lparr>on_chunk = None, on_finish = None\<rparr>"

interpretation no_cb: well_behaved_callbacks no_callbacks
  by unfold_locales (simp_all add: no_callbacks_def)

text \<open>A library whose decoding always succeeds and that ends the text after three tokens.\<close>

definition sample_api :: "nat llama_api" where
  "sample_api = \<lparr>llama_init_from_model = (\<lambda>_ _ _. Some 0), llama_sampler_init_greedy = True,
     llama_n_ctx = (\<lambda>_. 4096), llama_model_has_vocab = True, llama_model_chat_template = None,
     llama_chat_apply_template = (\<lambda>_ ms _. (int (length ms), replicate (length ms) CHR ''x'')),
     llama_tokenize = (\<lambda>t _ _. (int (length t), replicate (length t) 5)),
     llama_decode = (\<lambda>k b. (0, k + length b)), llama_sampler_sample = (\<lambda>k. (int k, k)),
     llama_vocab_is_eog = (\<lambda>t. t > 4), llama_token_to_piece = (\<lambda>t _. (1, ''y''))\<rparr>"

definition sample_run :: "(unit, unit, nat) run_state" where
  "sample_run = \<lparr>r_ctx = (new_context ())\<lparr>prompt := ''hi''\<rparr>, r_session = Some (new_Session ''s'' ''llama'' 0 0),
     r_heap = Map.empty, r_next = 0, r_others = [], r_trace = []\<rparr>"


lemma dummy_loop_text:
  assumes "on_chunk cb = None" "on_finish cb = None" "r_others st = []"
    "\<not> is_cancelled (r_ctx st)" "\<not> finished (r_ctx st)"
  shows "\<exists>st'. dummy_loop cb n st = Inr st' \<and> finish_reason (r_ctx st') = Stop
    \<and> final_text (r_ctx st') = final_text (r_ctx st) @ concat (replicate n ''hello '')
    \<and> completion_tokens (usage (r_ctx st')) = completion_tokens (usage (r_ctx st)) + int n"
  using assms(3-)
proof (induction n arbitrary: st)
  case 0
  then show ?case
    by (simp add: finish_run_def EmitFinish_def call_on_chunk_def call_on_finish_def assms(1,2) finalize_usage_def)
next
  case (Suc n)
  let ?f = "\<lambda>ctx. add_completion (EmitDelta cb ''hello '' ctx)"
  have inter: "interfere st = st" using Suc.prems(1) by (simp add: interfere_def)
  have "EmitDelta cb ''hello '' (r_ctx st) = (r_ctx st)\<lparr>final_text := final_text (r_ctx st) @ ''hello ''\<rparr>"
    using Suc.prems by (simp add: EmitDelta_def call_on_chunk_def assms(1))
  then have f: "\<not> is_cancelled (?f (r_ctx st))" "\<not> finished (?f (r_ctx st))"
    "final_text (?f (r_ctx st)) = final_text (r_ctx st) @ ''hello ''"
    "completion_tokens (usage (?f (r_ctx st))) = completion_tokens (usage (r_ctx st)) + 1"
    using Suc.prems by (simp_all add: add_completion_def)
  have "r_others (map_ctx ?f st) = []" using Suc.prems(1) by (simp add: map_ctx_def)
  from Suc.IH [OF this] f obtain st' where "dummy_loop cb n (map_ctx ?f st) = Inr st'"
    "finish_reason (r_ctx st') = Stop"
    "final_text (r_ctx st') = final_text (r_ctx st) @ ''hello '' @ concat (replicate n ''hello '')"
    "completion_tokens (usage (r_ctx st')) = completion_tokens (usage (r_ctx st)) + 1 + int n"
    by auto
  then show ?case using inter Suc.prems by (simp add: unless_cancelled_def)
qed

text \<open>
  An undisturbed \<open>DummyEngine::Run\<close> on an unfinished request without callbacks appends
  twenty times "hello " to the answer, counts twenty completion tokens and finishes with \<open>stop\<close>.
\<close>

theorem dummy_engine_text:
  assumes "on_chunk cb = None" "on_finish cb = None" "r_others st = []"
    "\<not> is_cancelled (r_ctx st)" "\<not> finished (r_ctx st)"
  shows "\<exists>st'. DummyEngine_Run cb st = Inr st' \<and> finish_reason (r_ctx st') = Stop
    \<and> final_text (r_ctx st') = final_text (r_ctx st) @ concat (replicate 20 ''hello '')
    \<and> completion_tokens (usage (r_ctx st')) = completion_tokens (usage (r_ctx st)) + 20"
  using dummy_loop_text [OF assms, of 20] by (simp only: DummyEngine_Run_def of_nat_numeral)

theorem dummy_engine_text_witness:
  "\<exists>st'. DummyEngine_Run no_callbacks sample_run = Inr st' \<and> finish_reason (r_ctx st') = Stop
     \<and> completion_tokens (usage (r_ctx st')) = 20"
proof -
  have "on_chunk no_callbacks = None" "on_finish no_callbacks = None" "r_others sample_run = []"
    "\<not> is_cancelled (r_ctx sample_run)" "\<not> finished (r_ctx sample_run)"
    "completion_tokens (usage (r_ctx sample_run)) = 0"
    by (simp_all add: no_callbacks_def sample_run_def new_context_def)
  with dummy_engine_text [of no_callbacks sample_run] show ?thesis by auto
qed

text \<open>
  \<open>EngineFactory::Create\<close> never replaces an engine that is in the cache, even one another
  thread put there while this one was being built: a non-null result is what the cache holds for
  the model afterwards, and an entry present after the unlocked section is still there.
\<close>

theorem engine_cache_is_stable:
  assumes "EngineFactory_Create e model_loads fresh between model cache = Inr (Some eng, cache')"
  shows "cache' model = Some eng
    \<and> (cache model = None \<longrightarrow> (\<forall>m old. between cache m = Some old \<longrightarrow> cache' m = Some old))
    \<and> (cache model \<noteq> None \<longrightarrow> cache' = cache \<and> cache model = Some eng)"
proof (cases "cache model")
  case (Some old)
  with assms show ?thesis by (simp add: EngineFactory_Create_def)
next
  case None
  with assms obtain new where new: "CreateNewEngine e model_loads fresh model = Inr (Some new)"
    by (auto simp: EngineFactory_Create_def Let_def split: option.splits)
  with None assms show ?thesis
    by (cases "between cache model") (auto simp: EngineFactory_Create_def)
qed

theorem engine_cache_is_stable_witness:
  "\<exists>cache'. EngineFactory_Create Map.empty (\<lambda>_. True) 7 (\<lambda>c. c(''dummy'' \<mapsto> Dummy 3 ''Hello'')) ''dummy'' Map.empty
      = Inr (Some (Dummy 3 ''Hello''), cache') \<and> cache' ''dummy'' = Some (Dummy 3 ''Hello'')"
proof -
  have "EngineFactory_Create Map.empty (\<lambda>_. True) 7 (\<lambda>c. c(''dummy'' \<mapsto> Dummy 3 ''Hello'')) ''dummy'' Map.empty
      = Inr (Some (Dummy 3 ''Hello''), Map.empty(''dummy'' \<mapsto> Dummy 3 ''Hello''))"
    by (simp add: EngineFactory_Create_def CreateNewEngine_def)
  with engine_cache_is_stable [OF this] show ?thesis by blast
qed

end
