(* ===== verification/Engine_Executor.thy ===== *)
theory Engine_Executor
  imports Executors Engines
begin

text \<open>
  \<open>EngineExecutor::Execute\<close> of \<open>serving/core/EngineExecutor.cc\<close>: the admission of a request to its
  model's queue, and the closure that the queue later runs: the checks, the choice of the engine,
  the run and the fallback that finishes a request its engine has left open.
\<close>

section \<open>The queued closure\<close>

record exec_task =
  t_ctx :: nat
  enqueued_at :: int
  max_queue_wait_ms :: int

record engine_maps =
  engines :: "string \<rightharpoonup> Engine"
  g_cache :: "string \<rightharpoonup> Engine"

text \<open>What the closure needs from outside: the environment, whether a model file loads, the identity of
  a newly built object, and what other threads do to the factory's cache while one is being built.\<close>

record exec_env =
  x_env :: environ
  x_loads :: "string \<Rightarrow> bool"
  x_fresh :: nat
  x_between :: "(string \<rightharpoonup> Engine) \<Rightarrow> (string \<rightharpoonup> Engine)"

definition engine_slot :: "exec_env \<Rightarrow> string \<Rightarrow> engine_maps \<Rightarrow> (Engine option \<times> engine_maps) res" where
  "engine_slot x model ms =
     (case engines ms model of
        Some eng \<Rightarrow> Inr (Some eng, ms)
      | None \<Rightarrow>
          rbind (EngineFactory_Create (x_env x) (x_loads x) (x_fresh x) (x_between x) model (g_cache ms))
            (\<lambda>(eng, cache). Inr (eng, ms\<lparr>engines := (engines ms)(model := eng), g_cache := cache\<rparr>)))"

definition Engine_Run :: "'k llama_api \<Rightarrow> environ \<Rightarrow> 'w Callbacks \<Rightarrow> Engine \<Rightarrow> ('w, 't, 'k) run_state
    \<Rightarrow> ('w, 't, 'k) run_state res" where
  "Engine_Run api e cb eng st =
     (case eng of Llama _ _ \<Rightarrow> LlamaEngine_Run api e cb st | Dummy _ _ \<Rightarrow> DummyEngine_Run cb st)"

definition set_overloaded :: "string \<Rightarrow> 'w ServingContext \<Rightarrow> 'w ServingContext" where
  "set_overloaded msg ctx = ctx\<lparr>error_message := msg, params := (params ctx)(''error_code'' \<mapsto> ''overloaded'')\<rparr>"

text \<open>The fallback after \<open>engine->Run(ctx)\<close>.\<close>

definition finish_if_open :: "'w Callbacks \<Rightarrow> ('w, 't, 'k) run_state \<Rightarrow> ('w, 't, 'k) run_state" where
  "finish_if_open cb st =
     (if finished (r_ctx st) then st
      else let st1 = interfere st
           in map_ctx (EmitFinish cb (if is_cancelled (r_ctx st1) then Cancelled else Stop)) st1)"

definition run_task :: "'k llama_api \<Rightarrow> exec_env \<Rightarrow> 'w Callbacks \<Rightarrow> exec_task \<Rightarrow> int
    \<Rightarrow> ('w, 't, 'k) run_state \<times> engine_maps \<Rightarrow> (('w, 't, 'k) run_state \<times> engine_maps) res" where
  "run_task api x cb task start_at = (\<lambda>(st, ms).
     if finished (r_ctx st) then Inr (st, ms)
     else let st1 = interfere st
          in if is_cancelled (r_ctx st1) then Inr (map_ctx (EmitFinish cb Cancelled) st1, ms)
             else if max_queue_wait_ms task > 0 \<and> start_at - enqueued_at task > max_queue_wait_ms task
             then Inr (map_ctx (\<lambda>ctx. EmitFinish cb Error (set_overloaded ''EngineExecutor: queue wait timeout'' ctx)) st1, ms)
             else rbind (engine_slot x (ctx_model (r_ctx st1)) ms) (\<lambda>(eng, ms1).
               case eng of
                 None \<Rightarrow>
                   Inr (map_ctx (\<lambda>ctx. EmitFinish cb Error (ctx\<lparr>error_message :=
                          ''EngineExecutor: EngineFactory::Create failed, model='' @ ctx_model ctx\<rparr>)) st1, ms1)
               | Some g \<Rightarrow>
                   rbind (Engine_Run api (x_env x) cb g st1) (\<lambda>st2. Inr (finish_if_open cb st2, ms1))))"

section \<open>Admission\<close>

text \<open>
  \<open>Execute\<close> on a non-null context: the result is the returned flag, whether a drain has to be posted,
  the context and the model's queue.
\<close>

definition Execute :: "environ \<Rightarrow> 'w Callbacks \<Rightarrow> int \<Rightarrow> nat \<Rightarrow> 'w ServingContext \<Rightarrow> exec_task ModelQueue
    \<Rightarrow> bool \<times> bool \<times> 'w ServingContext \<times> exec_task ModelQueue" where
  "Execute e cb now ref ctx mq =
     (if finished ctx then (False, False, ctx, mq)
      else let wait = get_env_int e ''MAX_QUEUE_WAIT_MS'' 2000;
               max_model_queue = get_env_int e ''MAX_MODEL_QUEUE'' 64;
               (ok, need, mq1) = SubmitPerModel (nat max_model_queue)
                 \<lparr>t_ctx = ref, enqueued_at = now, max_queue_wait_ms = wait\<rparr> mq
           in if \<not> ok
              then (False, False,
                    EmitFinish cb Error (set_overloaded (''EngineExecutor: model queue full, model='' @ ctx_model ctx) ctx), mq1)
              else (True, need, ctx, mq1))"

section \<open>Every admitted request is finished\<close>

lemma engine_slot_ok:
  assumes "x_loads x (GetEnvOrDefault (x_env x) ''LLAMA_MODEL_PATH'' default_model_path)"
  shows "\<exists>eng ms'. engine_slot x model ms = Inr (eng, ms')"
  using assms
  by (auto simp: engine_slot_def EngineFactory_Create_def CreateNewEngine_def Let_def split: option.splits)

context well_behaved_callbacks
begin

lemma Engine_Run_done: "kv_ok st \<Longrightarrow> returns_done (Engine_Run api e cb g st)"
  by (cases g) (simp_all add: Engine_Run_def LlamaEngine_Run_done DummyEngine_Run_done)

lemma run_task_finishes:
  assumes "kv_ok st" "x_loads x (GetEnvOrDefault (x_env x) ''LLAMA_MODEL_PATH'' default_model_path)"
  shows "\<exists>st' ms'. run_task api x cb task t (st, ms) = Inr (st', ms') \<and> finished (r_ctx st') \<and> kv_ok st'"
proof -
  let ?st = "interfere st"
  obtain eng ms1 where slot: "engine_slot x (ctx_model (r_ctx ?st)) ms = Inr (eng, ms1)"
    using engine_slot_ok [OF assms(2)] by blast
  show ?thesis
  proof (cases eng)
    case None
    then show ?thesis using assms(1) slot by (auto simp: run_task_def Let_def)
  next
    case (Some g)
    have "returns_done (Engine_Run api (x_env x) cb g ?st)" using assms(1) by (simp add: Engine_Run_done)
    then obtain st2 where "Engine_Run api (x_env x) cb g ?st = Inr st2" "finished (r_ctx st2)" "kv_ok st2"
      by (auto simp: returns_done_def run_done_def)
    then show ?thesis using Some assms(1) slot by (auto simp: run_task_def Let_def finish_if_open_def)
  qed
qed

end

section \<open>Properties\<close>


definition sample_env :: exec_env where
  "sample_env = \<lparr>x_env = Map.empty, x_loads = (\<lambda>_. True), x_fresh = 0, x_between = id\<rparr>"

definition sample_task :: exec_task where
  "sample_task = \<lparr>t_ctx = 0, enqueued_at = 0, max_queue_wait_ms = 2000\<rparr>"


text \<open>
  A task that starts more than the configured time after it was queued does not reach an
  engine: the open, uncancelled request is finished with an error, the error code \<open>overloaded\<close>,
  and the engine maps are unchanged.
\<close>

theorem queue_timeout_rejects:
  assumes "well_behaved_callbacks cb" "\<not> finished (r_ctx st)" "r_others st = []" "\<not> is_cancelled (r_ctx st)"
    and "max_queue_wait_ms task > 0" "start_at - enqueued_at task > max_queue_wait_ms task"
  shows "\<exists>st'. run_task api x cb task start_at (st, ms) = Inr (st', ms) \<and> finished (r_ctx st')
    \<and> finish_reason (r_ctx st') = Error \<and> error_message (r_ctx st') = ''EngineExecutor: queue wait timeout''
    \<and> params (r_ctx st') ''error_code'' = Some ''overloaded''"
proof -
  let ?c = "set_overloaded ''EngineExecutor: queue wait timeout'' (r_ctx st)"
  have "same_request (EmitFinish cb Error ?c) ?c" "finished (EmitFinish cb Error ?c)"
    "finish_reason (EmitFinish cb Error ?c) = Error"
    using assms(1,2) by (simp_all add: well_behaved_callbacks.EmitFinish_request
        well_behaved_callbacks.EmitFinish_finished well_behaved_callbacks.EmitFinish_reason set_overloaded_def)
  moreover have "interfere st = st" using assms(3) by (simp add: interfere_def)
  ultimately show ?thesis
    using assms by (simp add: run_task_def same_request_def set_overloaded_def)
qed

theorem queue_timeout_rejects_witness:
  "\<exists>st'. run_task sample_api sample_env no_callbacks sample_task 2001
      (sample_run, \<lparr>engines = Map.empty, g_cache = Map.empty\<rparr>)
        = Inr (st', \<lparr>engines = Map.empty, g_cache = Map.empty\<rparr>)
    \<and> finish_reason (r_ctx st') = Error \<and> params (r_ctx st') ''error_code'' = Some ''overloaded''"
proof -
  have "\<not> finished (r_ctx sample_run)" "r_others sample_run = []" "\<not> is_cancelled (r_ctx sample_run)"
    "max_queue_wait_ms sample_task > 0" "2001 - enqueued_at sample_task > max_queue_wait_ms sample_task"
    by (simp_all add: sample_run_def new_context_def sample_task_def)
  from queue_timeout_rejects [OF no_cb.well_behaved_callbacks_axioms this] show ?thesis by blast
qed

text \<open>
  \<open>Execute\<close> either queues the request at the back of its model's queue, unchanged and with
  the configured time limit, or returns false with the queue unchanged and the request finished;
  it refuses an open request exactly when the queue is full, and then with the error code
  \<open>overloaded\<close>.
\<close>

theorem execute_queues_or_finishes:
  assumes "well_behaved_callbacks cb" "Execute e cb now ref ctx mq = (ok, need, ctx', mq')"
  shows "(ok \<longrightarrow> ctx' = ctx \<and> \<not> finished ctx
        \<and> mq_tasks mq' = mq_tasks mq @ [\<lparr>t_ctx = ref, enqueued_at = now,
              max_queue_wait_ms = get_env_int e ''MAX_QUEUE_WAIT_MS'' 2000\<rparr>])
    \<and> (\<not> ok \<longrightarrow> mq' = mq \<and> finished ctx')
    \<and> (\<not> ok \<and> \<not> finished ctx \<longrightarrow> length (mq_tasks mq) \<ge> nat (get_env_int e ''MAX_MODEL_QUEUE'' 64)
        \<and> finish_reason ctx' = Error \<and> params ctx' ''error_code'' = Some ''overloaded'')"
proof -
  let ?cap = "nat (get_env_int e ''MAX_MODEL_QUEUE'' 64)"
  let ?c = "set_overloaded (''EngineExecutor: model queue full, model='' @ ctx_model ctx) ctx"
  have f: "same_request (EmitFinish cb Error ?c) ?c" "finished (EmitFinish cb Error ?c)"
    "finish_reason (EmitFinish cb Error ?c) = (if finished ctx then finish_reason ctx else Error)"
    using assms(1) by (simp_all add: well_behaved_callbacks.EmitFinish_request
        well_behaved_callbacks.EmitFinish_finished well_behaved_callbacks.EmitFinish_reason set_overloaded_def)
  have "max MAX_QUEUE_FLOOR ?cap = ?cap"
    using get_env_int_pos [of 64 e "''MAX_MODEL_QUEUE''"] by (simp add: MAX_QUEUE_FLOOR_def)
  then show ?thesis
    using assms(2) f
    by (auto simp: Execute_def Let_def SubmitPerModel_def same_request_def set_overloaded_def split: if_splits)
qed

theorem execute_queues_or_finishes_witness:
  "\<exists>ok need ctx' mq'. Execute Map.empty no_callbacks 5 0 (new_context ()) new_ModelQueue = (ok, need, ctx', mq')
     \<and> ok \<and> ctx' = new_context () \<and> length (mq_tasks mq') = 1"
proof -
  let ?t = "\<lparr>t_ctx = 0, enqueued_at = 5, max_queue_wait_ms = 2000\<rparr>"
  have eq: "Execute Map.empty no_callbacks 5 0 (new_context ()) new_ModelQueue
      = (True, True, new_context (), \<lparr>mq_tasks = [?t], mq_running = True\<rparr>)"
    by (simp add: Execute_def new_context_def SubmitPerModel_def new_ModelQueue_def get_env_int_def
        getenv_nonempty_def MAX_QUEUE_FLOOR_def)
  from execute_queues_or_finishes [OF no_cb.well_behaved_callbacks_axioms eq] eq show ?thesis by auto
qed

end
