(* ===== verification/Http_Gateway.thy ===== *)
theory Http_Gateway
  imports Http_Server Stream_Writer Engine_Executor
begin

text \<open>
  \<open>serving/http/HttpGateway.cc\<close>: the handlers of the chat endpoint.  A handler parses the body, finds
  or creates the session, computes the messages the engine has not seen yet, installs the two
  callbacks, queues the request, and (without streaming) waits and replies.  The callbacks act on
  the gateway's state, which is the \<open>world\<close> of the request context: the session manager, the
  counters, and for a stream its writer and session.  JSON parsing and printing, the clock and the
  kernel are arguments.
\<close>

section \<open>Helpers\<close>

definition get_worker_threads :: "environ \<Rightarrow> nat" where
  "get_worker_threads e =
     (case getenv_nonempty e ''WORKER_THREADS'' of
        None \<Rightarrow> 4
      | Some v \<Rightarrow> (case stoi v of Inr n \<Rightarrow> if n > 0 then nat n else 4 | Inl _ \<Rightarrow> 4))"

definition get_default_model :: "environ \<Rightarrow> string" where
  "get_default_model e = (case getenv_nonempty e ''DEFAULT_MODEL'' of Some v \<Rightarrow> v | None \<Rightarrow> ''llama'')"

definition gen_request_id :: "nat \<Rightarrow> string \<times> nat" where
  "gen_request_id seq = (''req-'' @ to_string (int (Suc seq)), Suc seq)"

definition msg_equal :: "Message \<Rightarrow> Message \<Rightarrow> bool" where
  "msg_equal a b = (role a = role b \<and> content a = content b)"

fun is_prefix :: "Message list \<Rightarrow> Message list \<Rightarrow> bool" where
  "is_prefix [] ms = True"
| "is_prefix (h # hs) [] = False"
| "is_prefix (h # hs) (m # ms) = (msg_equal h m \<and> is_prefix hs ms)"

definition diff_messages :: "Message list \<Rightarrow> Message list \<Rightarrow> Message list" where
  "diff_messages hist incoming = (if \<not> is_prefix hist incoming then incoming else drop (length hist) incoming)"

section \<open>Counters\<close>

record Counters =
  total_requests :: int
  stream_requests :: int
  error_requests :: int
  cancelled_requests :: int
  in_flight :: int
  total_latency_ms :: int

definition new_Counters :: Counters where
  "new_Counters = \<lparr>total_requests = 0, stream_requests = 0, error_requests = 0, cancelled_requests = 0,
     in_flight = 0, total_latency_ms = 0\<rparr>"

definition RecordFinish :: "FinishReason \<Rightarrow> int \<Rightarrow> Counters \<Rightarrow> Counters" where
  "RecordFinish r dur c =
     (let c1 = c\<lparr>total_latency_ms := total_latency_ms c + dur, in_flight := in_flight c - 1\<rparr>
      in if r = Error then c1\<lparr>error_requests := error_requests c1 + 1\<rparr>
         else if r = Cancelled then c1\<lparr>cancelled_requests := cancelled_requests c1 + 1\<rparr>
         else c1)"

definition count_request :: "bool \<Rightarrow> Counters \<Rightarrow> Counters" where
  "count_request is_stream c =
     c\<lparr>total_requests := total_requests c + 1,
       stream_requests := stream_requests c + (if is_stream then 1 else 0), in_flight := in_flight c + 1\<rparr>"

section \<open>The gateway's state and the callbacks\<close>

record 't Gateway =
  gw_mgr :: "'t SessionManager"
  gw_counters :: Counters
  gw_seq :: nat
  gw_writer :: StreamWriter
  gw_stream :: StreamSession
  gw_fault :: "cpp_error option"

definition update_session :: "nat \<Rightarrow> ('t Session \<Rightarrow> 't Session) \<Rightarrow> 't Gateway \<Rightarrow> 't Gateway" where
  "update_session r f g =
     g\<lparr>gw_mgr := (gw_mgr g)\<lparr>heap := (heap (gw_mgr g))(r := map_option f (heap (gw_mgr g) r))\<rparr>\<rparr>"

definition remember :: "Message list \<Rightarrow> string \<Rightarrow> int \<Rightarrow> 't Session \<Rightarrow> 't Session" where
  "remember client_messages text now s =
     touch_Session now (s\<lparr>history := client_messages @ [\<lparr>role = ''assistant'', content = text\<rparr>]\<rparr>)"

definition finish_session :: "nat \<Rightarrow> Message list \<Rightarrow> int \<Rightarrow> FinishReason \<Rightarrow> 't Gateway ServingContext \<Rightarrow> 't Gateway" where
  "finish_session r client_messages now reas ctx =
     (if reas = Stop \<or> reas = Length
      then update_session r (remember client_messages (final_text ctx) now) (world ctx)
      else world ctx)"

definition chat_on_finish :: "nat \<Rightarrow> Message list \<Rightarrow> int \<Rightarrow> int \<Rightarrow> FinishReason \<Rightarrow> 't Gateway ServingContext
    \<Rightarrow> 't Gateway ServingContext" where
  "chat_on_finish r client_messages start now reas ctx =
     (let g = finish_session r client_messages now reas ctx
      in ctx\<lparr>world := g\<lparr>gw_counters := RecordFinish reas (now - start) (gw_counters g)\<rparr>\<rparr>)"

definition chat_callbacks :: "nat \<Rightarrow> Message list \<Rightarrow> int \<Rightarrow> int \<Rightarrow> 't Gateway Callbacks" where
  "chat_callbacks r client_messages start now =
     \<lparr>on_chunk = None, on_finish = Some (chat_on_finish r client_messages start now)\<rparr>"

text \<open>How a stream reaches its connection: the thread, the kernel, the header order, printing, the clock.\<close>

record stream_io =
  io_in_loop :: bool
  io_kernel :: kernel_write
  io_iter :: "header_map \<Rightarrow> header_map"
  io_dump :: "json \<Rightarrow> string"
  io_now :: int

text \<open>The write function of the writer: it cancels the request when the stream is closed.\<close>

definition stream_write :: "stream_io \<Rightarrow> string \<Rightarrow> 't Gateway ServingContext \<Rightarrow> 't Gateway ServingContext" where
  "stream_write io data ctx =
     (let g = world ctx
      in if \<not> ss_IsAlive (gw_stream g) then ctx\<lparr>is_cancelled := True\<rparr>
         else case ss_Write (io_iter io) (io_in_loop io) (io_kernel io) data (gw_stream g) of
                Inl e \<Rightarrow> ctx\<lparr>world := g\<lparr>gw_fault := Some e\<rparr>\<rparr>
              | Inr s \<Rightarrow>
                  (let ctx1 = ctx\<lparr>world := g\<lparr>gw_stream := s\<rparr>\<rparr>
                   in if \<not> ss_IsAlive s then ctx1\<lparr>is_cancelled := True\<rparr> else ctx1))"

definition stream_on_chunk :: "stream_io \<Rightarrow> StreamChunk \<Rightarrow> 't Gateway ServingContext \<Rightarrow> 't Gateway ServingContext" where
  "stream_on_chunk io chunk ctx =
     (let ctx1 = (if \<not> is_finished chunk then ctx\<lparr>final_text := final_text ctx @ delta chunk\<rparr> else ctx);
          (outs, w) = OnChunk (io_dump io) (io_now io) chunk (gw_writer (world ctx1))
      in fold (stream_write io) outs (ctx1\<lparr>world := (world ctx1)\<lparr>gw_writer := w\<rparr>\<rparr>))"

definition stream_on_finish :: "stream_io \<Rightarrow> nat \<Rightarrow> Message list \<Rightarrow> int \<Rightarrow> FinishReason \<Rightarrow> 't Gateway ServingContext
    \<Rightarrow> 't Gateway ServingContext" where
  "stream_on_finish io r client_messages start reas ctx =
     (let g = finish_session r client_messages (io_now io) reas ctx;
          g1 = g\<lparr>gw_stream := ss_Close (io_in_loop io) (gw_stream g)\<rparr>
      in ctx\<lparr>world := g1\<lparr>gw_counters := RecordFinish reas (io_now io - start) (gw_counters g1)\<rparr>\<rparr>)"

definition stream_callbacks :: "stream_io \<Rightarrow> nat \<Rightarrow> Message list \<Rightarrow> int \<Rightarrow> 't Gateway Callbacks" where
  "stream_callbacks io r client_messages start =
     \<lparr>on_chunk = Some (stream_on_chunk io), on_finish = Some (stream_on_finish io r client_messages start)\<rparr>"

section \<open>Building the request\<close>

fun parse_messages :: "json list \<Rightarrow> Message list res" where
  "parse_messages [] = Inr []"
| "parse_messages (j # js) =
     rbind (value_string j ''role'' []) (\<lambda>r.
       rbind (value_string j ''content'' []) (\<lambda>c.
         rbind (parse_messages js) (\<lambda>ms. Inr (\<lparr>role = r, content = c\<rparr> # ms))))"

definition has_messages :: "json \<Rightarrow> bool" where
  "has_messages body = (case json_find body ''messages'' of None \<Rightarrow> False | Some j \<Rightarrow> is_array j)"

definition body_messages :: "json \<Rightarrow> json list" where
  "body_messages body = (case json_find body ''messages'' of None \<Rightarrow> [] | Some j \<Rightarrow> array_elems j)"

definition body_session_id :: "json \<Rightarrow> string \<Rightarrow> string" where
  "body_session_id body rid = (case json_find body ''session_id'' of Some (JString s) \<Rightarrow> s | _ \<Rightarrow> rid)"

definition body_params :: "json \<Rightarrow> string \<Rightarrow> string option" where
  "body_params body =
     (case json_find body ''max_tokens'' of
        Some (JInt i) \<Rightarrow>
          if to_int32 i > 0 then Map.empty(''max_tokens'' \<mapsto> to_string (to_int32 i)) else Map.empty
      | _ \<Rightarrow> Map.empty)"

text \<open>The auto-diff: the messages for the engine and the session after it.\<close>

definition auto_diff :: "Message list \<Rightarrow> 't Session \<Rightarrow> Message list \<times> 't Session" where
  "auto_diff incoming s =
     (if history s \<noteq> []
      then (if is_prefix (history s) incoming then (diff_messages (history s) incoming, s)
            else (incoming, s\<lparr>history := [], model_ctx := None\<rparr>))
      else (incoming, s))"

datatype 't prepared =
    BadRequest string string
  | Ready "'t Gateway ServingContext" "Message list" nat

definition build_context :: "bool \<Rightarrow> string \<Rightarrow> json \<Rightarrow> int \<times> int \<Rightarrow> 't Gateway \<Rightarrow> 't prepared res option" where
  "build_context is_stream mdl body clk g =
     (let (rid, seq) = gen_request_id (gw_seq g);
          sid = body_session_id body rid
      in map_option (\<lambda>x. rbind x (\<lambda>(r, mgr).
           rbind (parse_messages (body_messages body)) (\<lambda>ms.
             case heap mgr r of
               None \<Rightarrow> Inl NullDeref
             | Some s \<Rightarrow>
                 (let (delta_ms, s1) = auto_diff ms s;
                      g1 = g\<lparr>gw_seq := seq, gw_mgr := mgr\<lparr>heap := (heap mgr)(r \<mapsto> s1)\<rparr>\<rparr>
                  in Inr (Ready ((new_context g1)\<lparr>request_id := rid, ctx_model := mdl, stream := is_stream, is_chat := True,
                       ctx_session_id := sid, ctx_session := Some r, params := body_params body, messages := delta_ms\<rparr>)
                       ms r)))))
         (getOrCreate sid mdl clk (gw_mgr g)))"

text \<open>
  The plain handler asks the body for its model before it looks at the messages; the streaming
  handler the other way round.
\<close>

definition prepare_chat :: "(string \<Rightarrow> json option) \<Rightarrow> environ \<Rightarrow> string \<Rightarrow> int \<times> int \<Rightarrow> 't Gateway \<Rightarrow> 't prepared res option" where
  "prepare_chat parse e raw clk g =
     (case parse raw of
        None \<Rightarrow> Some (Inr (BadRequest ''invalid json'' ''invalid_json''))
      | Some body \<Rightarrow>
          (case value_string body ''model'' (get_default_model e) of
             Inl err \<Rightarrow> Some (Inl err)
           | Inr mdl \<Rightarrow>
               if \<not> has_messages body
               then Some (Inr (BadRequest ''messages must be array'' ''invalid_messages''))
               else build_context False mdl body clk g))"

definition prepare_chat_stream :: "(string \<Rightarrow> json option) \<Rightarrow> environ \<Rightarrow> string \<Rightarrow> int \<times> int \<Rightarrow> 't Gateway
    \<Rightarrow> 't prepared res option" where
  "prepare_chat_stream parse e raw clk g =
     (case parse raw of
        None \<Rightarrow> Some (Inr (BadRequest ''invalid json'' ''invalid_json''))
      | Some body \<Rightarrow>
          if \<not> has_messages body
          then Some (Inr (BadRequest ''messages must be array'' ''invalid_messages''))
          else (case value_string body ''model'' (get_default_model e) of
                  Inl err \<Rightarrow> Some (Inl err)
                | Inr mdl \<Rightarrow> build_context True mdl body clk g))"

section \<open>Replies\<close>

definition gateway_error_json :: "string \<Rightarrow> string \<Rightarrow> string \<Rightarrow> string \<Rightarrow> json" where
  "gateway_error_json message type code param =
     JObject [(''error'', JObject ([(''message'', JString message), (''type'', JString type)]
        @ (if code \<noteq> [] then [(''code'', JString code)] else [])
        @ (if param \<noteq> [] then [(''param'', JString param)] else [])))]"

definition WriteError :: "stream_io \<Rightarrow> int \<Rightarrow> string \<Rightarrow> string \<Rightarrow> string \<Rightarrow> Response \<Rightarrow> Response res" where
  "WriteError io status message type code res =
     rbind (Response_Write (io_iter io) (io_in_loop io) (io_kernel io) (io_dump io (gateway_error_json message type code []))
              (SetHeader ''Connection'' ''close'' (SetHeader ''Content-Type'' ''application/json'' (SetStatus status [] res))))
       (\<lambda>r. Inr (Response_End (io_in_loop io) r))"

definition is_overloaded :: "'w ServingContext \<Rightarrow> bool" where
  "is_overloaded ctx = (params ctx ''error_code'' = Some ''overloaded'' \<or> str_contains ''queue full'' (error_message ctx))"

definition reply_json :: "'w ServingContext \<Rightarrow> string \<Rightarrow> int \<Rightarrow> json" where
  "reply_json ctx mdl now =
     JObject [(''id'', JString (''chatcmpl-'' @ request_id ctx)), (''object'', JString ''chat.completion''),
       (''created'', JInt (to_int32 now)), (''model'', JString mdl),
       (''choices'', JArray [JObject [(''index'', JInt 0),
          (''message'', JObject [(''role'', JString ''assistant''), (''content'', JString (final_text ctx))]),
          (''logprobs'', JNull), (''finish_reason'', JString (finish_reason_to_str (finish_reason ctx)))]]),
       (''usage'', JObject [(''prompt_tokens'', JInt (prompt_tokens (usage ctx))),
          (''completion_tokens'', JInt (completion_tokens (usage ctx))), (''total_tokens'', JInt (total_tokens (usage ctx)))])]"

text \<open>What the plain handler sends after the wait.\<close>

definition send_reply :: "stream_io \<Rightarrow> 'w ServingContext \<Rightarrow> string \<Rightarrow> Response \<Rightarrow> Response res" where
  "send_reply io ctx mdl res =
     (if \<not> Response_IsAlive res then Inr res
      else if error_message ctx \<noteq> [] \<or> finish_reason ctx = Error
      then WriteError io (if is_overloaded ctx then 429 else 500)
             (if error_message ctx = [] then ''engine error'' else error_message ctx)
             (if is_overloaded ctx then ''rate_limit_error'' else ''internal_error'')
             (if is_overloaded ctx then ''queue_full'' else ''internal_error'') res
      else rbind (Response_Write (io_iter io) (io_in_loop io) (io_kernel io) (io_dump io (reply_json ctx mdl (io_now io)))
                    (SetHeader ''Connection'' ''close'' (SetHeader ''Content-Type'' ''application/json'' res)))
             (\<lambda>r. Inr (Response_End (io_in_loop io) r)))"

text \<open>The submission to the session's queue, with the immediate failure when it is full.\<close>

definition submit_request :: "environ \<Rightarrow> 't Gateway Callbacks \<Rightarrow> 't \<Rightarrow> nat \<Rightarrow> 't Gateway ServingContext
    \<Rightarrow> bool \<times> bool \<times> 't Gateway ServingContext" where
  "submit_request e cb task r ctx =
     (case heap (gw_mgr (world ctx)) r of
        None \<Rightarrow> (False, False, ctx)
      | Some s \<Rightarrow>
          (let (ok, need, s1) = SessionExecutor_Submit (get_max_pending e) task s;
               ctx1 = ctx\<lparr>world := update_session r (\<lambda>_. s1) (world ctx)\<rparr>
           in if ok then (True, need, ctx1)
              else (False, False, EmitFinish cb Error
                     (set_overloaded (''SessionExecutor: session queue full, session='' @ ctx_session_id ctx1) ctx1))))"

section \<open>Messages\<close>

lemma msg_equal_iff [simp]: "msg_equal a b \<longleftrightarrow> a = b" for a b :: Message
  by (auto simp: msg_equal_def)

lemma is_prefix_iff: "is_prefix hist incoming \<longleftrightarrow> (\<exists>new. incoming = hist @ new)"
  by (induction hist incoming rule: is_prefix.induct) auto

lemma auto_diff_prefix: "auto_diff (history s @ new) s = (new, s)"
  by (auto simp: auto_diff_def is_prefix_iff diff_messages_def)

lemma auto_diff_reset:
  "history s \<noteq> [] \<Longrightarrow> \<not> is_prefix (history s) incoming \<Longrightarrow>
   auto_diff incoming s = (incoming, s\<lparr>history := [], model_ctx := None\<rparr>)"
  by (simp add: auto_diff_def)

section \<open>The callbacks keep the contract\<close>

lemma stream_write_frame:
  "same_request (stream_write io d ctx) ctx \<and> finished (stream_write io d ctx) = finished ctx
   \<and> finish_reason (stream_write io d ctx) = finish_reason ctx \<and> final_text (stream_write io d ctx) = final_text ctx
   \<and> gw_mgr (world (stream_write io d ctx)) = gw_mgr (world ctx)
   \<and> gw_counters (world (stream_write io d ctx)) = gw_counters (world ctx)"
  by (auto simp: stream_write_def Let_def same_request_def split: sum.splits)

lemma stream_writes_frame:
  "same_request (fold (stream_write io) ds ctx) ctx \<and> finished (fold (stream_write io) ds ctx) = finished ctx
   \<and> finish_reason (fold (stream_write io) ds ctx) = finish_reason ctx
   \<and> final_text (fold (stream_write io) ds ctx) = final_text ctx
   \<and> gw_mgr (world (fold (stream_write io) ds ctx)) = gw_mgr (world ctx)
   \<and> gw_counters (world (fold (stream_write io) ds ctx)) = gw_counters (world ctx)"
proof (induction ds arbitrary: ctx)
  case (Cons d ds)
  show ?case using Cons.IH [of "stream_write io d ctx"] stream_write_frame [of io d ctx]
    by (auto intro: same_request_trans)
qed simp

lemma stream_on_chunk_frame:
  "same_request (stream_on_chunk io c ctx) ctx \<and> finished (stream_on_chunk io c ctx) = finished ctx
   \<and> finish_reason (stream_on_chunk io c ctx) = finish_reason ctx
   \<and> final_text (stream_on_chunk io c ctx) = (if is_finished c then final_text ctx else final_text ctx @ delta c)
   \<and> gw_mgr (world (stream_on_chunk io c ctx)) = gw_mgr (world ctx)
   \<and> gw_counters (world (stream_on_chunk io c ctx)) = gw_counters (world ctx)"
proof -
  obtain outs w where o: "OnChunk (io_dump io) (io_now io) c (gw_writer (world ctx)) = (outs, w)" by fastforce
  let ?t = "if is_finished c then final_text ctx else final_text ctx @ delta c"
  let ?c = "ctx\<lparr>final_text := ?t, world := (world ctx)\<lparr>gw_writer := w\<rparr>\<rparr>"
  have eq: "stream_on_chunk io c ctx = fold (stream_write io) outs ?c"
    by (cases "is_finished c") (simp_all add: stream_on_chunk_def Let_def o)
  have "same_request ?c ctx" by (simp add: same_request_def)
  with stream_writes_frame [of io outs ?c] show ?thesis
    unfolding eq by (auto intro: same_request_trans)
qed

interpretation chat_cb: well_behaved_callbacks "chat_callbacks r cm start now" for r cm start now
  by unfold_locales (auto simp: chat_callbacks_def chat_on_finish_def same_request_def Let_def)

interpretation stream_cb: well_behaved_callbacks "stream_callbacks io r cm start" for io r cm start
proof
  fix f c ctx
  assume "on_chunk (stream_callbacks io r cm start) = Some f"
  then show "same_request (f c ctx) ctx \<and> finished (f c ctx) = finished ctx \<and> finish_reason (f c ctx) = finish_reason ctx"
    using stream_on_chunk_frame [of io c ctx] by (auto simp: stream_callbacks_def)
next
  fix f reas ctx
  assume "on_finish (stream_callbacks io r cm start) = Some f"
  then show "same_request (f reas ctx) ctx \<and> finished (f reas ctx) = finished ctx \<and> finish_reason (f reas ctx) = finish_reason ctx"
    by (auto simp: stream_callbacks_def stream_on_finish_def same_request_def Let_def)
qed

section \<open>A turn of a conversation\<close>

lemma chat_deltas:
  assumes "\<not> finished ctx"
  shows "final_text (fold (EmitDelta (chat_callbacks r cm start now)) ds ctx) = final_text ctx @ concat ds
    \<and> \<not> finished (fold (EmitDelta (chat_callbacks r cm start now)) ds ctx)
    \<and> world (fold (EmitDelta (chat_callbacks r cm start now)) ds ctx) = world ctx"
  using assms
proof (induction ds arbitrary: ctx)
  case (Cons d ds)
  let ?c = "EmitDelta (chat_callbacks r cm start now) d ctx"
  have "?c = ctx\<lparr>final_text := final_text ctx @ d\<rparr>"
    using Cons.prems by (simp add: EmitDelta_def call_on_chunk_def chat_callbacks_def)
  with Cons.IH [of ?c] Cons.prems show ?case by simp
qed simp

lemma stream_delta:
  assumes "\<not> finished ctx" "stream ctx"
  shows "final_text (EmitDelta (stream_callbacks io r cm start) d ctx) = final_text ctx @ d @ d
    \<and> \<not> finished (EmitDelta (stream_callbacks io r cm start) d ctx) \<and> stream (EmitDelta (stream_callbacks io r cm start) d ctx)
    \<and> gw_mgr (world (EmitDelta (stream_callbacks io r cm start) d ctx)) = gw_mgr (world ctx)"
  using assms stream_on_chunk_frame [of io "\<lparr>delta = d, is_finished = False, chunk_reason = Stop\<rparr>"
      "ctx\<lparr>final_text := final_text ctx @ d\<rparr>"]
  by (simp add: EmitDelta_def call_on_chunk_def stream_callbacks_def same_request_def)

lemma stream_deltas:
  assumes "\<not> finished ctx" "stream ctx"
  shows "final_text (fold (EmitDelta (stream_callbacks io r cm start)) ds ctx) = final_text ctx @ concat (map (\<lambda>d. d @ d) ds)
    \<and> \<not> finished (fold (EmitDelta (stream_callbacks io r cm start)) ds ctx)
    \<and> stream (fold (EmitDelta (stream_callbacks io r cm start)) ds ctx)
    \<and> gw_mgr (world (fold (EmitDelta (stream_callbacks io r cm start)) ds ctx)) = gw_mgr (world ctx)"
  using assms
proof (induction ds arbitrary: ctx)
  case (Cons d ds)
  show ?case
    using Cons.IH [of "EmitDelta (stream_callbacks io r cm start) d ctx"] stream_delta [OF Cons.prems, of io r cm start d]
    by simp
qed simp

definition session_of :: "nat \<Rightarrow> 't Gateway ServingContext \<Rightarrow> 't Session option" where
  "session_of r ctx = heap (gw_mgr (world ctx)) r"

lemma chat_finish_session:
  assumes "\<not> finished ctx" "reas = Stop \<or> reas = Length"
  shows "session_of r (EmitFinish (chat_callbacks r cm start now) reas ctx)
    = map_option (remember cm (final_text ctx) now) (session_of r ctx)"
  using assms
  by (auto simp: EmitFinish_def call_on_chunk_def call_on_finish_def chat_callbacks_def chat_on_finish_def Let_def
      finish_session_def session_of_def update_session_def)

lemma stream_finish_session:
  assumes "\<not> finished ctx" "stream ctx" "reas = Stop \<or> reas = Length"
  shows "session_of r (EmitFinish (stream_callbacks io r cm start) reas ctx)
    = map_option (remember cm (final_text ctx) (io_now io)) (session_of r ctx)"
  using assms stream_on_chunk_frame [of io "\<lparr>delta = [], is_finished = True, chunk_reason = reas\<rparr>"
      "ctx\<lparr>finished := True, finish_reason := reas\<rparr>"]
  by (auto simp: EmitFinish_def call_on_chunk_def call_on_finish_def stream_callbacks_def stream_on_finish_def Let_def
      finish_session_def session_of_def update_session_def)

lemma no_finish_no_history:
  assumes "\<not> finished ctx" "reas = Error \<or> reas = Cancelled"
  shows "session_of r (EmitFinish (chat_callbacks r cm start now) reas ctx) = session_of r ctx"
  using assms
  by (auto simp: EmitFinish_def call_on_chunk_def call_on_finish_def chat_callbacks_def chat_on_finish_def Let_def
      finish_session_def session_of_def)

section \<open>Counting\<close>

datatype emission = Delta string | Finish FinishReason

fun emit :: "'w Callbacks \<Rightarrow> emission \<Rightarrow> 'w ServingContext \<Rightarrow> 'w ServingContext" where
  "emit cb (Delta d) = EmitDelta cb d"
| "emit cb (Finish r) = EmitFinish cb r"

lemma emit_after_finish: "finished ctx \<Longrightarrow> fold (emit cb) es ctx = ctx"
proof (induction es)
  case (Cons x xs)
  then show ?case by (cases x) (simp_all add: EmitDelta_def EmitFinish_def)
qed simp

abbreviation counters :: "'t Gateway ServingContext \<Rightarrow> Counters" where
  "counters ctx \<equiv> gw_counters (world ctx)"

text \<open>Callbacks that leave the counters alone until the finish, which records it once.\<close>

definition records_finish :: "int \<Rightarrow> 't Gateway Callbacks \<Rightarrow> bool" where
  "records_finish dur cb \<longleftrightarrow>
     (\<forall>d ctx. \<not> finished ctx \<longrightarrow> counters (EmitDelta cb d ctx) = counters ctx \<and> \<not> finished (EmitDelta cb d ctx))
     \<and> (\<forall>r ctx. \<not> finished ctx \<longrightarrow> counters (EmitFinish cb r ctx) = RecordFinish r dur (counters ctx) \<and> finished (EmitFinish cb r ctx))"

lemma finish_session_counters [simp]: "gw_counters (finish_session r cm now reas ctx) = gw_counters (world ctx)"
  by (simp add: finish_session_def update_session_def)

lemma chat_records: "records_finish (now - start) (chat_callbacks r cm start now)"
  unfolding records_finish_def
proof (intro conjI allI impI)
  fix d and ctx :: "'a Gateway ServingContext"
  assume "\<not> finished ctx"
  then show "counters (EmitDelta (chat_callbacks r cm start now) d ctx) = counters ctx"
    "\<not> finished (EmitDelta (chat_callbacks r cm start now) d ctx)"
    by (simp_all add: EmitDelta_def call_on_chunk_def chat_callbacks_def)
next
  fix reas and ctx :: "'a Gateway ServingContext"
  assume "\<not> finished ctx"
  then show "counters (EmitFinish (chat_callbacks r cm start now) reas ctx) = RecordFinish reas (now - start) (counters ctx)"
    by (simp add: EmitFinish_def call_on_chunk_def call_on_finish_def chat_callbacks_def chat_on_finish_def Let_def)
qed simp

lemma stream_records: "records_finish (io_now io - start) (stream_callbacks io r cm start)"
  unfolding records_finish_def
proof (intro conjI allI impI)
  fix d and ctx :: "'a Gateway ServingContext"
  assume "\<not> finished ctx"
  then show "counters (EmitDelta (stream_callbacks io r cm start) d ctx) = counters ctx"
    "\<not> finished (EmitDelta (stream_callbacks io r cm start) d ctx)"
    by (simp_all add: EmitDelta_def call_on_chunk_def stream_callbacks_def stream_on_chunk_frame)
next
  fix reas and ctx :: "'a Gateway ServingContext"
  assume "\<not> finished ctx"
  then show "counters (EmitFinish (stream_callbacks io r cm start) reas ctx) = RecordFinish reas (io_now io - start) (counters ctx)"
    by (simp add: EmitFinish_def call_on_chunk_def call_on_finish_def stream_callbacks_def stream_on_finish_def
        stream_on_chunk_frame Let_def)
qed simp

lemma emissions_recorded:
  assumes "records_finish dur cb" "\<not> finished ctx" "Finish r \<in> set es"
  shows "\<exists>r'. Finish r' \<in> set es \<and> counters (fold (emit cb) es ctx) = RecordFinish r' dur (counters ctx)"
  using assms(2,3)
proof (induction es arbitrary: ctx)
  case (Cons x xs)
  show ?case
  proof (cases x)
    case (Delta d)
    with Cons.prems have "Finish r \<in> set xs" by simp
    with Cons.IH [of "EmitDelta cb d ctx"] Cons.prems assms(1) Delta show ?thesis
      by (auto simp: records_finish_def)
  next
    case (Finish q)
    with Cons.prems(1) assms(1) have "finished (EmitFinish cb q ctx)"
      "counters (EmitFinish cb q ctx) = RecordFinish q dur (counters ctx)" by (auto simp: records_finish_def)
    with Finish show ?thesis by (intro exI [of _ q]) (simp add: emit_after_finish)
  qed
qed simp

lemma RecordFinish_flow:
  "in_flight (RecordFinish r dur c) = in_flight c - 1" "total_requests (RecordFinish r dur c) = total_requests c"
  "error_requests (RecordFinish r dur c) + cancelled_requests (RecordFinish r dur c)
     = error_requests c + cancelled_requests c + (if r = Error \<or> r = Cancelled then 1 else 0)"
  by (simp_all add: RecordFinish_def Let_def)

section \<open>Properties\<close>

text \<open>
  Claim C32. A plain turn that ends normally makes the session remember the client's messages and the
  answer, so that the next request, which repeats them and adds new messages, is reduced to the new
  messages and the session (with its KV cache) is kept.
\<close>

theorem chat_turn_reuses_history:
  assumes "\<not> finished ctx" "final_text ctx = []" "session_of r ctx = Some s" "reas = Stop \<or> reas = Length"
  shows "\<exists>s'. session_of r (EmitFinish (chat_callbacks r cm start now) reas
          (fold (EmitDelta (chat_callbacks r cm start now)) ds ctx)) = Some s'
    \<and> model_ctx s' = model_ctx s
    \<and> auto_diff (cm @ [\<lparr>role = ''assistant'', content = concat ds\<rparr>] @ new) s' = (new, s')"
proof -
  let ?c = "fold (EmitDelta (chat_callbacks r cm start now)) ds ctx"
  have c: "final_text ?c = concat ds" "\<not> finished ?c" "session_of r ?c = Some s"
    using chat_deltas [OF assms(1), of r cm start now ds] assms(2,3) by (simp_all add: session_of_def)
  let ?s = "remember cm (concat ds) now s"
  have "history ?s = cm @ [\<lparr>role = ''assistant'', content = concat ds\<rparr>]" "model_ctx ?s = model_ctx s"
    by (simp_all add: remember_def touch_Session_def)
  with auto_diff_prefix [of ?s new] chat_finish_session [OF c(2) assms(4), of r cm start now] c(1,3) show ?thesis
    by simp
qed

definition sample_gateway :: "unit Gateway" where
  "sample_gateway = \<lparr>gw_mgr = created ''s'' ''llama'' (0, 0) (new_SessionManager default_Options),
     gw_counters = new_Counters, gw_seq = 0, gw_writer = new_StreamWriter ''req-1'' ''llama'',
     gw_stream = new_StreamSession (new_Response sample_conn True), gw_fault = None\<rparr>"

lemma sample_session: "session_of 0 (new_context sample_gateway) = Some (new_Session ''s'' ''llama'' 0 0)"
  by (simp add: session_of_def new_context_def sample_gateway_def created_def new_SessionManager_def)

theorem chat_turn_reuses_history_witness:
  "\<exists>s'. session_of 0 (EmitFinish (chat_callbacks 0 [\<lparr>role = ''user'', content = ''hi''\<rparr>] 0 5) Stop
      (fold (EmitDelta (chat_callbacks 0 [\<lparr>role = ''user'', content = ''hi''\<rparr>] 0 5)) [''he'', ''llo''] (new_context sample_gateway)))
      = Some s'
    \<and> auto_diff [\<lparr>role = ''user'', content = ''hi''\<rparr>, \<lparr>role = ''assistant'', content = ''hello''\<rparr>,
         \<lparr>role = ''user'', content = ''bye''\<rparr>] s' = ([\<lparr>role = ''user'', content = ''bye''\<rparr>], s')"
proof -
  have "\<not> finished (new_context sample_gateway)" "final_text (new_context sample_gateway) = []"
    by (simp_all add: new_context_def)
  from chat_turn_reuses_history [OF this sample_session, of Stop "[\<lparr>role = ''user'', content = ''hi''\<rparr>]" 0 5
      "[''he'', ''llo'']" "[\<lparr>role = ''user'', content = ''bye''\<rparr>]"]
  show ?thesis by auto
qed

text \<open>
  In a streaming turn every delta is appended to the answer twice, once by \<open>EmitDelta\<close> and
  once by the chunk callback; so the remembered answer is not the one the client received, and the
  next request, which repeats the received one, throws away the session's history and KV cache.
\<close>

theorem stream_turn_loses_history:
  assumes "\<not> finished ctx" "stream ctx" "final_text ctx = []" "session_of r ctx = Some s"
    "reas = Stop \<or> reas = Length" "concat ds \<noteq> []"
  shows "\<exists>s'. session_of r (EmitFinish (stream_callbacks io r cm start) reas
          (fold (EmitDelta (stream_callbacks io r cm start)) ds ctx)) = Some s'
    \<and> history s' = cm @ [\<lparr>role = ''assistant'', content = concat (map (\<lambda>d. d @ d) ds)\<rparr>]
    \<and> auto_diff (cm @ [\<lparr>role = ''assistant'', content = concat ds\<rparr>] @ new) s'
        = (cm @ [\<lparr>role = ''assistant'', content = concat ds\<rparr>] @ new, s'\<lparr>history := [], model_ctx := None\<rparr>)"
proof -
  let ?c = "fold (EmitDelta (stream_callbacks io r cm start)) ds ctx"
  let ?t = "concat (map (\<lambda>d. d @ d) ds)"
  have c: "final_text ?c = ?t" "\<not> finished ?c" "stream ?c" "session_of r ?c = Some s"
    using stream_deltas [OF assms(1,2), of io r cm start ds] assms(3,4) by (simp_all add: session_of_def)
  let ?s = "remember cm ?t (io_now io) s"
  have h: "history ?s = cm @ [\<lparr>role = ''assistant'', content = ?t\<rparr>]"
    by (simp add: remember_def touch_Session_def)
  have "length ?t = 2 * length (concat ds)" by (induction ds) auto
  then have "?t \<noteq> concat ds" using assms(6) by (metis length_0_conv mult_2 add_cancel_right_right)
  then have "\<not> is_prefix (history ?s) (cm @ [\<lparr>role = ''assistant'', content = concat ds\<rparr>] @ new)"
    by (auto simp: h is_prefix_iff)
  moreover have "history ?s \<noteq> []" by (simp add: h)
  ultimately show ?thesis
    using auto_diff_reset [of ?s] stream_finish_session [OF c(2,3) assms(5), of r io cm start] c(1,4) h by simp
qed

definition sample_io :: stream_io where
  "sample_io = \<lparr>io_in_loop = False, io_kernel = (\<lambda>_. Inr 0), io_iter = id, io_dump = (\<lambda>_. []), io_now = 5\<rparr>"

theorem stream_turn_loses_history_witness:
  "\<exists>s'. session_of 0 (EmitFinish (stream_callbacks sample_io 0 [] 0) Stop
      (fold (EmitDelta (stream_callbacks sample_io 0 [] 0)) [''hi''] ((new_context sample_gateway)\<lparr>stream := True\<rparr>))) = Some s'
    \<and> history s' = [\<lparr>role = ''assistant'', content = ''hihi''\<rparr>]"
proof -
  let ?c = "(new_context sample_gateway)\<lparr>stream := True\<rparr>"
  have "\<not> finished ?c" "stream ?c" "final_text ?c = []" "session_of 0 ?c = Some (new_Session ''s'' ''llama'' 0 0)"
    using sample_session by (simp_all add: new_context_def session_of_def)
  from stream_turn_loses_history [OF this, of Stop "[''hi'']" sample_io "[]" 0] show ?thesis by auto
qed

text \<open>
  Whatever deltas and finishes are emitted for an admitted request, in whatever order and
  however often, as long as it is finished at least once, the request leaves the in-flight count
  exactly once and is counted as failed or cancelled at most once; this holds for plain and for
  streaming requests.
\<close>

theorem request_counted_once:
  assumes "\<not> finished ctx" "Finish reas \<in> set es"
    "cb = chat_callbacks r cm start now \<or> cb = stream_callbacks io r cm start"
  shows "in_flight (counters (fold (emit cb) es ctx)) = in_flight (counters ctx) - 1
    \<and> total_requests (counters (fold (emit cb) es ctx)) = total_requests (counters ctx)
    \<and> error_requests (counters (fold (emit cb) es ctx)) + cancelled_requests (counters (fold (emit cb) es ctx))
        \<le> error_requests (counters ctx) + cancelled_requests (counters ctx) + 1"
proof -
  have "\<exists>dur. records_finish dur cb" using assms(3) chat_records stream_records by blast
  then obtain dur r' where "counters (fold (emit cb) es ctx) = RecordFinish r' dur (counters ctx)"
    using emissions_recorded [OF _ assms(1,2)] by blast
  then show ?thesis by (simp add: RecordFinish_flow)
qed

theorem request_counted_once_witness:
  "in_flight (counters (fold (emit (chat_callbacks 0 [] 0 5)) [Delta ''x'', Finish Stop, Finish Cancelled]
     (new_context sample_gateway))) = -1"
proof -
  have "\<not> finished (new_context sample_gateway)" "in_flight (counters (new_context sample_gateway)) = 0"
    by (simp_all add: new_context_def sample_gateway_def new_Counters_def)
  with request_counted_once [of "new_context sample_gateway" Stop "[Delta ''x'', Finish Stop, Finish Cancelled]"
      "chat_callbacks 0 [] 0 5" 0 "[]" 0 5 sample_io]
  show ?thesis by simp
qed

text \<open>
  A body that is valid JSON but no object makes the plain chat handler throw out of the
  handler (the model is asked for before the shape is checked), while the streaming handler
  answers 400.
\<close>

theorem malformed_body_throws:
  assumes "parse raw = Some (JArray js)"
  shows "prepare_chat parse e raw clk g = Some (Inl type_error)
    \<and> prepare_chat_stream parse e raw clk g = Some (Inr (BadRequest ''messages must be array'' ''invalid_messages''))"
  using assms by (simp add: prepare_chat_def prepare_chat_stream_def has_messages_def)

theorem malformed_body_throws_witness:
  "prepare_chat (\<lambda>_. Some (JArray [])) Map.empty ''[]'' (0, 0) sample_gateway = Some (Inl type_error)"
  by (rule malformed_body_throws [where js = "[]", THEN conjunct1]) simp

end
