(* ===== verification/Gateway_Handlers.thy ===== *)
theory Gateway_Handlers
  imports Http_Gateway
begin

text \<open>
  The whole handlers of \<open>serving/http/HttpGateway.cc\<close>, composed from the parts of \<open>Http_Gateway\<close>: health,
  metrics, the two completion stubs, and the plain and streaming chat handlers from the counting of
  the request to the reply.
\<close>

section \<open>Health, metrics and the completion stubs\<close>

definition reply_ok :: "stream_io \<Rightarrow> json \<Rightarrow> Response \<Rightarrow> Response res" where
  "reply_ok io out res =
     rbind (Response_Write (io_iter io) (io_in_loop io) (io_kernel io) (io_dump io out)
              (SetHeader ''Connection'' ''close'' (SetHeader ''Content-Type'' ''application/json'' (SetStatus 200 ''OK'' res))))
       (\<lambda>r. Inr (Response_End (io_in_loop io) r))"

definition HandleHealth :: "stream_io \<Rightarrow> int \<Rightarrow> Response \<Rightarrow> Response res" where
  "HandleHealth io start_time res =
     reply_ok io (JObject [(''status'', JString ''ok''), (''uptime_ms'', JInt (io_now io - start_time))]) res"

text \<open>\<open>ratio\<close> prints the floating-point quotient of two integers.\<close>

definition HandleMetrics :: "(int \<Rightarrow> int \<Rightarrow> string) \<Rightarrow> stream_io \<Rightarrow> Counters \<Rightarrow> Response \<Rightarrow> Response res" where
  "HandleMetrics ratio io c res =
     reply_ok io (JObject [(''requests_total'', JInt (total_requests c)), (''requests_in_flight'', JInt (in_flight c)),
       (''requests_stream_total'', JInt (stream_requests c)), (''requests_error_total'', JInt (error_requests c)),
       (''requests_cancelled_total'', JInt (cancelled_requests c)),
       (''avg_latency_ms'', JFloat (if total_requests c > 0 then ratio (total_latency_ms c) (total_requests c) else ''0.0''))]) res"

definition HandleCompletion :: "stream_io \<Rightarrow> Response \<Rightarrow> Response res" where
  "HandleCompletion io res =
     WriteError io 400
       ''The /v1/completions endpoint is deprecated in Serving v2. Please use /v1/chat/completions instead.''
       ''invalid_request_error'' ''endpoint_deprecated'' res"

definition HandleCompletionStream :: "stream_io \<Rightarrow> Response \<Rightarrow> Response res" where
  "HandleCompletionStream io res = WriteError io 501 ''completion stream not supported'' ''not_implemented'' [] res"

section \<open>The chat handlers\<close>

text \<open>
  What the engine's side does to the context while the request is in flight: text, the result
  fields, and the finish.
\<close>

datatype engine_action = EDelta string | EFinish FinishReason | EError string | EOverloaded string | EUsage Usage

fun engine_act :: "'w Callbacks \<Rightarrow> engine_action \<Rightarrow> 'w ServingContext \<Rightarrow> 'w ServingContext" where
  "engine_act cb (EDelta d) = EmitDelta cb d"
| "engine_act cb (EFinish r) = EmitFinish cb r"
| "engine_act cb (EError m) = error_message_update (\<lambda>_. m)"
| "engine_act cb (EOverloaded m) = set_overloaded m"
| "engine_act cb (EUsage u) = usage_update (\<lambda>_. u)"

definition with_counters :: "(Counters \<Rightarrow> Counters) \<Rightarrow> 't Gateway \<Rightarrow> 't Gateway" where
  "with_counters f g = g\<lparr>gw_counters := f (gw_counters g)\<rparr>"

text \<open>The reply to a malformed request.\<close>

definition refuse :: "stream_io \<Rightarrow> int \<Rightarrow> string \<Rightarrow> string \<Rightarrow> Response \<Rightarrow> 't Gateway \<Rightarrow> (Response \<times> 't Gateway) res" where
  "refuse io start msg code res g =
     rbind (WriteError io 400 msg ''invalid_request_error'' code res)
       (\<lambda>r. Inr (r, with_counters (RecordFinish Error (io_now io - start)) g))"

text \<open>
  The plain handler.  It runs in the loop of the connection and blocks it while it waits, so the
  liveness it polls is the connection's at the start; \<open>turns\<close> is what the engine's side does between
  the polls.  \<open>None\<close> is "still waiting".
\<close>

definition HandleChatCompletion :: "(string \<Rightarrow> json option) \<Rightarrow> environ \<Rightarrow> stream_io \<Rightarrow> int \<times> int \<Rightarrow> int \<Rightarrow> 't
    \<Rightarrow> engine_action list list \<Rightarrow> string \<Rightarrow> Response \<Rightarrow> 't Gateway \<Rightarrow> (Response \<times> 't Gateway) res option" where
  "HandleChatCompletion parse e io clk start task turns body res g =
     (let g0 = with_counters (count_request False) g
      in case prepare_chat parse e body clk g0 of
           None \<Rightarrow> None
         | Some (Inl err) \<Rightarrow> Some (Inl err)
         | Some (Inr (BadRequest msg code)) \<Rightarrow> Some (refuse io start msg code res g0)
         | Some (Inr (Ready ctx cm r)) \<Rightarrow>
             (let cb = chat_callbacks r cm start (io_now io);
                  res1 = SetOnClose res;
                  (ok, need, ctx1) = submit_request e cb task r ctx
              in map_option (\<lambda>ctx2. rbind (send_reply io ctx2 (ctx_model ctx) res1) (\<lambda>r. Inr (r, world ctx2)))
                   (WaitFinishOrCancel cb (map (\<lambda>as. (Response_IsAlive res1, fold (engine_act cb) as)) turns) ctx1)))"

text \<open>
  The streaming handler returns after the submission.  A started request carries its writer and its
  stream session in the context's world.
\<close>

datatype 't stream_result =
    Refused Response "'t Gateway"
  | Started bool bool "'t Gateway ServingContext" "Message list" nat

definition HandleChatCompletionStream :: "(string \<Rightarrow> json option) \<Rightarrow> environ \<Rightarrow> stream_io \<Rightarrow> int \<times> int \<Rightarrow> int \<Rightarrow> 't
    \<Rightarrow> string \<Rightarrow> Response \<Rightarrow> 't Gateway \<Rightarrow> 't stream_result res option" where
  "HandleChatCompletionStream parse e io clk start task body res g =
     (let g0 = with_counters (count_request True) g
      in case prepare_chat_stream parse e body clk g0 of
           None \<Rightarrow> None
         | Some (Inl err) \<Rightarrow> Some (Inl err)
         | Some (Inr (BadRequest msg code)) \<Rightarrow>
             Some (rbind (refuse io start msg code res g0) (\<lambda>(r, g1). Inr (Refused r g1)))
         | Some (Inr (Ready ctx cm r)) \<Rightarrow>
             (let cb = stream_callbacks io r cm start
              in Some (rbind (ss_Start (io_iter io) (io_in_loop io) (io_kernel io) (new_StreamSession (SetOnClose res)))
                   (\<lambda>ss. let ctx1 = ctx\<lparr>world := (world ctx)\<lparr>gw_writer := new_StreamWriter (request_id ctx) (ctx_model ctx),
                                                        gw_stream := ss\<rparr>\<rparr>;
                             (ok, need, ctx2) = submit_request e cb task r ctx1
                         in Inr (Started ok need ctx2 cm r)))))"

section \<open>Counters\<close>

text \<open>A request is either open and not recorded, or finished and recorded once.\<close>

definition recorded :: "int \<Rightarrow> Counters \<Rightarrow> 't Gateway ServingContext \<Rightarrow> bool" where
  "recorded dur c ctx \<longleftrightarrow>
     (if finished ctx then \<exists>r. counters ctx = RecordFinish r dur c else counters ctx = c)"

lemma emit_finished [simp]: "finished ctx \<Longrightarrow> EmitFinish cb r ctx = ctx" "finished ctx \<Longrightarrow> EmitDelta cb d ctx = ctx"
  by (simp_all add: EmitFinish_def EmitDelta_def)

lemma recorded_EmitFinish:
  "records_finish dur cb \<Longrightarrow> recorded dur c ctx \<Longrightarrow> recorded dur c (EmitFinish cb r ctx)"
  by (cases "finished ctx") (simp, auto simp: recorded_def records_finish_def)

lemma recorded_EmitDelta:
  "records_finish dur cb \<Longrightarrow> recorded dur c ctx \<Longrightarrow> recorded dur c (EmitDelta cb d ctx)"
  by (cases "finished ctx") (simp, auto simp: recorded_def records_finish_def)

lemma recorded_fields:
  "recorded dur c (error_message_update f ctx) = recorded dur c ctx" "recorded dur c (usage_update h ctx) = recorded dur c ctx"
  "recorded dur c (set_overloaded m ctx) = recorded dur c ctx"
  by (simp_all add: recorded_def set_overloaded_def)

lemma recorded_act: "records_finish dur cb \<Longrightarrow> recorded dur c ctx \<Longrightarrow> recorded dur c (engine_act cb a ctx)"
  by (cases a) (simp_all add: recorded_EmitFinish recorded_EmitDelta recorded_fields)

lemma recorded_acts: "records_finish dur cb \<Longrightarrow> recorded dur c ctx \<Longrightarrow> recorded dur c (fold (engine_act cb) as ctx)"
  by (induction as arbitrary: ctx) (simp_all add: recorded_act)

lemma recorded_wait:
  assumes "records_finish dur cb"
  shows "recorded dur c ctx \<Longrightarrow>
    WaitFinishOrCancel cb (map (\<lambda>as. (alive, fold (engine_act cb) as)) turns) ctx = Some ctx' \<Longrightarrow> recorded dur c ctx'"
proof (induction turns arbitrary: ctx)
  case (Cons as turns)
  have "recorded dur c (ctx\<lparr>is_cancelled := True\<rparr>)" using Cons.prems(1) by (simp add: recorded_def)
  with Cons recorded_acts [OF assms Cons.prems(1), of as] recorded_EmitFinish [OF assms, of c] show ?case
    by (auto split: if_splits)
qed (simp split: if_splits)

lemma recorded_submit:
  assumes "records_finish dur cb" "recorded dur c ctx" "submit_request e cb task r ctx = (ok, need, ctx')"
  shows "recorded dur c ctx'"
proof -
  have "recorded dur c (ctx\<lparr>world := update_session r f (world ctx)\<rparr>)" for f
    using assms(2) by (simp add: recorded_def update_session_def)
  moreover have "recorded dur c x \<Longrightarrow> recorded dur c (set_overloaded m x)" for m and x :: "'a Gateway ServingContext"
    by (simp add: recorded_def set_overloaded_def)
  ultimately show ?thesis using assms
    by (auto simp: submit_request_def Let_def split_def recorded_EmitFinish split: option.splits if_splits)
qed

lemma build_context_Ready:
  assumes "build_context st mdl body clk g = Some (Inr (Ready ctx cm r))"
  shows "\<not> finished ctx" "final_text ctx = []" "stream ctx = st" "gw_counters (world ctx) = gw_counters g"
    "ctx_model ctx = mdl" "error_message ctx = []" "params ctx = body_params body" "\<not> is_cancelled ctx"
  using assms
  by (auto simp: build_context_def Let_def split_def new_context_def split: option.splits)

lemma prepare_chat_Ready:
  assumes "prepare_chat parse e body clk g = Some (Inr (Ready ctx cm r))"
  shows "\<exists>mdl j. build_context False mdl j clk g = Some (Inr (Ready ctx cm r))"
  using assms by (auto simp: prepare_chat_def split: option.splits sum.splits if_splits)

lemma prepare_chat_stream_Ready:
  assumes "prepare_chat_stream parse e body clk g = Some (Inr (Ready ctx cm r))"
  shows "\<exists>mdl j. build_context True mdl j clk g = Some (Inr (Ready ctx cm r))"
  using assms by (auto simp: prepare_chat_stream_def split: option.splits sum.splits if_splits)

lemma body_params_no_error [simp]: "body_params j ''error_code'' = None"
  by (simp add: body_params_def split: option.splits json.splits)

section \<open>Plain replies on the wire\<close>

lemma tc_shutdown_disconnecting: "tc_state c = kDisconnecting \<Longrightarrow> tc_shutdown b c = c"
  by (simp add: tc_shutdown_def)

definition fresh_plain :: "stream_io \<Rightarrow> Response \<Rightarrow> bool" where
  "fresh_plain io res \<longleftrightarrow> honest_kernel (io_kernel io) \<and> io_in_loop io \<and> tc_ok (r_conn res) \<and> tc_connected (r_conn res)
     \<and> \<not> sse res \<and> \<not> header_sent res"

lemma fresh_plain_set [simp]:
  "fresh_plain io (SetHeader k v res) = fresh_plain io res" "fresh_plain io (SetStatus c m res) = fresh_plain io res"
  "fresh_plain io (SetOnClose res) = fresh_plain io res"
  by (simp_all add: fresh_plain_def SetHeader_def SetStatus_def SetOnClose_def)

lemma conn_set [simp]:
  "r_conn (SetHeader k v res) = r_conn res" "r_conn (SetStatus c m res) = r_conn res" "r_conn (SetOnClose res) = r_conn res"
  by (simp_all add: SetHeader_def SetStatus_def SetOnClose_def)

lemma write_and_end:
  assumes "fresh_plain io res"
  shows "\<exists>res'. rbind (Response_Write (io_iter io) (io_in_loop io) (io_kernel io) d res) (\<lambda>r. Inr (Response_End (io_in_loop io) r))
      = Inr res'
    \<and> tc_accepted (r_conn res') = tc_accepted (r_conn res) @ header_block (io_iter io) res @ d
    \<and> tc_state (r_conn res') = kDisconnecting"
proof -
  have "honest_kernel (io_kernel io)" "tc_ok (r_conn res)" "tc_connected (r_conn res)"
    using assms by (simp_all add: fresh_plain_def)
  from WriteInLoop_alive [OF this, of "io_iter io" d] assms obtain r1 where
    r1: "WriteInLoop (io_iter io) (io_kernel io) d res = Inr r1" "tc_state (r_conn r1) = kDisconnecting"
    "tc_accepted (r_conn r1) = tc_accepted (r_conn res) @ header_block (io_iter io) res @ d"
    by (auto simp: fresh_plain_def)
  then show ?thesis using assms
    by (simp add: fresh_plain_def Response_Write_def Response_End_def EndInLoop_def tc_shutdown_disconnecting)
qed

lemma WriteError_wire:
  assumes "fresh_plain io res"
  shows "\<exists>res'. WriteError io status msg type code res = Inr res'
    \<and> tc_accepted (r_conn res') = tc_accepted (r_conn res)
        @ header_block (io_iter io) (SetHeader ''Connection'' ''close''
            (SetHeader ''Content-Type'' ''application/json'' (SetStatus status [] res)))
        @ io_dump io (gateway_error_json msg type code [])
    \<and> tc_state (r_conn res') = kDisconnecting"
  using write_and_end [of io "SetHeader ''Connection'' ''close''
      (SetHeader ''Content-Type'' ''application/json'' (SetStatus status [] res))"] assms
  unfolding WriteError_def by simp

section \<open>The engine's turn on a plain request\<close>

lemma chat_emit_deltas:
  assumes "\<not> finished ctx"
  shows "fold (EmitDelta (chat_callbacks r cm start now)) ds ctx = ctx\<lparr>final_text := final_text ctx @ concat ds\<rparr>"
  using assms
proof (induction ds arbitrary: ctx)
  case (Cons d ds)
  have "EmitDelta (chat_callbacks r cm start now) d ctx = ctx\<lparr>final_text := final_text ctx @ d\<rparr>"
    using Cons.prems by (simp add: EmitDelta_def call_on_chunk_def chat_callbacks_def)
  with Cons show ?case by simp
qed simp

lemma engine_deltas: "fold (engine_act cb) (map EDelta ds) = fold (EmitDelta cb) ds"
  by (induction ds) (simp_all add: fun_eq_iff)

fun is_finish :: "engine_action \<Rightarrow> bool" where
  "is_finish (EFinish _) = True" | "is_finish _ = False"

context well_behaved_callbacks
begin

lemma act_open: "\<not> is_finish a \<Longrightarrow> finished (engine_act cb a ctx) = finished ctx"
  by (cases a) (simp_all add: EmitDelta_frame set_overloaded_def)

lemma acts_open: "\<forall>a \<in> set as. \<not> is_finish a \<Longrightarrow> finished (fold (engine_act cb) as ctx) = finished ctx"
  by (induction as arbitrary: ctx) (simp_all add: act_open)

lemma wait_turns:
  assumes "concat turns = as @ [EFinish r]" "\<forall>a \<in> set as. \<not> is_finish a" "\<not> finished ctx"
  shows "WaitFinishOrCancel cb (map (\<lambda>xs. (True, fold (engine_act cb) xs)) turns) ctx
    = Some (EmitFinish cb r (fold (engine_act cb) as ctx))"
  using assms
proof (induction turns arbitrary: as ctx)
  case (Cons xs turns)
  from Cons.prems(1) consider us where "xs @ us = as" "concat turns = us @ [EFinish r]"
    | "xs = as @ [EFinish r]" "concat turns = []"
    by (auto simp: append_eq_append_conv2 append_eq_Cons_conv)
  then show ?case
  proof cases
    case 1
    then show ?thesis using Cons.IH [OF 1(2), of "fold (engine_act cb) xs ctx"] Cons.prems(2,3) acts_open [of xs ctx]
      by auto
  next
    case 2
    have "finished x \<Longrightarrow> WaitFinishOrCancel cb ps x = Some x" for ps x by (cases ps) auto
    then show ?thesis using 2 Cons.prems(3) by simp
  qed
qed simp

end

lemma submit_accepted:
  assumes "session_of r ctx = Some s" "length (pending s) < get_max_pending e"
  shows "\<exists>need. submit_request e cb task r ctx = (True, need,
    ctx\<lparr>world := update_session r (\<lambda>_. snd (snd (SessionExecutor_Submit (get_max_pending e) task s))) (world ctx)\<rparr>)"
  using assms
  by (cases "running s") (auto simp: submit_request_def session_of_def SessionExecutor_Submit_def)

section \<open>Properties of the plain handler\<close>



text \<open>
  Claim C10. A plain request for a session whose queue is full is answered at once with status 429 and the code
  \<open>queue_full\<close>, whatever the engine is doing; it is counted as an error and the session is unchanged.
\<close>

theorem full_session_gets_429:
  assumes "fresh_plain io res"
    and ready: "prepare_chat parse e body clk (with_counters (count_request False) g) = Some (Inr (Ready ctx cm r))"
    and full: "session_of r ctx = Some s" "get_max_pending e \<le> length (pending s)"
  shows "\<exists>res' g'. HandleChatCompletion parse e io clk start task turns body res g = Some (Inr (res', g'))
    \<and> tc_accepted (r_conn res') = tc_accepted (r_conn res)
        @ header_block (io_iter io) (SetHeader ''Connection'' ''close''
            (SetHeader ''Content-Type'' ''application/json'' (SetStatus 429 [] (SetOnClose res))))
        @ io_dump io (gateway_error_json (''SessionExecutor: session queue full, session='' @ ctx_session_id ctx)
            ''rate_limit_error'' ''queue_full'' [])
    \<and> error_requests (gw_counters g') = error_requests (gw_counters g) + 1
    \<and> heap (gw_mgr g') r = Some s"
proof -
  let ?cb = "chat_callbacks r cm start (io_now io)"
  let ?msg = "''SessionExecutor: session queue full, session='' @ ctx_session_id ctx"
  let ?c1 = "set_overloaded ?msg (ctx\<lparr>world := update_session r (\<lambda>_. s) (world ctx)\<rparr>)"
  let ?c2 = "EmitFinish ?cb Error ?c1"
  obtain mdl j where b: "build_context False mdl j clk (with_counters (count_request False) g) = Some (Inr (Ready ctx cm r))"
    using prepare_chat_Ready ready by blast
  note ctx = build_context_Ready [OF b]
  have sub: "submit_request e ?cb task r ctx = (False, False, ?c2)"
    using full by (simp add: submit_request_def session_of_def SessionExecutor_Submit_def Let_def)
  have open1: "\<not> finished ?c1" using ctx by (simp add: set_overloaded_def)
  have fin: "finished ?c2" by simp
  then have wait: "WaitFinishOrCancel ?cb ps ?c2 = Some ?c2" for ps by (cases ps) auto
  have sr: "same_request ?c2 ?c1" by (rule chat_cb.EmitFinish_request)
  then have em: "error_message ?c2 = ?msg" and ov: "is_overloaded ?c2"
    by (simp_all add: same_request_def set_overloaded_def is_overloaded_def)
  have alive: "Response_IsAlive (SetOnClose res)"
    using assms(1) by (simp add: fresh_plain_def Response_IsAlive_def SetOnClose_def)
  have "send_reply io ?c2 (ctx_model ctx) (SetOnClose res)
      = WriteError io 429 ?msg ''rate_limit_error'' ''queue_full'' (SetOnClose res)"
    unfolding send_reply_def em using alive ov by simp
  with WriteError_wire [of io "SetOnClose res" 429 ?msg] assms(1) obtain res' where
    res': "send_reply io ?c2 (ctx_model ctx) (SetOnClose res) = Inr res'"
    "tc_accepted (r_conn res') = tc_accepted (r_conn res)
        @ header_block (io_iter io) (SetHeader ''Connection'' ''close''
            (SetHeader ''Content-Type'' ''application/json'' (SetStatus 429 [] (SetOnClose res))))
        @ io_dump io (gateway_error_json ?msg ''rate_limit_error'' ''queue_full'' [])"
    unfolding fresh_plain_set conn_set by metis
  have "counters ?c2 = RecordFinish Error (io_now io - start) (counters ?c1)"
    using chat_records [of "io_now io" start r cm] open1 unfolding records_finish_def by blast
  then have "error_requests (counters ?c2) = error_requests (gw_counters g) + 1"
    using ctx(4) by (simp add: RecordFinish_def Let_def set_overloaded_def update_session_def with_counters_def count_request_def)
  moreover have "session_of r ?c2 = Some s"
    using no_finish_no_history [OF open1, of Error r cm start "io_now io"] full
    by (simp add: session_of_def set_overloaded_def update_session_def)
  moreover have "HandleChatCompletion parse e io clk start task turns body res g = Some (Inr (res', world ?c2))"
    using ready sub wait res'(1) by (simp add: HandleChatCompletion_def Let_def)
  ultimately show ?thesis using res'(2) by (auto simp: session_of_def)
qed

section \<open>The streaming handler\<close>

text \<open>The closures that the pool's threads leave in the queue of the loop, run in order.\<close>

fun run_resp_functors :: "(header_map \<Rightarrow> header_map) \<Rightarrow> kernel_write \<Rightarrow> resp_functor list \<Rightarrow> Response \<Rightarrow> Response res" where
  "run_resp_functors iter kw [] res = Inr res"
| "run_resp_functors iter kw (f # fs) res = rbind (run_resp_functor iter kw f res) (run_resp_functors iter kw fs)"

lemma run_resp_functors_append:
  "run_resp_functors iter kw (fs @ gs) res = rbind (run_resp_functors iter kw fs res) (run_resp_functors iter kw gs)"
proof (induction fs arbitrary: res)
  case (Cons f fs)
  then show ?case by (cases "run_resp_functor iter kw f res") simp_all
qed simp

lemma run_writes: "run_resp_functors iter kw (map RWrite ds) res = write_all iter kw ds res"
proof (induction ds arbitrary: res)
  case (Cons d ds)
  then have "run_resp_functors iter kw (map RWrite ds) = write_all iter kw ds" by (simp add: fun_eq_iff)
  then show ?case by (simp add: run_resp_functor_def Response_Write_def)
qed simp

definition queued :: "resp_functor list \<Rightarrow> StreamSession \<Rightarrow> StreamSession" where
  "queued fs s = s\<lparr>ss_response := (ss_response s)\<lparr>r_queue := r_queue (ss_response s) @ fs\<rparr>\<rparr>"

lemma queued_simps [simp]:
  "queued gs (queued fs s) = queued (fs @ gs) s" "ss_closed (queued fs s) = ss_closed s" "queued [] s = s"
  "r_conn (ss_response (queued fs s)) = r_conn (ss_response s)"
  by (simp_all add: queued_def)

definition streaming :: "stream_io \<Rightarrow> 't Gateway ServingContext \<Rightarrow> bool" where
  "streaming io ctx \<longleftrightarrow> \<not> io_in_loop io \<and> \<not> finished ctx \<and> stream ctx \<and> \<not> ss_closed (gw_stream (world ctx))
     \<and> tc_connected (r_conn (ss_response (gw_stream (world ctx))))"

lemma stream_write_queues:
  assumes "\<not> io_in_loop io" "\<not> ss_closed (gw_stream (world ctx))" "tc_connected (r_conn (ss_response (gw_stream (world ctx))))"
  shows "stream_write io d ctx = ctx\<lparr>world := (world ctx)\<lparr>gw_stream := queued [RWrite d] (gw_stream (world ctx))\<rparr>\<rparr>"
  using assms
  by (simp add: stream_write_def Let_def ss_IsAlive_def ss_Write_def Response_IsAlive_def Response_Write_def queued_def)

lemma stream_writes_queue:
  assumes "\<not> io_in_loop io" "\<not> ss_closed (gw_stream (world ctx))" "tc_connected (r_conn (ss_response (gw_stream (world ctx))))"
  shows "fold (stream_write io) ds ctx
    = ctx\<lparr>world := (world ctx)\<lparr>gw_stream := queued (map RWrite ds) (gw_stream (world ctx))\<rparr>\<rparr>"
  using assms(2,3)
proof (induction ds arbitrary: ctx)
  case (Cons d ds)
  show ?case using Cons.IH [of "stream_write io d ctx"] Cons.prems stream_write_queues [OF assms(1) Cons.prems, of d] by simp
qed simp

text \<open>One delta from the engine's thread: its event is queued, the writer keeps an incomplete sequence.\<close>

lemma stream_delta_queues:
  assumes "streaming io ctx" "OnChunk (io_dump io) (io_now io) (delta_chunk d) (gw_writer (world ctx)) = (outs, w)"
  shows "\<exists>ft. EmitDelta (stream_callbacks io r cm start) d ctx = ctx\<lparr>final_text := ft,
      world := (world ctx)\<lparr>gw_writer := w, gw_stream := queued (map RWrite outs) (gw_stream (world ctx))\<rparr>\<rparr>"
  using assms stream_writes_queue [of io "ctx\<lparr>final_text := (final_text ctx @ d) @ d, world := (world ctx)\<lparr>gw_writer := w\<rparr>\<rparr>" outs]
  by (auto simp: streaming_def EmitDelta_def call_on_chunk_def stream_callbacks_def stream_on_chunk_def Let_def delta_chunk_def)

lemma stream_deltas_queue:
  assumes "streaming io ctx"
    "feed (io_dump io) (map (\<lambda>d. (io_now io, delta_chunk d)) ds) (gw_writer (world ctx)) = (outs, w)"
  shows "\<exists>ft. fold (EmitDelta (stream_callbacks io r cm start)) ds ctx = ctx\<lparr>final_text := ft,
      world := (world ctx)\<lparr>gw_writer := w, gw_stream := queued (map RWrite outs) (gw_stream (world ctx))\<rparr>\<rparr>"
  using assms
proof (induction ds arbitrary: ctx outs)
  case Nil
  then show ?case by (intro exI [of _ "final_text ctx"]) simp
next
  case (Cons d ds)
  obtain o1 w1 where o1: "OnChunk (io_dump io) (io_now io) (delta_chunk d) (gw_writer (world ctx)) = (o1, w1)" by fastforce
  obtain o2 where o2: "feed (io_dump io) (map (\<lambda>d. (io_now io, delta_chunk d)) ds) w1 = (o2, w)" "outs = o1 @ o2"
    using Cons.prems(2) o1 by (auto simp: Let_def split_def prod_eq_iff)
  obtain ft where e: "EmitDelta (stream_callbacks io r cm start) d ctx = ctx\<lparr>final_text := ft,
      world := (world ctx)\<lparr>gw_writer := w1, gw_stream := queued (map RWrite o1) (gw_stream (world ctx))\<rparr>\<rparr>"
    using stream_delta_queues [OF Cons.prems(1) o1] by blast
  have "streaming io (EmitDelta (stream_callbacks io r cm start) d ctx)"
    using Cons.prems(1) by (simp add: e streaming_def)
  from Cons.IH [OF this, of o2] o2 show ?case by (simp add: e)
qed

text \<open>The finish: the last events and the closure that ends the response.\<close>

definition final_chunk :: "FinishReason \<Rightarrow> StreamChunk" where
  "final_chunk r = \<lparr>delta = [], is_finished = True, chunk_reason = r\<rparr>"

lemma stream_finish_queues:
  assumes "streaming io ctx" "OnChunk (io_dump io) (io_now io) (final_chunk reas) (gw_writer (world ctx)) = (outs, w)"
  shows "ss_closed (gw_stream (world (EmitFinish (stream_callbacks io r cm start) reas ctx)))
    \<and> ss_response (gw_stream (world (EmitFinish (stream_callbacks io r cm start) reas ctx)))
        = ss_response (queued (map RWrite outs @ [REnd]) (gw_stream (world ctx)))"
proof -
  let ?c = "ctx\<lparr>finished := True, finish_reason := reas, world := (world ctx)\<lparr>gw_writer := w\<rparr>\<rparr>"
  have "stream_on_chunk io (final_chunk reas) (ctx\<lparr>finished := True, finish_reason := reas\<rparr>) = fold (stream_write io) outs ?c"
    using assms(2) by (simp add: stream_on_chunk_def Let_def) (simp add: final_chunk_def)
  also have "\<dots> = ?c\<lparr>world := (world ?c)\<lparr>gw_stream := queued (map RWrite outs) (gw_stream (world ctx))\<rparr>\<rparr>"
    using stream_writes_queue [of io ?c outs] assms(1) by (simp add: streaming_def)
  finally have "EmitFinish (stream_callbacks io r cm start) reas ctx = stream_on_finish io r cm start reas
      (?c\<lparr>world := (world ?c)\<lparr>gw_stream := queued (map RWrite outs) (gw_stream (world ctx))\<rparr>\<rparr>)"
    using assms(1)
    by (simp add: streaming_def EmitFinish_def call_on_chunk_def call_on_finish_def stream_callbacks_def final_chunk_def)
  then show ?thesis using assms(1)
    by (simp add: stream_on_finish_def Let_def finish_session_def update_session_def ss_Close_def Response_End_def
        streaming_def) (simp add: queued_def)
qed

lemma feed_append:
  "feed dump (xs @ ys) w = (fst (feed dump xs w) @ fst (feed dump ys (snd (feed dump xs w))), snd (feed dump ys (snd (feed dump xs w))))"
  by (induction xs arbitrary: w) (auto simp: Let_def split_def)

lemma WriteInLoop_queue: "WriteInLoop iter kw d res = Inr r \<Longrightarrow> r_queue r = r_queue res"
  by (auto simp: WriteInLoop_def Let_def EndInLoop_def split: if_splits)

definition sse_headers :: "Response \<Rightarrow> Response" where
  "sse_headers res = SetHeader ''Connection'' ''keep-alive'' (SetHeader ''Cache-Control'' ''no-cache''
     (SetHeader ''Content-Type'' ''text/event-stream'' (SetOnClose res)))"

definition fresh_sse :: "stream_io \<Rightarrow> Response \<Rightarrow> bool" where
  "fresh_sse io res \<longleftrightarrow> honest_kernel (io_kernel io) \<and> io_in_loop io \<and> tc_ok (r_conn res) \<and> tc_connected (r_conn res)
     \<and> sse res \<and> \<not> header_sent res \<and> r_queue res = []"

lemma sse_headers_fields [simp]:
  "r_conn (sse_headers res) = r_conn res" "sse (sse_headers res) = sse res" "header_sent (sse_headers res) = header_sent res"
  "r_queue (sse_headers res) = r_queue res"
  by (simp_all add: sse_headers_def SetHeader_def SetOnClose_def)

abbreviation sse_comment :: string where "sse_comment \<equiv> [CHR '':'', CHR 0x0A, CHR 0x0A]"

lemma ss_Start_fresh:
  assumes "fresh_sse io res"
  shows "\<exists>resp. ss_Start (io_iter io) (io_in_loop io) (io_kernel io) (new_StreamSession (SetOnClose res))
      = Inr (new_StreamSession resp) \<and> tc_ok (r_conn resp) \<and> tc_connected (r_conn resp) \<and> sse resp \<and> header_sent resp
      \<and> r_queue resp = [] \<and> tc_accepted (r_conn resp)
         = tc_accepted (r_conn res) @ header_block (io_iter io) (sse_headers res) @ sse_comment"
proof -
  from assms have "honest_kernel (io_kernel io)" "tc_ok (r_conn (sse_headers res))" "tc_connected (r_conn (sse_headers res))"
    by (simp_all add: fresh_sse_def)
  from WriteInLoop_alive [OF this, of "io_iter io" sse_comment] obtain resp where
    "WriteInLoop (io_iter io) (io_kernel io) sse_comment (sse_headers res) = Inr resp" "tc_ok (r_conn resp)" "header_sent resp"
    "sse resp" "tc_connected (r_conn resp)"
    "tc_accepted (r_conn resp) = tc_accepted (r_conn res) @ header_block (io_iter io) (sse_headers res) @ sse_comment"
    using assms by (auto simp: fresh_sse_def tc_connected_def)
  with WriteInLoop_queue [OF this(1)] assms show ?thesis
    by (simp add: ss_Start_def new_StreamSession_def Response_Write_def fresh_sse_def flip: sse_headers_def)
qed

text \<open>What the loop makes of a stream's queue: the events in order, then the shutdown.\<close>

lemma run_stream_queue:
  assumes "honest_kernel kw" "tc_ok (r_conn resp)" "tc_connected (r_conn resp)" "sse resp" "header_sent resp"
  shows "\<exists>res'. run_resp_functors iter kw (map RWrite ds @ [REnd]) resp = Inr res'
    \<and> tc_accepted (r_conn res') = tc_accepted (r_conn resp) @ concat ds \<and> tc_state (r_conn res') = kDisconnecting"
proof -
  from write_all_sse [OF assms] obtain r where "write_all iter kw ds resp = Inr r" "tc_connected (r_conn r)"
    "tc_accepted (r_conn r) = tc_accepted (r_conn resp) @ concat ds" by blast
  then show ?thesis
    by (simp add: run_resp_functors_append run_writes run_resp_functor_def EndInLoop_def tc_shutdown_fields tc_shutdown_state
        tc_connected_def)
qed

text \<open>
  Claim C9. A streaming chat request on a live connection whose session has room is started, and whatever pieces
  of text the engine's thread then emits before it finishes, the connection gets, once the loop has
  run the closures queued for it, the header block, the opening comment and the events of the
  stream writer for these pieces and for the finish, in order and once each, and is then shut down.
\<close>

theorem stream_request_wire:
  assumes "fresh_sse io res"
    and ready: "prepare_chat_stream parse e body clk (with_counters (count_request True) g) = Some (Inr (Ready ctx cm r))"
    and room: "session_of r ctx = Some s" "length (pending s) < get_max_pending e"
  shows "\<exists>need ctx1 res'. HandleChatCompletionStream parse e io clk start task body res g = Some (Inr (Started True need ctx1 cm r))
    \<and> (let resp = ss_response (gw_stream (world (fold (engine_act (stream_callbacks (io\<lparr>io_in_loop := False\<rparr>) r cm start))
             (map EDelta ds @ [EFinish reas]) ctx1)))
       in run_resp_functors (io_iter io) (io_kernel io) (r_queue resp) resp = Inr res')
    \<and> tc_accepted (r_conn res') = tc_accepted (r_conn res) @ header_block (io_iter io) (sse_headers res) @ sse_comment
        @ concat (fst (feed (io_dump io) (map (\<lambda>d. (io_now io, delta_chunk d)) ds @ [(io_now io, final_chunk reas)])
            (new_StreamWriter (request_id ctx) (ctx_model ctx))))
    \<and> tc_state (r_conn res') = kDisconnecting"
proof -
  let ?pio = "io\<lparr>io_in_loop := False\<rparr>"
  let ?w = "new_StreamWriter (request_id ctx) (ctx_model ctx)"
  let ?cb = "stream_callbacks ?pio r cm start"
  obtain mdl j where b: "build_context True mdl j clk (with_counters (count_request True) g) = Some (Inr (Ready ctx cm r))"
    using prepare_chat_stream_Ready ready by blast
  note ctx = build_context_Ready [OF b]
  obtain resp where resp: "ss_Start (io_iter io) (io_in_loop io) (io_kernel io) (new_StreamSession (SetOnClose res))
      = Inr (new_StreamSession resp)" "tc_ok (r_conn resp)" "tc_connected (r_conn resp)" "sse resp" "header_sent resp"
      "r_queue resp = []"
      "tc_accepted (r_conn resp) = tc_accepted (r_conn res) @ header_block (io_iter io) (sse_headers res) @ sse_comment"
    using ss_Start_fresh [OF assms(1)] by blast
  let ?c0 = "ctx\<lparr>world := (world ctx)\<lparr>gw_writer := ?w, gw_stream := new_StreamSession resp\<rparr>\<rparr>"
  have "session_of r ?c0 = Some s" using room by (simp add: session_of_def)
  from submit_accepted [OF this room(2)] obtain need c1 where
    sub: "submit_request e (stream_callbacks io r cm start) task r ?c0 = (True, need, c1)"
    and c1: "gw_stream (world c1) = new_StreamSession resp" "gw_writer (world c1) = ?w" "stream c1" "\<not> finished c1"
    using ctx by (fastforce simp: update_session_def)
  have start: "HandleChatCompletionStream parse e io clk start task body res g = Some (Inr (Started True need c1 cm r))"
    using ready resp(1) sub by (simp add: HandleChatCompletionStream_def Let_def)
  have str: "streaming ?pio c1" using c1 resp(3) by (simp add: streaming_def new_StreamSession_def)
  obtain o1 w1 where o1: "feed (io_dump io) (map (\<lambda>d. (io_now io, delta_chunk d)) ds) ?w = (o1, w1)" by fastforce
  obtain o2 w2 where o2: "OnChunk (io_dump io) (io_now io) (final_chunk reas) w1 = (o2, w2)" by fastforce
  obtain ft where c2: "fold (EmitDelta ?cb) ds c1 = c1\<lparr>final_text := ft,
      world := (world c1)\<lparr>gw_writer := w1, gw_stream := queued (map RWrite o1) (gw_stream (world c1))\<rparr>\<rparr>" (is "_ = ?c2")
    using stream_deltas_queue [OF str] o1 c1(2) by fastforce
  have "streaming ?pio ?c2" using str by (simp add: streaming_def)
  from stream_finish_queues [OF this, of reas o2 w2 r cm start] o2
  have q: "ss_response (gw_stream (world (fold (engine_act ?cb) (map EDelta ds @ [EFinish reas]) c1)))
      = resp\<lparr>r_queue := map RWrite (o1 @ o2) @ [REnd]\<rparr>"
    using c1 resp(6) by (simp add: engine_deltas c2 queued_def new_StreamSession_def)
  have "\<exists>res'. run_resp_functors (io_iter io) (io_kernel io) (map RWrite (o1 @ o2) @ [REnd])
      (resp\<lparr>r_queue := map RWrite (o1 @ o2) @ [REnd]\<rparr>) = Inr res'
    \<and> tc_accepted (r_conn res') = tc_accepted (r_conn resp) @ concat (o1 @ o2) \<and> tc_state (r_conn res') = kDisconnecting"
    using run_stream_queue [of "io_kernel io" "resp\<lparr>r_queue := map RWrite (o1 @ o2) @ [REnd]\<rparr>" "io_iter io" "o1 @ o2"]
      assms(1) resp(2-5) by (simp add: fresh_sse_def)
  then obtain res' where "run_resp_functors (io_iter io) (io_kernel io) (map RWrite (o1 @ o2) @ [REnd])
      (resp\<lparr>r_queue := map RWrite (o1 @ o2) @ [REnd]\<rparr>) = Inr res'"
    "tc_accepted (r_conn res') = tc_accepted (r_conn resp) @ concat (o1 @ o2)" "tc_state (r_conn res') = kDisconnecting" by blast
  moreover have "fst (feed (io_dump io) (map (\<lambda>d. (io_now io, delta_chunk d)) ds @ [(io_now io, final_chunk reas)]) ?w) = o1 @ o2"
    using o1 o2 by (simp add: feed_append)
  ultimately show ?thesis
    using start q resp(7) by (intro exI [of _ need] exI [of _ c1] exI [of _ res']) (simp add: Let_def)
qed

section \<open>Examples\<close>

definition sample_body :: json where
  "sample_body = JObject [(''model'', JString ''llama''), (''messages'', JArray []), (''session_id'', JString ''s'')]"

definition busy_gateway :: "unit list \<Rightarrow> unit Gateway" where
  "busy_gateway ts = sample_gateway\<lparr>gw_mgr := (gw_mgr sample_gateway)\<lparr>heap :=
     [0 \<mapsto> (new_Session ''s'' ''llama'' 0 0)\<lparr>pending := ts\<rparr>]\<rparr>\<rparr>"

lemma busy_gateway_mgr: "sm_ok (gw_mgr (busy_gateway ts))"
  "map_of (table (gw_mgr (busy_gateway ts))) ''s'' = Some \<lparr>e_session = 0, lru_it = 0\<rparr>"
  "heap (gw_mgr (busy_gateway ts)) 0 = Some ((new_Session ''s'' ''llama'' 0 0)\<lparr>pending := ts\<rparr>)"
  by (auto simp: busy_gateway_def sample_gateway_def created_def new_SessionManager_def sm_ok_def lru_ids_def entry_ok_def
      new_Session_def split: if_splits)

lemma busy_build:
  "\<exists>ctx. build_context st ''llama'' sample_body (1, 1) (with_counters f (busy_gateway ts)) = Some (Inr (Ready ctx [] 0))
     \<and> session_of 0 ctx = Some ((new_Session ''s'' ''llama'' 0 0)\<lparr>last_active := 1, pending := ts\<rparr>)"
  using getOrCreate_hit [OF busy_gateway_mgr(1,2), of "''llama''" "(1, 1)"] busy_gateway_mgr(3)
  by (simp add: build_context_def body_session_id_def body_messages_def sample_body_def gen_request_id_def Let_def
      with_counters_def accessed_fields touch_Session_def auto_diff_def new_Session_def session_of_def new_context_def)

lemma busy_prepare:
  "prepare_chat (\<lambda>_. Some sample_body) Map.empty ''{}'' clk g = build_context False ''llama'' sample_body clk g"
  "prepare_chat_stream (\<lambda>_. Some sample_body) Map.empty ''{}'' clk g = build_context True ''llama'' sample_body clk g"
  by (simp_all add: prepare_chat_def prepare_chat_stream_def has_messages_def sample_body_def)

definition loop_io :: stream_io where "loop_io = sample_io\<lparr>io_in_loop := True\<rparr>"

lemma sample_fresh:
  "fresh_plain loop_io (new_Response sample_conn False)" "fresh_sse loop_io (new_Response sample_conn True)"
  using sample_connection
  by (simp_all add: fresh_plain_def fresh_sse_def loop_io_def sample_io_def honest_kernel_def new_Response_def tc_connected_def)

lemma sample_max_pending: "get_max_pending Map.empty = 64"
  by (simp add: get_max_pending_def getenv_nonempty_def kMaxPending_def)



theorem full_session_gets_429_witness:
  "\<exists>res' g'. HandleChatCompletion (\<lambda>_. Some sample_body) Map.empty loop_io (1, 1) 0 () [[EDelta ''x'']]
       ''{}'' (new_Response sample_conn False) (busy_gateway (replicate 64 ())) = Some (Inr (res', g'))
     \<and> error_requests (gw_counters g') = 1"
proof -
  obtain ctx where ctx: "prepare_chat (\<lambda>_. Some sample_body) Map.empty ''{}'' (1, 1)
      (with_counters (count_request False) (busy_gateway (replicate 64 ()))) = Some (Inr (Ready ctx [] 0))"
    "session_of 0 ctx = Some ((new_Session ''s'' ''llama'' 0 0)\<lparr>last_active := 1, pending := replicate 64 ()\<rparr>)"
    using busy_build [of False "count_request False" "replicate 64 ()"] unfolding busy_prepare by blast
  moreover have "gw_counters (busy_gateway ts) = new_Counters" for ts by (simp add: busy_gateway_def sample_gateway_def)
  ultimately show ?thesis
    using full_session_gets_429 [OF sample_fresh(1) ctx(1,2), of 0 "()" "[[EDelta ''x'']]"]
    by (auto simp: sample_max_pending new_Counters_def)
qed

theorem stream_request_wire_witness:
  "\<exists>need ctx1. HandleChatCompletionStream (\<lambda>_. Some sample_body) Map.empty loop_io (1, 1) 0 () ''{}'' (new_Response sample_conn True)
     (busy_gateway []) = Some (Inr (Started True need ctx1 [] 0))"
proof -
  obtain ctx where ctx: "prepare_chat_stream (\<lambda>_. Some sample_body) Map.empty ''{}'' (1, 1)
      (with_counters (count_request True) (busy_gateway [])) = Some (Inr (Ready ctx [] 0))"
    "session_of 0 ctx = Some ((new_Session ''s'' ''llama'' 0 0)\<lparr>last_active := 1, pending := []\<rparr>)"
    using busy_build [of True "count_request True" "[]"] unfolding busy_prepare by blast
  from stream_request_wire [OF sample_fresh(2) ctx(1,2), of 0 "()" "[''hi'']" Stop] show ?thesis
    by (auto simp: sample_max_pending)
qed

end
