(* ===== verification/C_Format.thy ===== *)
theory C_Format
  imports Cpp_Base
begin

text \<open>
  The part of the C library's formatted input and output that the unit manager uses: \<open>sprintf\<close> and
  \<open>sscanf\<close> with integer conversions, on NUL-terminated strings.
\<close>

section \<open>Printing\<close>

definition c_str :: "string \<Rightarrow> string" where
  "c_str s = takeWhile (\<lambda>c. c \<noteq> CHR 0x00) s"

text \<open>A conversion without argument and any other directive than \<open>%i\<close>, \<open>%d\<close> and \<open>%%\<close> is left undefined.\<close>

fun printf_i :: "string \<Rightarrow> int list \<Rightarrow> string res" where
  "printf_i [] args = Inr []"
| "printf_i (c # cs) args =
     (if c \<noteq> CHR 0x25 then rbind (printf_i cs args) (\<lambda>r. Inr (c # r))
      else (case cs of
              [] \<Rightarrow> Inl UndefinedBehaviour
            | d # ds \<Rightarrow>
                if d = CHR 0x25 then rbind (printf_i ds args) (\<lambda>r. Inr (CHR 0x25 # r))
                else if d = CHR ''i'' \<or> d = CHR ''d''
                then (case args of
                        [] \<Rightarrow> Inl UndefinedBehaviour
                      | a # as \<Rightarrow> rbind (printf_i ds as) (\<lambda>r. Inr (to_string a @ r)))
                else Inl UndefinedBehaviour))"

text \<open>\<open>sprintf\<close> into a buffer of \<open>sz\<close> bytes, which has to hold the terminating NUL too.\<close>

definition sprintf_i :: "nat \<Rightarrow> string \<Rightarrow> int \<Rightarrow> string res" where
  "sprintf_i sz fmt a =
     rbind (printf_i (c_str fmt) [a]) (\<lambda>r. if length r < sz then Inr (c_str r) else Inl UndefinedBehaviour)"

section \<open>Scanning\<close>

definition hex_val :: "char \<Rightarrow> nat option" where
  "hex_val c =
     (let n = (of_char c :: nat)
      in if 48 \<le> n \<and> n \<le> 57 then Some (n - 48)
         else if 97 \<le> n \<and> n \<le> 102 then Some (n - 87)
         else if 65 \<le> n \<and> n \<le> 70 then Some (n - 55) else None)"

fun read_base :: "nat \<Rightarrow> nat \<Rightarrow> string \<Rightarrow> nat" where
  "read_base b acc [] = acc"
| "read_base b acc (c # cs) =
     (case hex_val c of None \<Rightarrow> acc | Some d \<Rightarrow> if d < b then read_base b (acc * b + d) cs else acc)"

definition starts_digit :: "nat \<Rightarrow> string \<Rightarrow> bool" where
  "starts_digit b s = (case s of [] \<Rightarrow> False | c # _ \<Rightarrow> (case hex_val c of None \<Rightarrow> False | Some d \<Rightarrow> d < b))"

text \<open>
  The number that \<open>%i\<close> reads: white space, a sign, and digits whose base follows from the prefix.  A
  value outside of \<open>int\<close> is undefined and reads as nothing here.
\<close>

definition unsigned_i :: "string \<Rightarrow> nat option" where
  "unsigned_i s =
     (case s of
        c # d # t \<Rightarrow>
          if c = CHR ''0'' \<and> (d = CHR ''x'' \<or> d = CHR ''X'')
          then (if starts_digit 16 t then Some (read_base 16 0 t) else None)
          else if c = CHR ''0'' then Some (read_base 8 0 s)
          else if starts_digit 10 s then Some (read_base 10 0 s) else None
      | _ \<Rightarrow> if starts_digit 10 s then Some (read_base 10 0 s) else None)"

definition scan_i :: "string \<Rightarrow> int option" where
  "scan_i s =
     (let t = dropWhile is_space s;
          v = (case t of
                 [] \<Rightarrow> None
               | c # u \<Rightarrow>
                   if c = CHR ''-'' then map_option (\<lambda>n. - int n) (unsigned_i u)
                   else if c = CHR ''+'' then map_option int (unsigned_i u)
                   else map_option int (unsigned_i t))
      in case v of None \<Rightarrow> None | Some i \<Rightarrow> if int_min \<le> i \<and> i \<le> int_max then Some i else None)"

text \<open>\<open>sscanf(s, fmt, &i)\<close>: the number the first conversion of the format stores, if it is reached.\<close>

fun sscanf_i :: "string \<Rightarrow> string \<Rightarrow> int option" where
  "sscanf_i [] s = None"
| "sscanf_i (c # cs) s =
     (if is_space c then sscanf_i cs (dropWhile is_space s)
      else if c = CHR 0x25
      then (case cs of
              [] \<Rightarrow> None
            | d # ds \<Rightarrow>
                if d = CHR ''i'' then scan_i s
                else if d = CHR 0x25
                then (case dropWhile is_space s of [] \<Rightarrow> None | x # xs \<Rightarrow> if x = CHR 0x25 then sscanf_i ds xs else None)
                else None)
      else (case s of [] \<Rightarrow> None | x # xs \<Rightarrow> if x = c then sscanf_i cs xs else None))"

section \<open>Lemmas\<close>

lemma digit_chars: "digit_char 0 = CHR ''0''" "digit_char (Suc 0) = CHR ''1''" "digit_char 2 = CHR ''2''" "digit_char 3 = CHR ''3''" "digit_char 4 = CHR ''4''" 
    "digit_char 5 = CHR ''5''" "digit_char 6 = CHR ''6''" "digit_char 7 = CHR ''7''" "digit_char 8 = CHR ''8''" "digit_char 9 = CHR ''9''"
  by code_simp+

lemmas print_number = to_string_def nat_to_string.simps digit_chars

lemma c_str_id: "CHR 0x00 \<notin> set s \<Longrightarrow> c_str s = s"
  by (auto simp: c_str_def takeWhile_eq_all_conv)

lemma c_str_no_nul: "CHR 0x00 \<notin> set (c_str s)"
  by (auto simp: c_str_def dest: set_takeWhileD)

lemma set_c_str: "set (c_str s) \<subseteq> set s"
  by (auto simp: c_str_def dest: set_takeWhileD)

lemma c_str_append: "CHR 0x00 \<notin> set s \<Longrightarrow> c_str (s @ t) = s @ c_str t"
  by (simp add: c_str_def takeWhile_append)

lemma printf_i_literal: "CHR 0x25 \<notin> set s \<Longrightarrow> printf_i s args = Inr s"
  by (induction s) auto

lemma printf_i_one:
  assumes "CHR 0x25 \<notin> set pre" "CHR 0x25 \<notin> set suf"
  shows "printf_i (pre @ ''%i'' @ suf) [a] = Inr (pre @ to_string a @ suf)"
  using assms(1)
proof (induction pre)
  case Nil
  then show ?case using printf_i_literal [OF assms(2), of "[]"] by simp
qed auto

lemma digit_no_nul: "CHR 0x00 \<notin> set (to_string a)"
proof -
  have "CHR 0x00 \<notin> set (nat_to_string n)" for n
    using nat_to_string_digits [of n] by (auto simp: list_all_iff is_digit_def)
  then show ?thesis by (simp add: to_string_def)
qed

lemma sprintf_i_one:
  assumes "CHR 0x25 \<notin> set pre" "CHR 0x25 \<notin> set suf" "CHR 0x00 \<notin> set pre" "CHR 0x00 \<notin> set suf"
    and "length (pre @ to_string a @ suf) < sz"
  shows "sprintf_i sz (pre @ ''%i'' @ suf) a = Inr (pre @ to_string a @ suf)"
proof -
  have "c_str (pre @ ''%i'' @ suf) = pre @ ''%i'' @ suf" using assms by (intro c_str_id) auto
  moreover have "c_str (pre @ to_string a @ suf) = pre @ to_string a @ suf" using assms digit_no_nul by (intro c_str_id) auto
  ultimately show ?thesis using assms printf_i_one [OF assms(1,2)] by (simp add: sprintf_i_def)
qed

lemma hex_val_digit: "d < 10 \<Longrightarrow> hex_val (digit_char d) = Some d"
  by (simp add: hex_val_def of_char_digit_char)

lemma hex_val_is_digit: "is_digit c \<Longrightarrow> hex_val c = Some (digit_val c) \<and> digit_val c < 10"
  by (auto simp: hex_val_def is_digit_def digit_val_def)

lemma read_base_digits:
  assumes "\<not> starts_digit 10 t"
  shows "list_all is_digit s \<Longrightarrow> read_base 10 acc (s @ t) = read_digits acc s"
proof (induction s arbitrary: acc)
  case Nil
  then show ?case using assms by (cases t) (auto simp: starts_digit_def split: option.splits)
next
  case (Cons c s)
  then show ?case using hex_val_is_digit [of c] by simp
qed

lemma nat_to_string_head: "0 < n \<Longrightarrow> hd (nat_to_string n) \<noteq> CHR ''0''"
proof (induction n rule: nat_to_string.induct)
  case (1 n)
  show ?case
  proof (cases "n < 10")
    case True
    then have "(of_char (digit_char n) :: nat) \<noteq> of_char (CHR ''0'')" using 1(2) by (simp add: of_char_digit_char)
    then show ?thesis using True by (subst nat_to_string.simps) auto
  next
    case False
    then have "hd (nat_to_string (n div 10)) \<noteq> CHR ''0''" using 1(1) by simp
    then show ?thesis using False by (subst nat_to_string.simps) simp
  qed
qed

lemma scan_i_to_string:
  assumes "0 < a" "a \<le> int_max" "\<not> starts_digit 10 t"
  shows "scan_i (to_string a @ t) = Some a"
proof -
  obtain c u where cu: "nat_to_string (nat a) = c # u" "is_digit c" by (rule nat_to_string_Cons)
  then have c: "c \<noteq> CHR ''0''" using nat_to_string_head [of "nat a"] assms(1) by simp
  have "unsigned_i (nat_to_string (nat a) @ t) = Some (read_base 10 0 (nat_to_string (nat a) @ t))"
    using cu c hex_val_is_digit [of c] by (auto simp: unsigned_i_def starts_digit_def split: list.splits)
  also have "read_base 10 0 (nat_to_string (nat a) @ t) = nat a"
    using read_base_digits [OF assms(3) nat_to_string_digits] by (simp add: read_digits_nat_to_string)
  finally show ?thesis using cu is_digit_not_special [OF cu(2)] assms(1,2)
    by (simp add: scan_i_def to_string_def int_min_def)
qed

lemma sscanf_i_one:
  assumes "\<forall>c \<in> set pre. \<not> is_space c \<and> c \<noteq> CHR 0x25" "0 < a" "a \<le> int_max" "\<not> starts_digit 10 t"
  shows "sscanf_i (pre @ ''%i'' @ suf) (pre @ to_string a @ t) = Some a"
  using assms(1)
proof (induction pre)
  case Nil
  have "\<not> is_space (CHR 0x25)" by (simp add: is_space_def)
  then show ?case using scan_i_to_string [OF assms(2-4)] by simp
qed simp

end
