(* ===== verification/Http_Main.thy ===== *)
theory Http_Main
  imports Http_Gateway C_Format
begin

text \<open>
  The start of the HTTP server process (\<open>serving/http/http_main.cc\<close>): the configuration file, whose
  entries become environment variables, the choice of the port and the warm-up of the model.  The
  other components read their settings from the environment this leaves.  The file system and the JSON
  parser are arguments; what follows the warm-up is the gateway, the server and the event loop, which
  have theories of their own.
\<close>

section \<open>Configuration\<close>

definition set_env_from_json :: "json \<Rightarrow> string \<times> string \<Rightarrow> environ \<Rightarrow> environ" where
  "set_env_from_json cfg = (\<lambda>(key, name) e.
     (case json_find cfg key of
        None \<Rightarrow> e
      | Some (JString s) \<Rightarrow> e(name \<mapsto> c_str s)
      | Some (JInt i) \<Rightarrow> e(name \<mapsto> to_string (to_int32 i))
      | Some _ \<Rightarrow> e))"

definition config_keys :: "(string \<times> string) list" where
  "config_keys =
     [(''http_port'', ''HTTP_PORT''), (''default_model'', ''DEFAULT_MODEL''), (''worker_threads'', ''WORKER_THREADS''),
      (''max_model_queue'', ''MAX_MODEL_QUEUE''), (''max_session_pending'', ''MAX_SESSION_PENDING''),
      (''max_queue_wait_ms'', ''MAX_QUEUE_WAIT_MS''), (''llama_model_path'', ''LLAMA_MODEL_PATH''),
      (''llama_n_ctx'', ''LLAMA_N_CTX''), (''llama_n_threads'', ''LLAMA_N_THREADS''),
      (''llama_n_threads_batch'', ''LLAMA_N_THREADS_BATCH''), (''kv_reset_margin'', ''KV_RESET_MARGIN''),
      (''default_max_tokens'', ''DEFAULT_MAX_TOKENS'')]"

text \<open>\<open>files\<close> gives the contents of a file that can be opened; a parse error is caught.\<close>

definition config_path :: "environ \<Rightarrow> string" where
  "config_path e = (case getenv_nonempty e ''CONFIG_PATH'' of Some p \<Rightarrow> p | None \<Rightarrow> ''config.json'')"

definition load_config :: "(string \<Rightarrow> string option) \<Rightarrow> (string \<Rightarrow> json option) \<Rightarrow> environ \<Rightarrow> environ" where
  "load_config files parse e =
     (case files (config_path e) of
        None \<Rightarrow> e
      | Some text \<Rightarrow> (case parse text of None \<Rightarrow> e | Some cfg \<Rightarrow> fold (set_env_from_json cfg) config_keys e))"

section \<open>The port and the warm-up\<close>

definition to_uint16 :: "int \<Rightarrow> nat" where
  "to_uint16 i = nat (i mod 65536)"

text \<open>\<open>args\<close> are the arguments behind the program's name; \<open>std::stoi\<close> may throw, which ends the process.\<close>

definition choose_port :: "environ \<Rightarrow> string list \<Rightarrow> nat res" where
  "choose_port e args =
     rbind (case e ''HTTP_PORT'' of None \<Rightarrow> Inr 8080 | Some v \<Rightarrow> rbind (stoi v) (\<lambda>i. Inr (to_uint16 i)))
       (\<lambda>p. case args of [] \<Rightarrow> Inr p | a # _ \<Rightarrow> rbind (stoi a) (\<lambda>i. Inr (to_uint16 i)))"

text \<open>\<open>main\<close> up to the construction of the gateway: the environment, the port and the engines.\<close>

definition main_start :: "(string \<Rightarrow> string option) \<Rightarrow> (string \<Rightarrow> json option) \<Rightarrow> (string \<Rightarrow> bool) \<Rightarrow> environ \<Rightarrow> string list
    \<Rightarrow> (environ \<times> nat \<times> (string \<rightharpoonup> Engine)) res" where
  "main_start files parse model_loads e args =
     (let e1 = load_config files parse e
      in rbind (choose_port e1 args) (\<lambda>port.
           rbind (EngineFactory_Create e1 model_loads 0 id ''llama'' Map.empty) (\<lambda>(eng, cache).
             Inr (e1, port, cache))))"

section \<open>Lemmas\<close>

text \<open>The value a configuration gives to a key.\<close>

fun config_value :: "json option \<Rightarrow> string option" where
  "config_value (Some (JString s)) = Some (c_str s)"
| "config_value (Some (JInt i)) = Some (to_string (to_int32 i))"
| "config_value _ = None"

lemma set_env_from_json_value:
  "set_env_from_json cfg (key, name) e =
     (case config_value (json_find cfg key) of None \<Rightarrow> e | Some v \<Rightarrow> e(name \<mapsto> v))"
  by (auto simp: set_env_from_json_def split: option.split json.split)

lemma fold_set_env_other:
  "name \<notin> snd ` set kvs \<Longrightarrow> fold (set_env_from_json cfg) kvs e name = e name"
  by (induction kvs arbitrary: e) (auto simp: set_env_from_json_value split: option.splits)

lemma fold_set_env:
  "distinct (map snd kvs) \<Longrightarrow> (key, name) \<in> set kvs \<Longrightarrow>
   fold (set_env_from_json cfg) kvs e name =
     (case config_value (json_find cfg key) of None \<Rightarrow> e name | Some v \<Rightarrow> Some v)"
proof (induction kvs arbitrary: e)
  case Nil
  then show ?case by simp
next
  case (Cons kv kvs)
  show ?case
  proof (cases "kv = (key, name)")
    case True
    then have "name \<notin> snd ` set kvs" using Cons.prems(1) by auto
    then show ?thesis using True by (simp add: fold_set_env_other set_env_from_json_value split: option.split)
  next
    case False
    then have kv: "(key, name) \<in> set kvs" "snd kv \<noteq> name" using Cons.prems by (auto simp: image_iff)
    obtain k n where "kv = (k, n)" by (cases kv)
    then show ?thesis using kv Cons.IH [of "set_env_from_json cfg kv e"] Cons.prems(1)
      by (auto simp: set_env_from_json_value split: option.splits)
  qed
qed

lemma distinct_config_keys: "distinct (map snd config_keys)"
  by (simp add: config_keys_def)

section \<open>Properties\<close>

text \<open>
  The configuration file wins over the environment, entry by entry: a variable of one of its
  keys has the string or the decimal text of the integer the file gives and is unchanged when the file
  gives neither; no other variable changes.
\<close>

theorem load_config_overrides:
  assumes "files (config_path e) = Some text" and "parse text = Some cfg"
  shows "(\<forall>key name. (key, name) \<in> set config_keys \<longrightarrow>
            load_config files parse e name =
              (case config_value (json_find cfg key) of None \<Rightarrow> e name | Some v \<Rightarrow> Some v)) \<and>
         (\<forall>name. name \<notin> snd ` set config_keys \<longrightarrow> load_config files parse e name = e name)"
  using assms fold_set_env [OF distinct_config_keys] fold_set_env_other [of _ config_keys cfg e]
  by (simp add: load_config_def)

text \<open>An integer of the file reaches the readers of the environment unchanged.\<close>

lemma load_config_int:
  assumes "files (config_path e) = Some text" "parse text = Some cfg"
    and "(key, name) \<in> set config_keys" and "json_find cfg key = Some (JInt i)" and "int_min \<le> i" "i \<le> int_max"
  shows "load_config files parse e name = Some (to_string i)"
proof -
  have "to_int32 i = i" using assms(5,6) by (simp add: to_int32_def int_min_def int_max_def)
  then show ?thesis
    using assms fold_set_env [OF distinct_config_keys assms(3)] by (simp add: load_config_def)
qed

lemma to_string_not_Nil [simp]: "to_string i \<noteq> []"
  by (simp add: to_string_def)

text \<open>
  A positive integer setting of the configuration file is what every component that reads its
  variable gets, and an integer port in the range of ports is the port the server listens on when
  there is no argument; an argument with a port wins over both.
\<close>

theorem config_setting_roundtrip:
  assumes cfgf: "files (config_path e) = Some text" "parse text = Some cfg"
    and key: "(key, name) \<in> set config_keys" "json_find cfg key = Some (JInt i)" and pos: "0 < i" "i \<le> int_max"
    and port: "json_find cfg ''http_port'' = Some (JInt p)" "0 \<le> p" "p < 65536" and arg: "0 \<le> q" "q < 65536"
  shows "get_env_int (load_config files parse e) name d = i \<and>
         choose_port (load_config files parse e) [] = Inr (nat p) \<and>
         choose_port (load_config files parse e) [to_string q] = Inr (nat q)"
proof -
  have range: "int_min \<le> x \<and> x \<le> int_max \<and> to_uint16 x = nat x" if "0 \<le> x" "x < 65536" for x
    using that by (simp add: int_min_def int_max_def to_uint16_def)
  have "load_config files parse e name = Some (to_string i)"
    using load_config_int [of files e "text" parse cfg, OF cfgf key] pos by (simp add: int_min_def)
  then have "getenv_nonempty (load_config files parse e) name = Some (to_string i)" by simp
  then have "get_env_int (load_config files parse e) name d = i"
    using pos stoi_to_string [of i] by (simp add: get_env_int_def int_min_def del: getenv_nonempty_Some)
  moreover have "(''http_port'', ''HTTP_PORT'') \<in> set config_keys" by (simp add: config_keys_def)
  then have "load_config files parse e ''HTTP_PORT'' = Some (to_string p)"
    using load_config_int [of files e "text" parse cfg, OF cfgf _ port(1)] range [OF port(2,3)] by blast
  ultimately show ?thesis
    using range [OF port(2,3)] range [OF arg] stoi_to_string [of p] stoi_to_string [of q] by (simp add: choose_port_def)
qed

text \<open>The chosen port is always a 16-bit number: a number that does not fit is taken modulo 65536.\<close>

lemma choose_port_range: "choose_port e args = Inr p \<Longrightarrow> p < 65536"
proof -
  have "to_uint16 i < 65536" for i by (simp add: to_uint16_def nat_less_iff)
  then show "choose_port e args = Inr p \<Longrightarrow> p < 65536"
    by (cases args) (auto simp: choose_port_def split: option.splits)
qed

lemma choose_port_wraps: "choose_port (\<lambda>_. None) [to_string 73616] = Inr 8080"
  using stoi_to_string [of 73616] by (simp add: choose_port_def to_uint16_def int_min_def int_max_def)

text \<open>A port that is no number ends the process before it listens, even if an argument would replace it.\<close>

lemma main_start_bad_port:
  assumes "load_config files parse e ''HTTP_PORT'' = Some []"
  shows "main_start files parse model_loads e args = Inl InvalidArgument"
  using assms by (simp add: main_start_def Let_def choose_port_def stoi_def)

definition config_ex :: json where
  "config_ex = JObject [(''http_port'', JInt 9090), (''llama_n_ctx'', JInt 2048), (''default_model'', JString ''dummy'')]"

theorem load_config_overrides_witness:
  "load_config (\<lambda>p. if p = ''config.json'' then Some ''text'' else None) (\<lambda>_. Some config_ex) [''HOME'' \<mapsto> ''/root''] ''DEFAULT_MODEL'' = Some ''dummy'' \<and>
   load_config (\<lambda>p. if p = ''config.json'' then Some ''text'' else None) (\<lambda>_. Some config_ex) [''HOME'' \<mapsto> ''/root''] ''HOME'' = Some ''/root''"
proof -
  let ?files = "\<lambda>p. if p = ''config.json'' then Some ''text'' else None"
  let ?e = "[''HOME'' \<mapsto> ''/root''] :: environ"
  have f: "?files (config_path ?e) = Some ''text''" by (simp add: config_path_def getenv_nonempty_def)
  note all = load_config_overrides [of ?files ?e "''text''" "\<lambda>_. Some config_ex", OF f refl]
  have "(''default_model'', ''DEFAULT_MODEL'') \<in> set config_keys" "''HOME'' \<notin> snd ` set config_keys"
    by (simp_all add: config_keys_def)
  then have "load_config ?files (\<lambda>_. Some config_ex) ?e ''DEFAULT_MODEL'' =
      (case config_value (json_find config_ex ''default_model'') of None \<Rightarrow> ?e ''DEFAULT_MODEL'' | Some v \<Rightarrow> Some v)"
    "load_config ?files (\<lambda>_. Some config_ex) ?e ''HOME'' = ?e ''HOME''"
    using all by blast+
  then show ?thesis by (simp add: config_ex_def c_str_def)
qed

theorem config_setting_roundtrip_witness:
  "get_env_int (load_config (\<lambda>p. Some ''text'') (\<lambda>_. Some config_ex) Map.empty) ''LLAMA_N_CTX'' 4096 = 2048 \<and>
   choose_port (load_config (\<lambda>p. Some ''text'') (\<lambda>_. Some config_ex) Map.empty) [] = Inr 9090 \<and>
   choose_port (load_config (\<lambda>p. Some ''text'') (\<lambda>_. Some config_ex) Map.empty) [to_string 80] = Inr 80"
proof -
  have k: "(''llama_n_ctx'', ''LLAMA_N_CTX'') \<in> set config_keys" by (simp add: config_keys_def)
  show ?thesis
    using config_setting_roundtrip [of "\<lambda>p. Some ''text''" Map.empty "''text''" "\<lambda>_. Some config_ex" config_ex
      "''llama_n_ctx''" "''LLAMA_N_CTX''" 2048 9090 80 4096, OF refl refl k]
    by (simp add: config_ex_def int_max_def)
qed

end
