(* ===== verification/Tcp_Server.thy ===== *)
theory Tcp_Server
  imports Cpp_Base
begin

text \<open>
  The accepting side of the reactor: \<open>EventLoopThreadPool\<close> with its round-robin choice of loops
  (\<open>network/src/EventLoopThreadPool.cc\<close>), \<open>TcpServer\<close> with its table of connections
  (\<open>network/src/TcpServer.cc\<close>) and \<open>Acceptor\<close> (\<open>network/src/Acceptor.cc\<close>).  Loops and connections are
  numbers; loop 0 is the base loop.  What a server asks of a loop is a functor in the loop's queue.
\<close>

section \<open>The pool of loops\<close>

record EventLoopThreadPool =
  etp_started :: bool
  numThreads :: int
  next_loop :: nat
  loops :: "nat list"

definition new_EventLoopThreadPool :: EventLoopThreadPool where
  "new_EventLoopThreadPool = \<lparr>etp_started = False, numThreads = 0, next_loop = 0, loops = []\<rparr>"

definition setThreadNum :: "int \<Rightarrow> EventLoopThreadPool \<Rightarrow> EventLoopThreadPool res" where
  "setThreadNum n p = cpp_assert (0 \<le> n) (Inr (p\<lparr>numThreads := n\<rparr>))"

text \<open>Every started thread hands over its loop; the new loops are the numbers 1, 2, and so on.\<close>

definition etp_start :: "EventLoopThreadPool \<Rightarrow> EventLoopThreadPool res" where
  "etp_start p =
     cpp_assert (\<not> etp_started p)
       (Inr (p\<lparr>etp_started := True, loops := loops p @ [Suc 0 ..< Suc (nat (numThreads p))]\<rparr>))"

definition getNextLoop :: "EventLoopThreadPool \<Rightarrow> (nat \<times> EventLoopThreadPool) res" where
  "getNextLoop p =
     cpp_assert (etp_started p)
       (if loops p = [] then Inr (0, p)
        else if next_loop p < length (loops p)
        then Inr (loops p ! next_loop p,
                  p\<lparr>next_loop := (if Suc (next_loop p) \<ge> length (loops p) then 0 else Suc (next_loop p))\<rparr>)
        else Inl UndefinedBehaviour)"

definition getLoopForHash :: "nat \<Rightarrow> EventLoopThreadPool \<Rightarrow> nat" where
  "getLoopForHash hashCode p = (if loops p = [] then 0 else loops p ! (hashCode mod length (loops p)))"

definition getAllLoops :: "EventLoopThreadPool \<Rightarrow> nat list res" where
  "getAllLoops p = cpp_assert (etp_started p) (Inr (if loops p = [] then [0] else loops p))"

section \<open>The server\<close>

text \<open>
  A connection is known by the number it was given; \<open>stage\<close> is a ghost that follows its life.
  A functor for the loop of the calling thread runs at once (\<open>runInLoop\<close>), others are queued.
\<close>

datatype srv_functor = ConnectEstablished nat | RemoveConnectionInLoop nat | ConnectDestroyed nat

datatype conn_stage = Absent | Created | Established | Closing | Removed | Destroyed

record TcpServer =
  srv_name :: string
  ipPort :: string
  threadPool :: EventLoopThreadPool
  nextConnId :: int
  connections :: "string \<rightharpoonup> nat"
  conn_loop :: "nat \<Rightarrow> nat"
  queues :: "nat \<Rightarrow> srv_functor list"
  stage :: "nat \<Rightarrow> conn_stage"

definition new_TcpServer :: "string \<Rightarrow> string \<Rightarrow> TcpServer" where
  "new_TcpServer nm ip =
     \<lparr>srv_name = nm, ipPort = ip, threadPool = new_EventLoopThreadPool, nextConnId = 1, connections = Map.empty,
      conn_loop = (\<lambda>_. 0), queues = (\<lambda>_. []), stage = (\<lambda>_. Absent)\<rparr>"

text \<open>\<open>snprintf\<close> into a buffer of 64 bytes keeps 63 characters.\<close>

definition conn_name :: "TcpServer \<Rightarrow> nat \<Rightarrow> string" where
  "conn_name s c = srv_name s @ take 63 (''-'' @ ipPort s @ ''#'' @ to_string (int c))"

definition srv_queue :: "nat \<Rightarrow> srv_functor \<Rightarrow> TcpServer \<Rightarrow> TcpServer" where
  "srv_queue l f s = s\<lparr>queues := (queues s)(l := queues s l @ [f])\<rparr>"

definition set_stage :: "nat \<Rightarrow> conn_stage \<Rightarrow> TcpServer \<Rightarrow> TcpServer" where
  "set_stage c g s = s\<lparr>stage := (stage s)(c := g)\<rparr>"

definition removeConnectionInLoop :: "nat \<Rightarrow> TcpServer \<Rightarrow> TcpServer res" where
  "removeConnectionInLoop c s =
     cpp_assert (connections s (conn_name s c) \<noteq> None)
       (Inr (srv_queue (conn_loop s c) (ConnectDestroyed c)
              (set_stage c Removed (s\<lparr>connections := (connections s)(conn_name s c := None)\<rparr>))))"

text \<open>
  The functors: \<open>connectEstablished\<close> asserts that the connection is new (\<open>state_ == kConnecting\<close>).
\<close>

definition run_srv_functor :: "srv_functor \<Rightarrow> TcpServer \<Rightarrow> TcpServer res" where
  "run_srv_functor f s =
     (case f of
        ConnectEstablished c \<Rightarrow> cpp_assert (stage s c = Created) (Inr (set_stage c Established s))
      | RemoveConnectionInLoop c \<Rightarrow> removeConnectionInLoop c s
      | ConnectDestroyed c \<Rightarrow> Inr (set_stage c Destroyed s))"

definition srv_runInLoop :: "nat \<Rightarrow> nat \<Rightarrow> srv_functor \<Rightarrow> TcpServer \<Rightarrow> TcpServer res" where
  "srv_runInLoop cur l f s = (if cur = l then run_srv_functor f s else Inr (srv_queue l f s))"

text \<open>\<open>newConnection\<close> runs in the base loop; incrementing the largest \<open>int\<close> is undefined.\<close>

definition newConnection :: "TcpServer \<Rightarrow> TcpServer res" where
  "newConnection s =
     rbind (getNextLoop (threadPool s)) (\<lambda>(ioLoop, pool).
       if nextConnId s \<ge> int_max then Inl UndefinedBehaviour
       else let c = nat (nextConnId s);
                s1 = s\<lparr>threadPool := pool, nextConnId := nextConnId s + 1,
                       connections := (connections s)(conn_name s c \<mapsto> c),
                       conn_loop := (conn_loop s)(c := ioLoop), stage := (stage s)(c := Created)\<rparr>
            in srv_runInLoop 0 ioLoop (ConnectEstablished c) s1)"

text \<open>The close callback of a connection, called in the connection's loop.\<close>

definition removeConnection :: "nat \<Rightarrow> TcpServer \<Rightarrow> TcpServer res" where
  "removeConnection c s = srv_runInLoop (conn_loop s c) 0 (RemoveConnectionInLoop c) (set_stage c Closing s)"

text \<open>A loop runs the first functor of its queue.\<close>

definition run_next :: "nat \<Rightarrow> TcpServer \<Rightarrow> TcpServer res" where
  "run_next l s =
     (case queues s l of
        [] \<Rightarrow> Inr s
      | f # fs \<Rightarrow> run_srv_functor f (s\<lparr>queues := (queues s)(l := fs)\<rparr>))"

section \<open>The acceptor\<close>

datatype accept_errno = EMFILE | EAGAIN | ACCEPT_OTHER

datatype acceptor_call = NewConnectionCallback int | Close int | ListenSocket

record Acceptor =
  listening :: bool
  reading :: bool
  idleFd :: int
  has_callback :: bool
  acceptor_calls :: "acceptor_call list"

text \<open>\<open>listen_ok\<close> is whether the \<open>listen\<close> call succeeds; \<open>Socket::listen\<close> ends the process otherwise.\<close>

definition Acceptor_listen :: "bool \<Rightarrow> Acceptor \<Rightarrow> Acceptor res" where
  "Acceptor_listen listen_ok a =
     (if listen_ok
      then Inr (a\<lparr>listening := True, acceptor_calls := acceptor_calls a @ [ListenSocket], reading := True\<rparr>)
      else Inl LogFatal)"

text \<open>
  \<open>accept1\<close> is the answer of the first \<open>accept\<close>; when the process is out of descriptors, \<open>accept2\<close> is
  the answer of the second one, made with the spare descriptor closed, and \<open>reopened\<close> the new spare.
\<close>

definition Acceptor_handleRead :: "accept_errno + int \<Rightarrow> int \<Rightarrow> int \<Rightarrow> Acceptor \<Rightarrow> Acceptor" where
  "Acceptor_handleRead accept1 accept2 reopened a =
     (case accept1 of
        Inr connfd \<Rightarrow>
          if has_callback a then a\<lparr>acceptor_calls := acceptor_calls a @ [NewConnectionCallback connfd]\<rparr>
          else a\<lparr>acceptor_calls := acceptor_calls a @ [Close connfd]\<rparr>
      | Inl err \<Rightarrow>
          if err = EMFILE
          then a\<lparr>acceptor_calls := acceptor_calls a @ [Close (idleFd a), Close accept2], idleFd := reopened\<rparr>
          else a)"

section \<open>Round robin\<close>

definition etp_ok :: "EventLoopThreadPool \<Rightarrow> bool" where
  "etp_ok p \<longleftrightarrow> etp_started p \<and> (loops p \<noteq> [] \<longrightarrow> next_loop p < length (loops p)) \<and> (loops p = [] \<longrightarrow> next_loop p = 0)"

fun next_loops :: "nat \<Rightarrow> EventLoopThreadPool \<Rightarrow> (nat list \<times> EventLoopThreadPool) res" where
  "next_loops 0 p = Inr ([], p)"
| "next_loops (Suc k) p =
     rbind (getNextLoop p) (\<lambda>(l, p1). rbind (next_loops k p1) (\<lambda>(ls, p2). Inr (l # ls, p2)))"

lemma getNextLoop_ok:
  assumes "etp_ok p"
  shows "\<exists>p'. getNextLoop p = Inr (if loops p = [] then 0 else loops p ! next_loop p, p') \<and> etp_ok p' \<and> loops p' = loops p
    \<and> (loops p \<noteq> [] \<longrightarrow> next_loop p' = Suc (next_loop p) mod length (loops p))"
proof (cases "loops p = []")
  case False
  with assms have "next_loop p < length (loops p)" by (simp add: etp_ok_def)
  with assms False show ?thesis
    by (cases "Suc (next_loop p) = length (loops p)") (auto simp: getNextLoop_def etp_ok_def cpp_assert_def)
qed (use assms in \<open>simp add: getNextLoop_def etp_ok_def cpp_assert_def\<close>)

lemma next_loops_round_robin:
  assumes "etp_ok p" "loops p \<noteq> []"
  shows "\<exists>p'. next_loops k p = Inr (map (\<lambda>i. loops p ! ((next_loop p + i) mod length (loops p))) [0 ..< k], p')
    \<and> etp_ok p' \<and> loops p' = loops p \<and> next_loop p' = (next_loop p + k) mod length (loops p)"
  using assms
proof (induction k arbitrary: p)
  case 0
  then show ?case by (simp add: etp_ok_def)
next
  case (Suc k)
  let ?n = "length (loops p)"
  from getNextLoop_ok [OF Suc.prems(1)] Suc.prems(2) obtain p1 where
    p1: "getNextLoop p = Inr (loops p ! next_loop p, p1)" "etp_ok p1" "loops p1 = loops p"
    "next_loop p1 = Suc (next_loop p) mod ?n" by auto
  have "next_loop p < ?n" using Suc.prems by (simp add: etp_ok_def)
  moreover have "(Suc (next_loop p) mod ?n + i) mod ?n = (next_loop p + Suc i) mod ?n" for i
    by (simp add: mod_add_left_eq)
  moreover have "map f [0 ..< Suc k] = f 0 # map (\<lambda>i. f (Suc i)) [0 ..< k]" for f :: "nat \<Rightarrow> nat"
    by (simp add: upt_conv_Cons map_Suc_upt [symmetric] del: upt_Suc)
  ultimately show ?case
    using Suc.IH [OF p1(2)] Suc.prems(2) p1 by (fastforce simp del: upt_Suc)
qed

lemma etp_start_ok:
  assumes "setThreadNum n new_EventLoopThreadPool = Inr p" "etp_start p = Inr q"
  shows "etp_ok q" "loops q = [1 ..< Suc (nat n)]" "next_loop q = 0"
  using assms
  by (auto simp: setThreadNum_def etp_start_def new_EventLoopThreadPool_def etp_ok_def cpp_assert_def split: if_splits)

lemma dvd_between:
  fixes n x :: nat
  assumes "0 < x" "x < 2 * n"
  shows "n dvd x \<longleftrightarrow> x = n"
proof
  assume "n dvd x"
  then obtain q where q: "x = n * q" by blast
  with assms have "q \<noteq> 0" "\<not> 2 \<le> q" by (auto simp: mult.commute [of 2] dest: mult_le_mono2 [of 2 q n])
  then have "q = 1" by simp
  with q show "x = n" by simp
qed simp

lemma count_round_robin:
  assumes "1 \<le> l" "l \<le> n"
  shows "count_list (map (\<lambda>i. Suc (i mod n)) [0 ..< k]) l = (k + n - l) div n"
proof (induction k)
  case 0
  then show ?case using assms by simp
next
  case (Suc k)
  let ?r = "Suc (k mod n) + n - l"
  have n: "0 < n" using assms by simp
  then have "k mod n < n" by simp
  then have "0 < ?r" "?r < 2 * n" using assms by linarith+
  then have "n dvd ?r \<longleftrightarrow> ?r = n" by (rule dvd_between)
  also have "\<dots> \<longleftrightarrow> Suc (k mod n) = l" using assms \<open>k mod n < n\<close> by linarith
  finally have r: "n dvd ?r \<longleftrightarrow> Suc (k mod n) = l" .
  have "Suc k + n - l = ?r + n * (k div n)" using assms mod_mult_div_eq [of k n] by linarith
  then have "n dvd Suc k + n - l \<longleftrightarrow> n dvd ?r" by (metis dvd_add_left_iff dvd_triv_left)
  with r have "(Suc k + n - l) mod n = 0 \<longleftrightarrow> Suc (k mod n) = l" by (simp add: mod_eq_0_iff_dvd)
  moreover have "(Suc k + n - l) div n = (if (Suc k + n - l) mod n = 0 then Suc ((k + n - l) div n) else (k + n - l) div n)"
    using assms div_Suc [of "k + n - l" n] by (simp add: Suc_diff_le)
  ultimately show ?case using Suc by simp
qed

lemma round_robin_share:
  assumes "1 \<le> l" "l \<le> n"
  shows "k div n \<le> (k + n - l) div n \<and> (k + n - l) div n \<le> Suc (k div n)"
proof
  show "k div n \<le> (k + n - l) div n" using assms by (intro div_le_mono) simp
  have "(k + n - l) div n \<le> (k + n) div n" by (intro div_le_mono) simp
  moreover have "n \<noteq> 0" using assms by simp
  ultimately show "(k + n - l) div n \<le> Suc (k div n)" using div_add_self2 [of n k] by linarith
qed

section \<open>The life of a connection in the server\<close>

lemma conn_name_inj:
  assumes "length (ipPort s) \<le> 51" "int c \<le> int_max" "int d \<le> int_max" "conn_name s c = conn_name s d"
  shows "c = d"
proof -
  have "length (''-'' @ ipPort s @ ''#'' @ to_string (int x)) \<le> 63" if "int x \<le> int_max" for x
    using length_to_string [of "int x"] that assms(1) by simp
  from this [OF assms(2)] this [OF assms(3)] assms(4) have "to_string (int c) = to_string (int d)"
    by (simp add: conn_name_def)
  then show ?thesis using to_string_inj by fastforce
qed

inductive srv_step :: "TcpServer \<Rightarrow> TcpServer \<Rightarrow> bool" where
  srv_accept: "newConnection s = Inr t \<Longrightarrow> srv_step s t"
| srv_close: "stage s c = Established \<Longrightarrow> removeConnection c s = Inr t \<Longrightarrow> srv_step s t"
| srv_run: "run_next l s = Inr t \<Longrightarrow> srv_step s t"

definition srv_init :: "TcpServer \<Rightarrow> bool" where
  "srv_init s \<longleftrightarrow> (\<exists>nm ip pool. length ip \<le> 51 \<and> etp_ok pool \<and> s = (new_TcpServer nm ip)\<lparr>threadPool := pool\<rparr>)"

definition srv_live :: "TcpServer \<Rightarrow> nat \<Rightarrow> bool" where
  "srv_live s c \<longleftrightarrow> stage s c \<in> {Created, Established, Closing}"

text \<open>The functor that is waiting for a connection, and in which loop.\<close>

fun srv_pending :: "TcpServer \<Rightarrow> nat \<Rightarrow> srv_functor \<Rightarrow> bool" where
  "srv_pending s l (ConnectEstablished c) \<longleftrightarrow> stage s c = Created \<and> conn_loop s c = l"
| "srv_pending s l (RemoveConnectionInLoop c) \<longleftrightarrow> stage s c = Closing \<and> l = 0"
| "srv_pending s l (ConnectDestroyed c) \<longleftrightarrow> stage s c = Removed \<and> conn_loop s c = l"

definition table_ok :: "TcpServer \<Rightarrow> bool" where
  "table_ok s \<longleftrightarrow> etp_ok (threadPool s) \<and> length (ipPort s) \<le> 51 \<and> 1 \<le> nextConnId s \<and> nextConnId s \<le> int_max
     \<and> (\<forall>c. stage s c \<noteq> Absent \<longrightarrow> int c < nextConnId s)
     \<and> (\<forall>nm c. connections s nm = Some c \<longleftrightarrow> nm = conn_name s c \<and> srv_live s c)"

definition queues_ok :: "TcpServer \<Rightarrow> bool" where
  "queues_ok s \<longleftrightarrow> (\<forall>l f. count_list (queues s l) f = (if srv_pending s l f then 1 else 0))"

lemma conn_name_frame [simp]:
  "conn_name (s\<lparr>stage := a\<rparr>) = conn_name s" "conn_name (s\<lparr>connections := b\<rparr>) = conn_name s"
  "conn_name (s\<lparr>queues := q\<rparr>) = conn_name s" "conn_name (s\<lparr>conn_loop := d\<rparr>) = conn_name s"
  "conn_name (s\<lparr>threadPool := e\<rparr>) = conn_name s" "conn_name (s\<lparr>nextConnId := n\<rparr>) = conn_name s"
  by (simp_all add: conn_name_def fun_eq_iff)

lemma table_ok_name:
  assumes "table_ok s" "conn_name s c = conn_name s d" "stage s c \<noteq> Absent" "stage s d \<noteq> Absent"
  shows "c = d"
proof -
  have "int c < nextConnId s" "int d < nextConnId s" "nextConnId s \<le> int_max" "length (ipPort s) \<le> 51"
    using assms by (simp_all add: table_ok_def)
  then show ?thesis using conn_name_inj [of s c d] assms(2) by simp
qed

lemma fresh_conn:
  assumes "table_ok s" "nextConnId s < int_max"
  shows "stage s (nat (nextConnId s)) = Absent" "srv_live s d \<Longrightarrow> conn_name s d \<noteq> conn_name s (nat (nextConnId s))"
proof -
  have n: "1 \<le> nextConnId s" using assms by (simp add: table_ok_def)
  have "stage s (nat (nextConnId s)) \<noteq> Absent \<longrightarrow> int (nat (nextConnId s)) < nextConnId s"
    using assms(1) unfolding table_ok_def by blast
  with n show "stage s (nat (nextConnId s)) = Absent" by auto
  assume "srv_live s d"
  then have d: "stage s d \<noteq> Absent" by (auto simp: srv_live_def)
  then have "int d < nextConnId s" using assms(1) by (simp add: table_ok_def)
  then show "conn_name s d \<noteq> conn_name s (nat (nextConnId s))"
    using conn_name_inj [of s d "nat (nextConnId s)"] assms n by (auto simp: table_ok_def split: if_splits)
qed

lemma newConnection_ok:
  assumes "table_ok s" "queues_ok s" "nextConnId s < int_max"
  shows "\<exists>t. newConnection s = Inr t \<and> table_ok t \<and> queues_ok t"
proof -
  let ?c = "nat (nextConnId s)"
  note fresh = fresh_conn [OF assms(1,3)]
  have n: "1 \<le> nextConnId s" using assms(1) by (simp add: table_ok_def)
  have "etp_ok (threadPool s)" using assms(1) by (simp add: table_ok_def)
  then obtain l pool where l: "getNextLoop (threadPool s) = Inr (l, pool)" "etp_ok pool"
    using getNextLoop_ok by blast
  define t where "t g = s\<lparr>threadPool := pool, nextConnId := nextConnId s + 1, connections := (connections s)(conn_name s ?c \<mapsto> ?c),
      conn_loop := (conn_loop s)(?c := l), stage := (stage s)(?c := g)\<rparr>" for g
  have live: "srv_live (t g) d \<longleftrightarrow> d = ?c \<or> srv_live s d" if "g \<in> {Created, Established, Closing}" for g d
    using that by (auto simp: srv_live_def t_def)
  have tab: "table_ok (t g)" if "g \<in> {Created, Established, Closing}" for g
    unfolding table_ok_def
  proof (intro conjI allI impI)
    fix d assume "stage (t g) d \<noteq> Absent"
    then show "int d < nextConnId (t g)" using assms(1) n by (cases "d = ?c") (auto simp: t_def table_ok_def dest: spec [of _ d])
  next
    fix nm d
    have "connections s nm = Some d \<longleftrightarrow> nm = conn_name s d \<and> srv_live s d" using assms(1) by (simp add: table_ok_def)
    moreover have "conn_name (t g) = conn_name s" "connections (t g) = (connections s)(conn_name s ?c \<mapsto> ?c)"
      by (simp_all add: t_def)
    moreover have "\<not> srv_live s ?c" using fresh(1) by (simp add: srv_live_def)
    ultimately show "connections (t g) nm = Some d \<longleftrightarrow> nm = conn_name (t g) d \<and> srv_live (t g) d"
      using fresh(2) [of d] live [OF that, of d] by auto
  qed (use assms n l in \<open>auto simp: t_def table_ok_def\<close>)
  have q: "count_list (queues s m) f = (if srv_pending s m f then 1 else 0)" for m f
    using assms(2) by (simp add: queues_ok_def)
  have pe: "srv_pending (t Established) m f = srv_pending s m f" for m f
    using fresh(1) by (cases f) (auto simp: t_def)
  have pc: "srv_pending (srv_queue l g (t Created)) m f = (srv_pending s m f \<or> (m = l \<and> f = ConnectEstablished ?c))" for m f g
    using fresh(1) by (cases f) (auto simp: t_def srv_queue_def)
  have new: "\<not> srv_pending s m (ConnectEstablished ?c)" for m using fresh(1) by simp
  show ?thesis
  proof (cases "l = 0")
    case True
    have "newConnection s = Inr (t Established)"
      using l assms(3) True
      by (simp add: newConnection_def srv_runInLoop_def run_srv_functor_def set_stage_def t_def Let_def)
    moreover have "queues_ok (t Established)" unfolding queues_ok_def pe using q by (simp add: t_def)
    ultimately show ?thesis using tab by blast
  next
    case False
    have "newConnection s = Inr (srv_queue l (ConnectEstablished ?c) (t Created))"
      using l assms(3) False by (simp add: newConnection_def srv_runInLoop_def t_def Let_def)
    moreover have "queues_ok (srv_queue l (ConnectEstablished ?c) (t Created))"
      unfolding queues_ok_def pc using q new by (simp add: t_def srv_queue_def)
    moreover have "table_ok (srv_queue l (ConnectEstablished ?c) (t Created))"
      using tab [of Created] by (simp add: table_ok_def srv_live_def srv_queue_def)
    ultimately show ?thesis by blast
  qed
qed

text \<open>
  Leaving the table: the connection is found under its name, and its destruction is queued.  The
  queue of the base loop may or may not still hold the functor that is running (\<open>qs\<close>).
\<close>

lemma remove_ok:
  assumes "table_ok s" "stage s c = Closing"
    and q: "\<And>l f. count_list (queues s l) f = (if srv_pending s l f \<and> f \<noteq> RemoveConnectionInLoop c then 1 else 0)"
  shows "\<exists>t. removeConnectionInLoop c s = Inr t \<and> table_ok t \<and> queues_ok t"
proof -
  let ?t = "srv_queue (conn_loop s c) (ConnectDestroyed c)
      (set_stage c Removed (s\<lparr>connections := (connections s)(conn_name s c := None)\<rparr>))"
  have c: "srv_live s c" using assms(2) by (simp add: srv_live_def)
  then have "connections s (conn_name s c) = Some c" using assms(1) by (simp add: table_ok_def)
  then have "removeConnectionInLoop c s = Inr ?t" by (simp add: removeConnectionInLoop_def)
  moreover have "table_ok ?t"
    unfolding table_ok_def
  proof (intro conjI allI impI)
    fix nm d
    have "connections s nm = Some d \<longleftrightarrow> nm = conn_name s d \<and> srv_live s d" using assms(1) by (simp add: table_ok_def)
    moreover have "srv_live ?t d \<longleftrightarrow> d \<noteq> c \<and> srv_live s d"
      by (auto simp: srv_live_def srv_queue_def set_stage_def)
    moreover have "conn_name ?t = conn_name s" by (simp add: srv_queue_def set_stage_def)
    moreover have "connections ?t = (connections s)(conn_name s c := None)" by (simp add: srv_queue_def set_stage_def)
    moreover have "conn_name s d = conn_name s c \<Longrightarrow> srv_live s d \<Longrightarrow> d = c"
      using table_ok_name [OF assms(1), of d c] c by (auto simp: srv_live_def)
    ultimately show "connections ?t nm = Some d \<longleftrightarrow> nm = conn_name ?t d \<and> srv_live ?t d" by auto
  next
    fix d assume "stage ?t d \<noteq> Absent"
    then show "int d < nextConnId ?t" using assms(1,2)
      by (cases "d = c") (auto simp: table_ok_def srv_queue_def set_stage_def dest: spec [of _ c])
  qed (use assms(1) in \<open>auto simp: table_ok_def srv_queue_def set_stage_def\<close>)
  moreover have "srv_pending ?t l f = ((srv_pending s l f \<and> f \<noteq> RemoveConnectionInLoop c) \<or> (l = conn_loop s c \<and> f = ConnectDestroyed c))"
    for l f using assms(2) by (cases f) (auto simp: srv_queue_def set_stage_def)
  then have "queues_ok ?t"
    using q assms(2) by (auto simp: queues_ok_def srv_queue_def set_stage_def)
  ultimately show ?thesis by blast
qed

lemma set_stage_live:
  assumes "table_ok s" "srv_live s c" "g \<in> {Created, Established, Closing}"
  shows "table_ok (set_stage c g s)"
proof -
  have "srv_live (set_stage c g s) d = srv_live s d" for d
    using assms(2,3) by (auto simp: srv_live_def set_stage_def)
  moreover have "stage s c \<noteq> Absent" using assms(2) by (auto simp: srv_live_def)
  ultimately show ?thesis
    using assms(1) by (auto simp: table_ok_def) (auto simp: set_stage_def split: if_splits)
qed

lemma removeConnection_ok:
  assumes "table_ok s" "queues_ok s" "stage s c = Established"
  shows "\<exists>t. removeConnection c s = Inr t \<and> table_ok t \<and> queues_ok t"
proof -
  let ?s = "set_stage c Closing s"
  have tab: "table_ok ?s" using assms by (intro set_stage_live) (simp_all add: srv_live_def)
  have q: "count_list (queues s l) f = (if srv_pending s l f then 1 else 0)" for l f
    using assms(2) by (simp add: queues_ok_def)
  have p: "srv_pending ?s l f = (srv_pending s l f \<or> l = 0 \<and> f = RemoveConnectionInLoop c)" for l f
    using assms(3) by (cases f) (auto simp: set_stage_def)
  have np: "\<not> srv_pending s l (RemoveConnectionInLoop c)" for l using assms(3) by simp
  have qs: "queues ?s = queues s" by (simp add: set_stage_def)
  show ?thesis
  proof (cases "conn_loop s c = 0")
    case True
    have "\<exists>t. removeConnectionInLoop c ?s = Inr t \<and> table_ok t \<and> queues_ok t"
      using tab
    proof (rule remove_ok)
      show "count_list (queues ?s l) f = (if srv_pending ?s l f \<and> f \<noteq> RemoveConnectionInLoop c then 1 else 0)" for l f
        unfolding qs p q using np by auto
    qed (simp add: set_stage_def)
    then show ?thesis using True by (simp add: removeConnection_def srv_runInLoop_def run_srv_functor_def)
  next
    case False
    let ?t = "srv_queue 0 (RemoveConnectionInLoop c) ?s"
    have "srv_pending ?t l f = srv_pending ?s l f" for l f by (cases f) (simp_all add: srv_queue_def)
    then have "srv_pending ?t l f = (srv_pending s l f \<or> l = 0 \<and> f = RemoveConnectionInLoop c)" for l f using p by simp
    moreover have "queues ?t = (queues s)(0 := queues s 0 @ [RemoveConnectionInLoop c])"
      by (simp add: srv_queue_def set_stage_def)
    ultimately have "queues_ok ?t" using q assms(3) by (simp add: queues_ok_def)
    moreover have "table_ok ?t" using tab by (simp add: table_ok_def srv_live_def srv_queue_def)
    ultimately show ?thesis using False by (simp add: removeConnection_def srv_runInLoop_def)
  qed
qed

lemma run_next_ok:
  assumes "table_ok s" "queues_ok s"
  shows "\<exists>t. run_next l s = Inr t \<and> table_ok t \<and> queues_ok t"
proof (cases "queues s l")
  case Nil
  then show ?thesis using assms by (simp add: run_next_def)
next
  case (Cons f fs)
  let ?s = "s\<lparr>queues := (queues s)(l := fs)\<rparr>"
  have q: "count_list (queues s m) g = (if srv_pending s m g then 1 else 0)" for m g
    using assms(2) by (simp add: queues_ok_def)
  have pend: "srv_pending s l f" using q [of l f] Cons by (simp split: if_splits)
  have q': "count_list (queues ?s m) g = (if srv_pending s m g \<and> \<not> (m = l \<and> g = f) then 1 else 0)" for m g
    using q [of m g] q [of l f] Cons by (auto split: if_splits)
  have tab: "table_ok ?s" using assms(1) by (simp add: table_ok_def srv_live_def)
  have ps: "srv_pending ?s m g = srv_pending s m g" for m g by (cases g) simp_all
  show ?thesis
  proof (cases f)
    case (ConnectEstablished c)
    let ?t = "set_stage c Established ?s"
    have "table_ok ?t" using tab pend ConnectEstablished by (intro set_stage_live) (simp_all add: srv_live_def)
    moreover have "srv_pending ?t m g = (srv_pending s m g \<and> \<not> (m = l \<and> g = f))" for m g
      using pend ConnectEstablished by (cases g) (auto simp: set_stage_def)
    then have "queues_ok ?t" using q' by (simp add: queues_ok_def set_stage_def)
    ultimately show ?thesis using Cons ConnectEstablished pend by (simp add: run_next_def run_srv_functor_def)
  next
    case (RemoveConnectionInLoop c)
    have "\<exists>t. removeConnectionInLoop c ?s = Inr t \<and> table_ok t \<and> queues_ok t"
      using tab
    proof (rule remove_ok)
      show "stage ?s c = Closing" using pend RemoveConnectionInLoop by simp
      show "count_list (queues ?s m) g = (if srv_pending ?s m g \<and> g \<noteq> RemoveConnectionInLoop c then 1 else 0)" for m g
        using q' [of m g] pend RemoveConnectionInLoop unfolding ps by auto
    qed
    then show ?thesis using Cons RemoveConnectionInLoop by (simp add: run_next_def run_srv_functor_def)
  next
    case (ConnectDestroyed c)
    let ?t = "set_stage c Destroyed ?s"
    have "srv_live ?t d = srv_live s d" for d using pend ConnectDestroyed by (auto simp: srv_live_def set_stage_def)
    moreover have "stage s c \<noteq> Absent" using pend ConnectDestroyed by simp
    ultimately have "table_ok ?t"
      using assms(1) by (auto simp: table_ok_def) (auto simp: set_stage_def split: if_splits)
    moreover have "srv_pending ?t m g = (srv_pending s m g \<and> \<not> (m = l \<and> g = f))" for m g
      using pend ConnectDestroyed by (cases g) (auto simp: set_stage_def)
    then have "queues_ok ?t" using q' by (simp add: queues_ok_def set_stage_def)
    ultimately show ?thesis using Cons ConnectDestroyed by (simp add: run_next_def run_srv_functor_def)
  qed
qed

definition srv_inv :: "TcpServer \<Rightarrow> bool" where
  "srv_inv s \<longleftrightarrow> table_ok s \<and> queues_ok s"

lemma count_list_Nil_pending: "srv_pending (new_TcpServer nm ip\<lparr>threadPool := pool\<rparr>) l f = False"
  by (cases f) (simp_all add: new_TcpServer_def)

lemma srv_init_inv: "srv_init s \<Longrightarrow> srv_inv s"
  by (auto simp: srv_init_def srv_inv_def queues_ok_def count_list_Nil_pending)
     (auto simp: new_TcpServer_def table_ok_def srv_live_def int_max_def)

lemma srv_step_inv:
  assumes "srv_inv s" "srv_step s t"
  shows "srv_inv t"
  using assms(2)
proof cases
  case srv_accept
  then have "nextConnId s < int_max" by (auto simp: newConnection_def split_def split: if_splits)
  with newConnection_ok [of s] assms(1) srv_accept show ?thesis by (auto simp: srv_inv_def)
next
  case (srv_close c)
  with removeConnection_ok [of s c] assms(1) show ?thesis by (auto simp: srv_inv_def)
next
  case (srv_run l)
  with run_next_ok [of s l] assms(1) show ?thesis by (auto simp: srv_inv_def)
qed

lemma reachable_srv_inv: "reachable srv_init srv_step s \<Longrightarrow> srv_inv s"
  by (erule reachable_invariant) (simp_all add: srv_init_inv srv_step_inv)

section \<open>Properties\<close>

text \<open>
  After \<open>start\<close> with n threads the connections are dealt out in turn: the k-th goes to loop
  k mod n, and of the first k connections every loop gets k div n or one more; with no threads all
  go to the base loop.
\<close>

theorem loops_round_robin:
  assumes "setThreadNum n new_EventLoopThreadPool = Inr p" "etp_start p = Inr q"
  shows "\<exists>ls q'. next_loops k q = Inr (ls, q')
    \<and> (n > 0 \<longrightarrow> ls = map (\<lambda>i. Suc (i mod nat n)) [0 ..< k]
         \<and> (\<forall>l \<in> {1 .. nat n}. count_list ls l \<in> {k div nat n, Suc (k div nat n)}))
    \<and> (n = 0 \<longrightarrow> ls = replicate k 0)"
proof (cases "n > 0")
  case True
  note q = etp_start_ok [OF assms]
  have "loops q \<noteq> []" "length (loops q) = nat n" using q(2) True by simp_all
  moreover have "loops q ! (i mod nat n) = Suc (i mod nat n)" for i
    using q(2) True by (simp add: nth_append del: upt_Suc)
  ultimately obtain q' where "next_loops k q = Inr (map (\<lambda>i. Suc (i mod nat n)) [0 ..< k], q')"
    using next_loops_round_robin [OF q(1), of k] q(3) by auto
  moreover have "count_list (map (\<lambda>i. Suc (i mod nat n)) [0 ..< k]) l \<in> {k div nat n, Suc (k div nat n)}"
    if "l \<in> {1 .. nat n}" for l
  proof -
    from that have l: "1 \<le> l" "l \<le> nat n" by simp_all
    show ?thesis unfolding count_round_robin [OF l] using round_robin_share [OF l, of k] by (simp add: le_Suc_eq) linarith
  qed
  ultimately show ?thesis using True by blast
next
  case False
  then have "loops q = []" "etp_ok q" using etp_start_ok [OF assms] by simp_all
  then have "next_loops k q = Inr (replicate k 0, q)"
    by (induction k) (simp_all add: getNextLoop_def etp_ok_def)
  then show ?thesis using False by auto
qed

theorem loops_round_robin_witness:
  "\<exists>p q ls q'. setThreadNum 3 new_EventLoopThreadPool = Inr p \<and> etp_start p = Inr q \<and> next_loops 4 q = Inr (ls, q')
     \<and> ls = [1, 2, 3, 1]"
proof -
  let ?p = "new_EventLoopThreadPool\<lparr>numThreads := 3\<rparr>"
  have p: "setThreadNum 3 new_EventLoopThreadPool = Inr ?p" by (simp add: setThreadNum_def)
  obtain q where q: "etp_start ?p = Inr q" by (simp add: etp_start_def new_EventLoopThreadPool_def)
  from loops_round_robin [OF p q, of 4] p q show ?thesis by (auto simp: upt_rec)
qed

text \<open>
  Claim C21. However accepting, closing and the loops' functors interleave, the server runs into no assertion:
  a new connection can always be taken (until the counter of connections overflows), closing an
  established connection and running any queued functor succeed; the table holds exactly the
  connections that are not yet removed, each under its own name; and every connection has at most
  one functor waiting, the one its stage asks for, in the loop that has to run it.  (The address the
  server listens on takes at most 51 characters, so that no name is cut off.)
\<close>

theorem tcp_server_table:
  assumes "reachable srv_init srv_step s"
  shows "(nextConnId s < int_max \<longrightarrow> (\<exists>t. newConnection s = Inr t))
    \<and> (\<forall>c. stage s c = Established \<longrightarrow> (\<exists>t. removeConnection c s = Inr t))
    \<and> (\<forall>l. \<exists>t. run_next l s = Inr t)
    \<and> (\<forall>nm c. connections s nm = Some c \<longleftrightarrow> nm = conn_name s c \<and> stage s c \<in> {Created, Established, Closing})
    \<and> (\<forall>l f. count_list (queues s l) f = (if srv_pending s l f then 1 else 0))"
proof -
  have ok: "table_ok s" "queues_ok s" using reachable_srv_inv [OF assms] by (simp_all add: srv_inv_def)
  show ?thesis
  proof (intro conjI allI impI)
    show "\<exists>t. newConnection s = Inr t" if "nextConnId s < int_max" using newConnection_ok [OF ok that] by blast
    show "\<exists>t. removeConnection c s = Inr t" if "stage s c = Established" for c using removeConnection_ok [OF ok that] by blast
    show "\<exists>t. run_next l s = Inr t" for l using run_next_ok [OF ok, of l] by blast
    show "connections s nm = Some c \<longleftrightarrow> nm = conn_name s c \<and> stage s c \<in> {Created, Established, Closing}" for nm c
      using ok(1) by (simp add: table_ok_def srv_live_def)
    show "count_list (queues s l) f = (if srv_pending s l f then 1 else 0)" for l f
      using ok(2) by (simp add: queues_ok_def)
  qed
qed

definition sample_server :: TcpServer where
  "sample_server = (new_TcpServer ''http'' ''0.0.0.0:8080'')\<lparr>threadPool := \<lparr>etp_started = True, numThreads = 0, next_loop = 0, loops = []\<rparr>\<rparr>"

theorem tcp_server_table_witness:
  "\<exists>t. newConnection sample_server = Inr t \<and> run_next 0 t = Inr t \<and> connections t ''http-0.0.0.0:8080#1'' = Some 1"
proof -
  have init: "srv_init sample_server"
    unfolding srv_init_def sample_server_def by (intro exI conjI) (auto simp: etp_ok_def)
  then have r: "reachable srv_init srv_step sample_server" by (rule reachable_init)
  have "nextConnId sample_server < int_max" by (simp add: sample_server_def new_TcpServer_def int_max_def)
  with tcp_server_table [OF r] obtain t where t: "newConnection sample_server = Inr t" by blast
  have one: "to_string 1 = ''1''"
    unfolding to_string_def by (subst nat_to_string.simps) (simp add: digit_char_def char_of_def bit_0)
  have pool: "getNextLoop (threadPool sample_server) = Inr (0, threadPool sample_server)"
    by (simp add: sample_server_def getNextLoop_def)
  from t have "newConnection sample_server = Inr t" by simp
  then have st: "stage t 1 = Established" "queues t 0 = []" "srv_name t = ''http''" "ipPort t = ''0.0.0.0:8080''"
    unfolding newConnection_def pool
    by (auto simp: srv_runInLoop_def run_srv_functor_def set_stage_def Let_def sample_server_def new_TcpServer_def int_max_def)
  then have nm: "conn_name t 1 = ''http-0.0.0.0:8080#1''" by (simp add: conn_name_def one)
  have "reachable srv_init srv_step t" using r t by (blast intro: reachable_step srv_accept)
  from tcp_server_table [OF this] have "connections t (conn_name t 1) = Some 1" using st(1) by simp
  then show ?thesis using t st(2) unfolding nm by (simp add: run_next_def)
qed

end
