(* ===== verification/Inet_Address.thy ===== *)
theory Inet_Address
  imports Net_Buffer C_Format
begin

text \<open>
  Socket addresses and the thin layer around the socket calls (\<open>network/src/InetAddress.cc\<close>,
  \<open>network/src/SocketsOps.cc\<close>, \<open>network/src/Socket.cc\<close>): the two constructors, the printed forms, the
  comparison behind \<open>isSelfConnect\<close>, and which failures of \<open>accept\<close> end the process.

  \<open>inet_pton\<close> and \<open>inet_ntop\<close> are arguments (\<open>inet_api\<close>).  An address is the union of the source: the
  member that was written last, with the ports and IPv4 addresses in network byte order; the bytes that
  both members share (family and port) are read through either.
\<close>

section \<open>Addresses\<close>

datatype InetAddress =
    Addr4 "16 word" "32 word"
  | Addr6 "16 word" "8 word list" "32 word"

record inet_api =
  inet_pton4 :: "string \<Rightarrow> 32 word option"
  inet_pton6 :: "string \<Rightarrow> 8 word list option"
  inet_ntop4 :: "32 word \<Rightarrow> string"
  inet_ntop6 :: "8 word list \<Rightarrow> string"

definition kInaddrAny :: "32 word" where "kInaddrAny = 0"
definition kInaddrLoopback :: "32 word" where "kInaddrLoopback = 0x7F000001"
definition in6addr_any :: "8 word list" where "in6addr_any = replicate 16 0"
definition in6addr_loopback :: "8 word list" where "in6addr_loopback = replicate 15 0 @ [1]"

definition is_ipv6 :: "InetAddress \<Rightarrow> bool" where
  "is_ipv6 a = (case a of Addr4 _ _ \<Rightarrow> False | Addr6 _ _ _ \<Rightarrow> True)"

definition InetAddress_of_port :: "16 word \<Rightarrow> bool \<Rightarrow> bool \<Rightarrow> InetAddress" where
  "InetAddress_of_port portArg loopbackOnly ipv6 =
     (if ipv6 then Addr6 (hostToNetwork16 portArg) (if loopbackOnly then in6addr_loopback else in6addr_any) 0
      else Addr4 (hostToNetwork16 portArg) (hostToNetwork32 (if loopbackOnly then kInaddrLoopback else kInaddrAny)))"

text \<open>\<open>fromIpPort\<close> only logs when the text is no address; the structure was zeroed before.\<close>

definition fromIpPort4 :: "inet_api \<Rightarrow> string \<Rightarrow> 16 word \<Rightarrow> InetAddress" where
  "fromIpPort4 api ip port = Addr4 (hostToNetwork16 port) (case inet_pton4 api ip of Some a \<Rightarrow> a | None \<Rightarrow> 0)"

definition fromIpPort6 :: "inet_api \<Rightarrow> string \<Rightarrow> 16 word \<Rightarrow> InetAddress" where
  "fromIpPort6 api ip port = Addr6 (hostToNetwork16 port) (case inet_pton6 api ip of Some a \<Rightarrow> a | None \<Rightarrow> in6addr_any) 0"

definition InetAddress_of_ip :: "inet_api \<Rightarrow> string \<Rightarrow> 16 word \<Rightarrow> bool \<Rightarrow> InetAddress" where
  "InetAddress_of_ip api ip portArg ipv6 =
     (if ipv6 \<or> CHR '':'' \<in> set (c_str ip) then fromIpPort6 api (c_str ip) portArg else fromIpPort4 api (c_str ip) portArg)"

definition portNetEndian :: "InetAddress \<Rightarrow> 16 word" where
  "portNetEndian a = (case a of Addr4 p _ \<Rightarrow> p | Addr6 p _ _ \<Rightarrow> p)"

definition InetAddress_port :: "InetAddress \<Rightarrow> 16 word" where
  "InetAddress_port a = networkToHost16 (portNetEndian a)"

definition ipv4NetEndian :: "InetAddress \<Rightarrow> 32 word res" where
  "ipv4NetEndian a = (case a of Addr4 _ ip \<Rightarrow> Inr ip | Addr6 _ _ _ \<Rightarrow> Inl AssertFailed)"

definition setScopeId :: "32 word \<Rightarrow> InetAddress \<Rightarrow> InetAddress" where
  "setScopeId sid a = (case a of Addr4 p ip \<Rightarrow> Addr4 p ip | Addr6 p ip _ \<Rightarrow> Addr6 p ip sid)"

section \<open>Printing\<close>

text \<open>A C string written to a buffer of \<open>sz\<close> bytes: \<open>inet_ntop\<close> writes nothing when there is no room, \<open>snprintf\<close> cuts.\<close>

definition ntop_into :: "nat \<Rightarrow> string \<Rightarrow> string" where
  "ntop_into sz s = (if length s < sz then s else [])"

definition snprintf_into :: "nat \<Rightarrow> string \<Rightarrow> string" where
  "snprintf_into sz s = take (sz - 1) s"

definition toIp :: "inet_api \<Rightarrow> nat \<Rightarrow> InetAddress \<Rightarrow> string res" where
  "toIp api sz a =
     (case a of
        Addr4 _ ip \<Rightarrow> cpp_assert (16 \<le> sz) (Inr (ntop_into sz (inet_ntop4 api ip)))
      | Addr6 _ ip _ \<Rightarrow> cpp_assert (46 \<le> sz) (Inr (ntop_into sz (inet_ntop6 api ip))))"

definition toIpPort :: "inet_api \<Rightarrow> nat \<Rightarrow> InetAddress \<Rightarrow> string res" where
  "toIpPort api sz a =
     (case a of
        Addr6 _ _ _ \<Rightarrow>
          rbind (toIp api (sz - 1) a) (\<lambda>ip.
            let buf = CHR ''['' # ip
            in cpp_assert (length buf < sz)
                 (Inr (buf @ snprintf_into (sz - length buf) ('']:'' @ to_string (int (unat (InetAddress_port a)))))))
      | Addr4 _ _ \<Rightarrow>
          rbind (toIp api sz a) (\<lambda>buf.
            cpp_assert (length buf < sz)
              (Inr (buf @ snprintf_into (sz - length buf) ('':'' @ to_string (int (unat (InetAddress_port a))))))))"

definition InetAddress_toIp :: "inet_api \<Rightarrow> InetAddress \<Rightarrow> string res" where
  "InetAddress_toIp api a = toIp api 64 a"

definition InetAddress_toIpPort :: "inet_api \<Rightarrow> InetAddress \<Rightarrow> string res" where
  "InetAddress_toIpPort api a = toIpPort api 64 a"

section \<open>Sockets\<close>

text \<open>
  The local and the peer address of a socket as the kernel reports them; \<open>None\<close> stands for the zeroed
  structure that is left when the call fails.  The peer's bytes are read in the layout of the local
  family; the flow information of an IPv6 address, which lies where IPv4 has the address, is zero.
\<close>

definition as_in4 :: "InetAddress option \<Rightarrow> 16 word \<times> 32 word" where
  "as_in4 a = (case a of None \<Rightarrow> (0, 0) | Some (Addr4 p ip) \<Rightarrow> (p, ip) | Some (Addr6 p _ _) \<Rightarrow> (p, 0))"

definition as_in6 :: "InetAddress option \<Rightarrow> 16 word \<times> 8 word list" where
  "as_in6 a = (case a of None \<Rightarrow> (0, replicate 16 0) | Some (Addr4 p _) \<Rightarrow> (p, replicate 16 0) | Some (Addr6 p ip _) \<Rightarrow> (p, ip))"

definition isSelfConnect :: "InetAddress option \<Rightarrow> InetAddress option \<Rightarrow> bool" where
  "isSelfConnect localaddr peeraddr =
     (case localaddr of
        Some (Addr4 p ip) \<Rightarrow> as_in4 peeraddr = (p, ip)
      | Some (Addr6 p ip _) \<Rightarrow> as_in6 peeraddr = (p, ip)
      | None \<Rightarrow> False)"

datatype accept_errno =
    EAGAIN | ECONNABORTED | EINTR | EPROTO | EPERM | EMFILE
  | EBADF | EFAULT | EINVAL | ENFILE | ENOBUFS | ENOMEM | ENOTSOCK | EOPNOTSUPP | OtherErrno int

text \<open>\<open>sockets::accept\<close>: the descriptor, or the error that is kept in \<open>errno\<close>; the other errors are fatal.\<close>

definition sockets_accept :: "accept_errno + int \<Rightarrow> (accept_errno + int) res" where
  "sockets_accept r =
     (case r of
        Inr fd \<Rightarrow> Inr (Inr fd)
      | Inl e \<Rightarrow> if e \<in> {EAGAIN, ECONNABORTED, EINTR, EPROTO, EPERM, EMFILE} then Inr (Inl e) else Inl LogFatal)"

text \<open>\<open>Socket::accept\<close>, which the acceptor uses: any failure is only logged, and the peer is written on success.\<close>

definition Socket_accept :: "accept_errno + (int \<times> InetAddress) \<Rightarrow> InetAddress \<Rightarrow> int \<times> InetAddress" where
  "Socket_accept r peeraddr = (case r of Inr (fd, addr) \<Rightarrow> (fd, addr) | Inl _ \<Rightarrow> (-1, peeraddr))"

definition bindOrDie :: "bool \<Rightarrow> unit res" where
  "bindOrDie ok = (if ok then Inr () else Inl LogFatal)"

definition getSocketError :: "accept_errno + accept_errno option \<Rightarrow> accept_errno option" where
  "getSocketError r = (case r of Inl e \<Rightarrow> Some e | Inr optval \<Rightarrow> optval)"

section \<open>Properties\<close>

lemma networkToHost16_hostToNetwork16 [simp]: "networkToHost16 (hostToNetwork16 w) = w"
proof -
  have lt: "unat w < 256 ^ 2" using unsigned_less [of w] by simp
  have "unat (word_of_nat (bswap 2 (unat w)) :: 16 word) = bswap 2 (unat w)"
    using bswap_less [of 2 "unat w"] by (simp add: unat_of_nat take_bit_eq_mod)
  then show ?thesis using bswap_bswap [OF lt] by (simp add: networkToHost16_def hostToNetwork16_def)
qed

text \<open>What \<open>inet_ntop\<close> promises: the texts fit the buffer sizes of the system headers.\<close>

definition inet_texts_fit :: "inet_api \<Rightarrow> bool" where
  "inet_texts_fit api \<longleftrightarrow> (\<forall>ip. length (inet_ntop4 api ip) < 16) \<and> (\<forall>ip. length (inet_ntop6 api ip) < 46)"

lemma port_text_short: "length (to_string (int (unat (p :: 16 word)))) \<le> 5"
proof -
  have "unat p < 2 ^ 16" using unsigned_less [of p, where 'a = nat] by simp
  then have "unat p < 10 ^ Suc 4" by simp
  then show ?thesis using length_nat_to_string [of "unat p" 4] by (simp add: to_string_def)
qed

text \<open>
  Both constructors keep the port, and the 64-byte buffer of \<open>toIpPort\<close> holds every address in full:
  no assertion fails and nothing is cut, for IPv4 as for IPv6.
\<close>

theorem inet_address_prints:
  assumes "inet_texts_fit api"
  shows "InetAddress_port (InetAddress_of_port p lo v6) = p \<and> InetAddress_port (InetAddress_of_ip api ip p v6) = p \<and>
         InetAddress_toIpPort api a =
           Inr (case a of
                  Addr4 _ i \<Rightarrow> inet_ntop4 api i @ '':'' @ to_string (int (unat (InetAddress_port a)))
                | Addr6 _ i _ \<Rightarrow> ''['' @ inet_ntop6 api i @ '']:'' @ to_string (int (unat (InetAddress_port a))))"
proof -
  have port: "length (to_string (int (unat (InetAddress_port a)))) \<le> 5" by (rule port_text_short)
  have "InetAddress_toIpPort api a =
           Inr (case a of
                  Addr4 _ i \<Rightarrow> inet_ntop4 api i @ '':'' @ to_string (int (unat (InetAddress_port a)))
                | Addr6 _ i _ \<Rightarrow> ''['' @ inet_ntop6 api i @ '']:'' @ to_string (int (unat (InetAddress_port a))))"
  proof (cases a)
    case (Addr4 q i)
    have "length (inet_ntop4 api i) < 16" using assms by (simp add: inet_texts_fit_def)
    with Addr4 port show ?thesis
      by (simp add: InetAddress_toIpPort_def toIpPort_def toIp_def ntop_into_def snprintf_into_def)
  next
    case (Addr6 q i sc)
    have "length (inet_ntop6 api i) < 46" using assms by (simp add: inet_texts_fit_def)
    with Addr6 port show ?thesis
      by (simp add: InetAddress_toIpPort_def toIpPort_def toIp_def ntop_into_def snprintf_into_def Let_def)
  qed
  then show ?thesis
    by (simp add: InetAddress_port_def portNetEndian_def InetAddress_of_port_def InetAddress_of_ip_def fromIpPort4_def fromIpPort6_def)
qed

theorem inet_address_prints_witness:
  "InetAddress_toIpPort \<lparr>inet_pton4 = (\<lambda>_. None), inet_pton6 = (\<lambda>_. None), inet_ntop4 = (\<lambda>_. ''0.0.0.0''), inet_ntop6 = (\<lambda>_. ''::'')\<rparr>
     (InetAddress_of_port 80 False False) = Inr (''0.0.0.0:'' @ to_string 80)"
proof -
  let ?api = "\<lparr>inet_pton4 = (\<lambda>_. None), inet_pton6 = (\<lambda>_. None), inet_ntop4 = (\<lambda>_. ''0.0.0.0''), inet_ntop6 = (\<lambda>_. ''::'')\<rparr>"
  have "inet_texts_fit ?api" by (simp add: inet_texts_fit_def)
  from inet_address_prints [OF this, of 80 False False "[]" "InetAddress_of_port 80 False False"]
  have "InetAddress_port (InetAddress_of_port 80 False False) = 80"
    "InetAddress_toIpPort ?api (InetAddress_of_port 80 False False) =
      Inr (''0.0.0.0:'' @ to_string (int (unat (InetAddress_port (InetAddress_of_port 80 False False)))))"
    by (simp_all add: InetAddress_of_port_def)
  then show ?thesis by simp
qed

text \<open>For two addresses of one family the test is equality of port and address, whatever the scope.\<close>

lemma isSelfConnect_iff:
  "is_ipv6 a = is_ipv6 b \<Longrightarrow> isSelfConnect (Some a) (Some b) \<longleftrightarrow> setScopeId 0 a = setScopeId 0 b"
  by (cases a; cases b) (auto simp: isSelfConnect_def is_ipv6_def as_in4_def as_in6_def setScopeId_def)

text \<open>
  A process out of descriptors goes on; a system out of them ends the server on the path of
  \<open>sockets::accept\<close>, while \<open>Socket::accept\<close> tolerates every failure.
\<close>

lemma accept_out_of_descriptors:
  "sockets_accept (Inl EMFILE) = Inr (Inl EMFILE)" "sockets_accept (Inl ENFILE) = Inl LogFatal"
  "Socket_accept (Inl e) peer = (-1, peer)"
  by (simp_all add: sockets_accept_def Socket_accept_def)

end
