(* ===== verification/Pzmq.thy ===== *)
theory Pzmq
  imports Json_Value
begin

text \<open>
  The wrapper around libzmq (\<open>hybrid-comm/\<close>): the two-parameter encoding of \<open>pzmq_data\<close>, and the
  \<open>pzmq\<close> object with its construction by mode, the table of RPC actions, calls, the event loops and
  the clean-up of socket files.

  libzmq is an argument: what \<open>zmq_bind\<close> and \<open>zmq_connect\<close> answer, which files a bind creates, and
  what a request gets as reply.  Of its reply sockets the documented protocol is modelled: the frames
  of a request are received one by one, a reply can be sent once all of them were received, and every
  other call fails with \<open>EFSM\<close>.  An RPC action is a function on its argument and on the state of
  the process that registered it.
\<close>

section \<open>Parameters in a message\<close>

abbreviation length_error :: cpp_error where "length_error \<equiv> RuntimeError ''length_error''"

text \<open>\<open>char\<close> is signed.\<close>

definition schar :: "char \<Rightarrow> int" where
  "schar c = (let n = (of_char c :: int) in if n < 128 then n else n - 256)"

text \<open>
  \<open>std::string(p, n)\<close> on the bytes \<open>mem\<close> from offset \<open>start\<close>: a length that was negative before the
  conversion to \<open>size_t\<close> throws, a read outside the memory is undefined.
\<close>

definition string_at :: "string \<Rightarrow> int \<Rightarrow> int \<Rightarrow> string res" where
  "string_at mem start len =
     (if start < 0 \<or> int (length mem) < start then Inl UndefinedBehaviour
      else if len < 0 then Inl length_error
      else if int (length mem) < start + len then Inl UndefinedBehaviour
      else Inr (take (nat len) (drop (nat start) mem)))"

text \<open>The message of the object is \<open>msg\<close>; a non-empty argument is used instead and ends with a NUL.\<close>

definition get_param :: "int \<Rightarrow> string \<Rightarrow> string \<Rightarrow> string res" where
  "get_param index idata msg =
     (let (mem, size) = (if length idata > 0 then (idata @ [CHR 0x00], to_int32 (int (length idata)))
                         else (msg, to_int32 (int (length msg))))
      in case mem of
           [] \<Rightarrow> Inl UndefinedBehaviour
         | c # _ \<Rightarrow>
             if index mod 2 = 0 then string_at mem 1 (schar c)
             else string_at mem (schar c + 1) (size - schar c - 1))"

definition set_param :: "string \<Rightarrow> string \<Rightarrow> string" where
  "set_param param0 param1 = (char_of (length param0) :: char) # param0 @ param1"

section \<open>The object\<close>

datatype zmq_mode = ZMQ_PUB | ZMQ_SUB | ZMQ_PUSH | ZMQ_PULL | ZMQ_RPC_FUN | ZMQ_RPC_CALL

text \<open>An action may throw after it has changed the state; \<open>unordered_map\<close> fixes no order of iteration.\<close>

type_synonym 'w rpc_action = "string \<Rightarrow> 'w \<Rightarrow> string res \<times> 'w"

record 'w pzmq =
  rpc_url_head :: string
  zmq_socket :: bool
  zmq_fun :: "(string \<times> 'w rpc_action) list"
  flage :: bool
  zmq_thread :: bool
  mode :: "zmq_mode option"
  rpc_server :: string
  zmq_url :: string
  timeout :: int

record zmq_api =
  api_bind :: "string \<Rightarrow> string list \<Rightarrow> int \<times> string list"
  api_connect :: "string \<Rightarrow> int"
  api_request :: "string \<Rightarrow> string \<times> string \<Rightarrow> string option"

definition default_rpc_head :: string where "default_rpc_head = ''ipc:///tmp/rpc.''"
definition rpc_url_head_length :: nat where "rpc_url_head_length = 6"

definition is_bind :: "'w pzmq \<Rightarrow> bool" where
  "is_bind p = (mode p = Some ZMQ_PUB \<or> mode p = Some ZMQ_PULL \<or> mode p = Some ZMQ_RPC_FUN)"

text \<open>The constructor of an RPC object creates no socket.\<close>

definition new_pzmq_rpc :: "string \<Rightarrow> 'w pzmq" where
  "new_pzmq_rpc server =
     \<lparr>rpc_url_head = (if str_contains ''://'' server then [] else default_rpc_head), zmq_socket = False, zmq_fun = [],
      flage = True, zmq_thread = False, mode = None, rpc_server = server, zmq_url = [], timeout = 3000\<rparr>"

definition socket_file :: "string \<Rightarrow> string res" where
  "socket_file url = substr url rpc_url_head_length (length url)"

definition creat_req :: "zmq_api \<Rightarrow> string list \<Rightarrow> 'w pzmq \<Rightarrow> int res" where
  "creat_req api files p =
     (if rpc_url_head p \<noteq> []
      then rbind (socket_file (zmq_url p))
             (\<lambda>f. Inr (if f \<notin> set files then - 1 else api_connect api (zmq_url p)))
      else Inr (api_connect api (zmq_url p)))"

text \<open>\<open>creat\<close> with the sockets it makes; the receiving modes start the event loop.\<close>

definition creat :: "zmq_api \<Rightarrow> string \<Rightarrow> string list \<Rightarrow> 'w pzmq \<Rightarrow> (int \<times> string list \<times> 'w pzmq) res" where
  "creat api url files p =
     (let p1 = p\<lparr>zmq_url := url, zmq_socket := True\<rparr>;
          looping = p1\<lparr>flage := False, zmq_thread := True\<rparr>
      in case mode p of
           None \<Rightarrow> Inl UndefinedBehaviour
         | Some ZMQ_PUB \<Rightarrow> (case api_bind api url files of (ret, files') \<Rightarrow> Inr (ret, files', p1))
         | Some ZMQ_SUB \<Rightarrow> Inr (api_connect api url, files, looping)
         | Some ZMQ_PUSH \<Rightarrow> Inr (api_connect api url, files, p1)
         | Some ZMQ_PULL \<Rightarrow> (case api_bind api url files of (ret, files') \<Rightarrow> Inr (ret, files', looping))
         | Some ZMQ_RPC_FUN \<Rightarrow> (case api_bind api url files of (ret, files') \<Rightarrow> Inr (ret, files', looping))
         | Some ZMQ_RPC_CALL \<Rightarrow> rbind (creat_req api files p1) (\<lambda>ret. Inr (ret, files, p1)))"

text \<open>
  The constructor with a mode.  \<open>url[1]\<close> of an empty string is undefined, and is looked at only when
  the first character is no \<open>i\<close>.
\<close>

definition keeps_head :: "string \<Rightarrow> bool res" where
  "keeps_head url =
     (case url of
        [] \<Rightarrow> Inl UndefinedBehaviour
      | c # cs \<Rightarrow> Inr (c = CHR ''i'' \<or> (case cs of [] \<Rightarrow> False | d # _ \<Rightarrow> d = CHR ''p'')))"

definition new_pzmq :: "zmq_api \<Rightarrow> string \<Rightarrow> zmq_mode \<Rightarrow> string list \<Rightarrow> (string list \<times> 'w pzmq) res" where
  "new_pzmq api url md files =
     rbind (keeps_head url)
       (\<lambda>keep. let p = \<lparr>rpc_url_head = (if keep then default_rpc_head else []), zmq_socket = False, zmq_fun = [],
                        flage = True, zmq_thread = False, mode = Some md, rpc_server = [], zmq_url = [], timeout = 3000\<rparr>
               in if md = ZMQ_RPC_FUN then Inr (files, p)
                  else rbind (creat api url files p) (\<lambda>(ret, files', p'). Inr (files', p')))"

definition close_zmq :: "string list \<Rightarrow> 'w pzmq \<Rightarrow> (string list \<times> 'w pzmq) res" where
  "close_zmq files p =
     (let p1 = p\<lparr>zmq_socket := False\<rparr>
      in if is_bind p \<and> rpc_url_head p \<noteq> []
         then rbind (socket_file (zmq_url p)) (\<lambda>f. Inr (filter (\<lambda>g. g \<noteq> f) files, p1))
         else Inr (files, p1))"

text \<open>The destructor stops and joins the event loop before it closes.\<close>

definition destroy_pzmq :: "string list \<Rightarrow> 'w pzmq \<Rightarrow> string list res" where
  "destroy_pzmq files p =
     (if \<not> zmq_socket p then Inr files
      else rbind (close_zmq files (p\<lparr>flage := True, zmq_thread := False\<rparr>)) (\<lambda>(files', _). Inr files'))"

section \<open>RPC actions\<close>

definition set_action :: "string \<Rightarrow> 'w rpc_action \<Rightarrow> (string \<times> 'w rpc_action) list \<Rightarrow> (string \<times> 'w rpc_action) list" where
  "set_action a f tab =
     (if a \<in> fst ` set tab then map (\<lambda>(b, g). if b = a then (b, f) else (b, g)) tab else tab @ [(a, f)])"

text \<open>The list of actions; \<open>names\<close> are the keys in the order of iteration.\<close>

fun join_actions :: "string list \<Rightarrow> string" where
  "join_actions [] = []"
| "join_actions [a] = ''\"'' @ a @ ''\"'' @ '']}''"
| "join_actions (a # as) = ''\"'' @ a @ ''\"'' @ '','' @ join_actions as"

definition rpc_list_action :: "string list \<Rightarrow> string res" where
  "rpc_list_action names =
     (if names = [] then Inl UndefinedBehaviour else Inr (''{\"actions\":['' @ join_actions names))"

text \<open>
  \<open>register_rpc_action\<close>: the first action also opens the socket and adds \<open>list_action\<close>, whose closure
  reads the table at the time of the call and is \<open>lst\<close> here.
\<close>

definition register_rpc_action :: "zmq_api \<Rightarrow> 'w rpc_action \<Rightarrow> string \<Rightarrow> 'w rpc_action \<Rightarrow> string list \<Rightarrow> 'w pzmq
    \<Rightarrow> (int \<times> string list \<times> 'w pzmq) res" where
  "register_rpc_action api lst action f files p =
     (if action \<in> fst ` set (zmq_fun p) then Inr (0, files, p\<lparr>zmq_fun := set_action action f (zmq_fun p)\<rparr>)
      else if zmq_fun p = []
      then rbind (creat api (rpc_url_head p @ rpc_server p) files
                   (p\<lparr>mode := Some ZMQ_RPC_FUN, zmq_fun := [(''list_action'', lst)]\<rparr>))
             (\<lambda>(ret, files', p'). Inr (ret, files', p'\<lparr>zmq_fun := set_action action f (zmq_fun p')\<rparr>))
      else Inr (0, files, p\<lparr>zmq_fun := set_action action f (zmq_fun p)\<rparr>))"

definition unregister_rpc_action :: "string \<Rightarrow> 'w pzmq \<Rightarrow> 'w pzmq" where
  "unregister_rpc_action action p = p\<lparr>zmq_fun := filter (\<lambda>(b, _). b \<noteq> action) (zmq_fun p)\<rparr>"

text \<open>
  A call: the return code, the message the callback was given (if it was called), the files and the
  object.  A request without answer leaves the received message empty, and the callback runs all the
  same.  With a socket already open the return code is never assigned.
\<close>

definition call_rpc_action :: "zmq_api \<Rightarrow> string \<Rightarrow> string \<Rightarrow> string list \<Rightarrow> 'w pzmq
    \<Rightarrow> (int \<times> string option \<times> string list \<times> 'w pzmq) res" where
  "call_rpc_action api action data files p =
     (if zmq_socket p then Inl UndefinedBehaviour
      else if rpc_server p = [] then Inr (- 1, None, files, p)
      else rbind (creat api (rpc_url_head p @ rpc_server p) files (p\<lparr>mode := Some ZMQ_RPC_CALL\<rparr>))
        (\<lambda>(ret, files1, p1).
           let answer = (if ret \<noteq> 0 then None
                         else Some (case api_request api (zmq_url p1) (action, data) of None \<Rightarrow> [] | Some r \<Rightarrow> r))
           in rbind (close_zmq files1 p1) (\<lambda>(files2, p2). Inr (ret, answer, files2, p2))))"

section \<open>The event loops\<close>

text \<open>
  A reply socket: the requests that have arrived (client and frames), the request being received or
  answered with the frames still to be received, and the replies sent.
\<close>

record rep_socket =
  rs_queue :: "(nat \<times> string list) list"
  rs_cur :: "(nat \<times> string list) option"
  rs_sent :: "(nat \<times> string) list"

text \<open>\<open>None\<close> is "blocked"; the received frame is \<open>None\<close> when the call fails.\<close>

fun rep_recv :: "rep_socket \<Rightarrow> (string option \<times> rep_socket) option" where
  "rep_recv s =
     (case rs_cur s of
        Some (c, f # fs) \<Rightarrow> Some (Some f, s\<lparr>rs_cur := Some (c, fs)\<rparr>)
      | Some (c, []) \<Rightarrow> Some (None, s)
      | None \<Rightarrow>
          (case rs_queue s of
             [] \<Rightarrow> None
           | (c, f # fs) # q \<Rightarrow> Some (Some f, s\<lparr>rs_queue := q, rs_cur := Some (c, fs)\<rparr>)
           | (c, []) # q \<Rightarrow> Some (None, s\<lparr>rs_queue := q\<rparr>)))"

definition rep_send :: "string \<Rightarrow> rep_socket \<Rightarrow> rep_socket" where
  "rep_send r s =
     (case rs_cur s of
        Some (c, []) \<Rightarrow> s\<lparr>rs_cur := None, rs_sent := rs_sent s @ [(c, r)]\<rparr>
      | _ \<Rightarrow> s)"

text \<open>\<open>catch (...)\<close> does not catch a failed assertion or undefined behaviour.\<close>

definition catchable :: "cpp_error \<Rightarrow> bool" where
  "catchable e = (e \<notin> {AssertFailed, NullDeref, LogFatal, UndefinedBehaviour})"

definition dispatch :: "(string \<Rightarrow> 'w rpc_action option) \<Rightarrow> string \<Rightarrow> string \<Rightarrow> 'w \<Rightarrow> (string \<times> 'w) res" where
  "dispatch tab action data w =
     (case tab action of
        None \<Rightarrow> Inr (''NotAction'', w)
      | Some f \<Rightarrow>
          (case f data w of
             (Inr r, w') \<Rightarrow> Inr (r, w')
           | (Inl e, w') \<Rightarrow> if catchable e then Inr (''NotAction'', w') else Inl e))"

text \<open>One iteration of \<open>zmq_event_loop\<close> in RPC mode: a failed receive and an empty frame start over.\<close>

definition rpc_iteration :: "(string \<Rightarrow> 'w rpc_action option) \<Rightarrow> rep_socket \<times> 'w \<Rightarrow> (rep_socket \<times> 'w) res option" where
  "rpc_iteration tab sw =
     (case rep_recv (fst sw) of
        None \<Rightarrow> None
      | Some (m, s1) \<Rightarrow>
          (case m of
             None \<Rightarrow> Some (Inr (s1, snd sw))
           | Some action \<Rightarrow>
               if action = [] then Some (Inr (s1, snd sw))
               else (case rep_recv s1 of
                       None \<Rightarrow> None
                     | Some (d, s2) \<Rightarrow>
                         Some (rbind (dispatch tab action (case d of None \<Rightarrow> [] | Some x \<Rightarrow> x) (snd sw))
                           (\<lambda>(r, w'). Inr (rep_send r s2, w'))))))"

text \<open>\<open>n\<close> iterations; a blocked loop stays as it is.\<close>

fun rpc_loop :: "(string \<Rightarrow> 'w rpc_action option) \<Rightarrow> nat \<Rightarrow> rep_socket \<times> 'w \<Rightarrow> (rep_socket \<times> 'w) res" where
  "rpc_loop tab 0 sw = Inr sw"
| "rpc_loop tab (Suc n) sw =
     (case rpc_iteration tab sw of None \<Rightarrow> Inr sw | Some r \<Rightarrow> rbind r (rpc_loop tab n))"

text \<open>One iteration of the pulling and subscribing loops: an empty message is not passed on.\<close>

datatype zmq_event = PollFailed | NoInput | RecvFailed | Received string

fun msg_iteration :: "(string \<Rightarrow> 'w \<Rightarrow> 'w res) \<Rightarrow> zmq_event \<Rightarrow> 'w \<Rightarrow> 'w res" where
  "msg_iteration raw_call (Received m) w = (if m = [] then Inr w else raw_call m w)"
| "msg_iteration raw_call _ w = Inr w"

section \<open>Lemmas\<close>

lemma schar_char_of:
  assumes "n < 256"
  shows "schar (char_of n) = (if n < 128 then int n else int n - 256)"
proof -
  have "(of_char (char_of n :: char) :: int) = int (of_char (char_of n :: char))" by (simp only: of_nat_of_char)
  also have "\<dots> = int n" using assms by (simp only: of_char_of) simp
  finally have "(of_char (char_of n :: char) :: int) = int n" .
  then show ?thesis by (simp add: schar_def)
qed

lemma to_int32_id: "0 \<le> i \<Longrightarrow> i \<le> int_max \<Longrightarrow> to_int32 i = i"
  by (simp add: to_int32_def int_max_def)

lemma get_param_set_param:
  assumes "length p0 < 128" "int (length p0 + length p1) < int_max"
  shows "get_param 0 [] (set_param p0 p1) = Inr p0" "get_param 1 [] (set_param p0 p1) = Inr p1"
    "get_param 0 (set_param p0 p1) msg = Inr p0" "get_param 1 (set_param p0 p1) msg = Inr p1"
  using assms schar_char_of [of "length p0"] to_int32_id [of "1 + (int (length p0) + int (length p1))"]
  by (simp_all add: get_param_def set_param_def string_at_def nat_add_distrib)

text \<open>The sequential reference: the requests dispatched one after the other.\<close>

fun answers :: "(string \<Rightarrow> 'w rpc_action option) \<Rightarrow> (nat \<times> string \<times> string) list \<Rightarrow> 'w \<Rightarrow> ((nat \<times> string) list \<times> 'w) res" where
  "answers tab [] w = Inr ([], w)"
| "answers tab ((c, a, d) # reqs) w =
     rbind (dispatch tab a d w) (\<lambda>(r, w1). rbind (answers tab reqs w1) (\<lambda>(rs, w2). Inr ((c, r) # rs, w2)))"

text \<open>The two frames a caller sends.\<close>

definition frames :: "nat \<times> string \<times> string \<Rightarrow> nat \<times> string list" where
  "frames req = (case req of (c, a, d) \<Rightarrow> (c, [a, d]))"

lemma rpc_iteration_request:
  assumes "rs_cur s = None" "rs_queue s = frames (c, a, d) # q" "a \<noteq> []"
  shows "rpc_iteration tab (s, w)
    = Some (rbind (dispatch tab a d w) (\<lambda>(r, w'). Inr (s\<lparr>rs_queue := q, rs_sent := rs_sent s @ [(c, r)]\<rparr>, w')))"
  using assms by (cases s) (simp add: rpc_iteration_def frames_def rep_send_def)

lemma rpc_loop_answers:
  assumes "\<forall>(c, a, d) \<in> set reqs. a \<noteq> []" "rs_cur s = None" "rs_queue s = map frames reqs"
  shows "rpc_loop tab (length reqs) (s, w)
    = rbind (answers tab reqs w) (\<lambda>(rs, w'). Inr (s\<lparr>rs_queue := [], rs_sent := rs_sent s @ rs\<rparr>, w'))"
  using assms
proof (induction reqs arbitrary: s w)
  case Nil
  then show ?case by (cases s) simp
next
  case (Cons req reqs)
  obtain c a d where req: "req = (c, a, d)" by (cases req)
  show ?case
  proof (cases "dispatch tab a d w")
    case (Inl e)
    then show ?thesis using Cons.prems req by (simp add: rpc_iteration_request)
  next
    case (Inr x)
    obtain r w1 where x: "x = (r, w1)" by (cases x)
    let ?s = "s\<lparr>rs_queue := map frames reqs, rs_sent := rs_sent s @ [(c, r)]\<rparr>"
    have "rpc_loop tab (length reqs) (?s, w1)
        = rbind (answers tab reqs w1) (\<lambda>(rs, w'). Inr (?s\<lparr>rs_queue := [], rs_sent := rs_sent ?s @ rs\<rparr>, w'))"
      using Cons.prems by (intro Cons.IH) auto
    then show ?thesis using Cons.prems req Inr x
      by (cases "answers tab reqs w1") (auto simp: rpc_iteration_request)
  qed
qed

section \<open>Services\<close>

text \<open>A sequence of requests each of which has an action and is admitted in the state it meets.\<close>

fun guarded :: "(string \<Rightarrow> 'w rpc_action option) \<Rightarrow> (string \<Rightarrow> string \<Rightarrow> 'w \<Rightarrow> bool) \<Rightarrow> (nat \<times> string \<times> string) list \<Rightarrow> 'w \<Rightarrow> bool" where
  "guarded tab guard [] w \<longleftrightarrow> True"
| "guarded tab guard ((c, a, d) # reqs) w \<longleftrightarrow>
     a \<noteq> [] \<and> guard a d w \<and> (case dispatch tab a d w of Inl _ \<Rightarrow> True | Inr (r, w') \<Rightarrow> guarded tab guard reqs w')"

text \<open>
  What an RPC service promises: a request that the guard admits in a state of the invariant keeps the
  invariant and ends in a reply or in an exception that the event loop catches.
\<close>

locale rpc_service =
  fixes tab :: "string \<Rightarrow> 'w rpc_action option" and inv :: "'w \<Rightarrow> bool" and guard :: "string \<Rightarrow> string \<Rightarrow> 'w \<Rightarrow> bool"
  assumes action_safe: "tab a = Some f \<Longrightarrow> inv w \<Longrightarrow> guard a d w \<Longrightarrow> f d w = (r, w') \<Longrightarrow> inv w'"
    and action_catchable: "tab a = Some f \<Longrightarrow> inv w \<Longrightarrow> guard a d w \<Longrightarrow> f d w = (Inl e, w') \<Longrightarrow> catchable e"
begin

lemma dispatch_keeps:
  assumes "inv w" "guard a d w"
  obtains r w' where "dispatch tab a d w = Inr (r, w')" "inv w'"
proof (cases "tab a")
  case None
  then show ?thesis using that assms(1) by (simp add: dispatch_def)
next
  case (Some f)
  obtain r w' where f: "f d w = (r, w')" by (cases "f d w")
  show ?thesis
  proof (cases r)
    case (Inl e)
    then show ?thesis using that Some f action_safe [OF Some assms f] action_catchable [OF Some assms, of e w']
      by (simp add: dispatch_def)
  next
    case (Inr x)
    then show ?thesis using that Some f action_safe [OF Some assms f] by (simp add: dispatch_def)
  qed
qed

lemma answers_ok:
  "guarded tab guard reqs w \<Longrightarrow> inv w \<Longrightarrow> \<exists>rs w'. answers tab reqs w = Inr (rs, w') \<and> inv w' \<and> map fst rs = map fst reqs"
proof (induction reqs arbitrary: w)
  case (Cons req reqs)
  obtain c a d where req: "req = (c, a, d)" by (cases req)
  with Cons.prems have "guard a d w" by simp
  from dispatch_keeps [OF Cons.prems(2) this] obtain r w1 where d: "dispatch tab a d w = Inr (r, w1)" "inv w1" .
  moreover have "guarded tab guard reqs w1" using Cons.prems(1) req d(1) by simp
  ultimately obtain rs w2 where "answers tab reqs w1 = Inr (rs, w2)" "inv w2" "map fst rs = map fst reqs"
    using Cons.IH by blast
  then show ?case using req d by simp
qed simp

lemma guarded_nonempty: "guarded tab guard reqs w \<Longrightarrow> inv w \<Longrightarrow> \<forall>(c, a, d) \<in> set reqs. a \<noteq> []"
proof (induction reqs arbitrary: w)
  case (Cons req reqs)
  obtain c a d where req: "req = (c, a, d)" by (cases req)
  with Cons.prems have "guard a d w" by simp
  from dispatch_keeps [OF Cons.prems(2) this] obtain r w1 where "dispatch tab a d w = Inr (r, w1)" "inv w1" .
  with Cons req show ?case by simp blast
qed simp

lemma service_answers_all:
  assumes "guarded tab guard reqs w" "inv w" "rs_cur s = None" "rs_queue s = map frames reqs"
  shows "\<exists>rs w'. rpc_loop tab (length reqs) (s, w) = Inr (s\<lparr>rs_queue := [], rs_sent := rs_sent s @ rs\<rparr>, w')
    \<and> inv w' \<and> map fst rs = map fst reqs"
proof -
  obtain rs w' where "answers tab reqs w = Inr (rs, w')" "inv w'" "map fst rs = map fst reqs"
    using answers_ok assms by blast
  then show ?thesis using rpc_loop_answers [OF guarded_nonempty [OF assms(1,2)] assms(3,4), of tab w] by auto
qed

end

section \<open>Properties\<close>




definition sample_tab :: "string \<Rightarrow> nat rpc_action option" where
  "sample_tab a = (if a = ''inc'' then Some (\<lambda>d n. (Inr d, Suc n))
     else if a = ''bad'' then Some (\<lambda>d n. (Inl OutOfRange, Suc n)) else None)"


text \<open>
  A request of two empty frames stops an RPC server for good: both frames are skipped as failed
  receives, and from then on the socket waits for a reply that the loop never sends, however many
  requests arrive.
\<close>

theorem empty_request_stalls_server:
  assumes "rs_cur s = None" "rs_queue s = (c, [[], []]) # q"
  shows "rpc_loop tab (Suc (Suc n)) (s, w) = Inr (s\<lparr>rs_queue := q, rs_cur := Some (c, [])\<rparr>, w)"
proof -
  let ?t = "s\<lparr>rs_queue := q, rs_cur := Some (c, [])\<rparr>"
  have stuck: "rpc_loop tab k (?t, w) = Inr (?t, w)" for k
    by (induction k) (simp_all add: rpc_iteration_def)
  have "rpc_loop tab (Suc (Suc n)) (s, w) = rpc_loop tab n (?t, w)"
    using assms by (simp add: rpc_iteration_def)
  with stuck show ?thesis by simp
qed

theorem empty_request_stalls_server_witness:
  "rpc_loop sample_tab (Suc (Suc 5)) (\<lparr>rs_queue = [(1, [[], []]), (2, [''inc'', ''x''])], rs_cur = None, rs_sent = []\<rparr>, 0)
    = Inr (\<lparr>rs_queue = [(2, [''inc'', ''x''])], rs_cur = Some (1, []), rs_sent = []\<rparr>, 0)"
  using empty_request_stalls_server [of "\<lparr>rs_queue = [(1, [[], []]), (2, [''inc'', ''x''])], rs_cur = None, rs_sent = []\<rparr>"
      1 "[(2, [''inc'', ''x''])]" sample_tab 5 0] by simp

text \<open>
  A call on a fresh RPC object by name returns with the object ready for the next call and no file
  touched: \<open>-1\<close> without callback when the server's socket file is missing, the error of the connect
  without callback, and otherwise 0 with exactly one callback, which gets the reply, or an empty
  message when none came in time.
\<close>

theorem rpc_call_outcomes:
  assumes "server \<noteq> []" "\<not> str_contains ''://'' server"
    and url: "url = default_rpc_head @ server" and sfile: "sfile = ''/tmp/rpc.'' @ server"
    and ret: "ret = (if sfile \<in> set files then api_connect api url else - 1)"
  shows "\<exists>p'. call_rpc_action api action data files (new_pzmq_rpc server :: 'w pzmq)
      = Inr (ret, if ret = 0 then Some (case api_request api url (action, data) of None \<Rightarrow> [] | Some r \<Rightarrow> r) else None, files, p')
    \<and> \<not> zmq_socket p' \<and> rpc_server p' = server \<and> rpc_url_head p' = default_rpc_head"
proof -
  have f: "socket_file (default_rpc_head @ server) = Inr sfile"
    by (simp add: sfile socket_file_def substr_def rpc_url_head_length_def default_rpc_head_def)
  have h: "default_rpc_head \<noteq> []" by (simp add: default_rpc_head_def)
  show ?thesis using assms(1,2) f h
    by (simp add: ret url call_rpc_action_def new_pzmq_rpc_def creat_def creat_req_def close_zmq_def is_bind_def Let_def)
qed

theorem rpc_call_outcomes_witness:
  "\<exists>p'. call_rpc_action \<lparr>api_bind = (\<lambda>u fs. (0, fs)), api_connect = (\<lambda>u. 0), api_request = (\<lambda>u r. Some ''Success'')\<rparr>
      ''release_unit'' ''llm.1000'' [''/tmp/rpc.sys''] (new_pzmq_rpc ''sys'' :: unit pzmq)
    = Inr (0, Some ''Success'', [''/tmp/rpc.sys''], p') \<and> \<not> zmq_socket p' \<and> rpc_server p' = ''sys''
    \<and> rpc_url_head p' = default_rpc_head"
  using rpc_call_outcomes [of "''sys''" "default_rpc_head @ ''sys''" "''/tmp/rpc.sys''" 0 "[''/tmp/rpc.sys'']"
      "\<lparr>api_bind = (\<lambda>u fs. (0, fs)), api_connect = (\<lambda>u. 0), api_request = (\<lambda>u r. Some ''Success'')\<rparr>"
      "''release_unit''" "''llm.1000''"]
  by (simp add: str_contains_def starts_with_def)

end
