(* ===== verification/Stack_Flow_Util.thy ===== *)
theory Stack_Flow_Util
  imports Pzmq "HOL-Library.AList"
begin

unbundle bit_operations_syntax

text \<open>
  The helpers of \<open>infra-controller/src/StackFlowUtil.cpp\<close>: the scanner that picks the value of a key out
  of a JSON text, work identifiers, the UTF-8 encoder, the reassembly of streamed input and the
  blocking call of another unit.
\<close>

section \<open>Picking a value out of a JSON text\<close>

datatype scan_status = Seek | InObject | InString | Done

record scanner =
  status :: scan_status
  key_val :: string
  obj_flage :: int
  last_c :: char

definition scan_init :: scanner where
  "scan_init = \<lparr>status = Seek, key_val = [], obj_flage = 0, last_c = CHR 0x00\<rparr>"

definition push_c :: "char \<Rightarrow> scanner \<Rightarrow> scanner" where
  "push_c c s = s\<lparr>key_val := key_val s @ [c]\<rparr>"

definition scan_char :: "char \<Rightarrow> scanner \<Rightarrow> scanner" where
  "scan_char c s =
     (case status s of
        Seek \<Rightarrow>
          (if c = CHR 0x22 then s\<lparr>status := InString\<rparr>
           else if c = CHR 0x7B then (push_c c s)\<lparr>obj_flage := 1, status := InObject\<rparr>
           else if c = CHR '':'' then s\<lparr>obj_flage := 1\<rparr>
           else if c = CHR '','' \<or> c = CHR 0x7D then s\<lparr>obj_flage := 0, status := Done\<rparr>
           else if c = CHR '' '' then s
           else if obj_flage s \<noteq> 0 then push_c c s else s)
      | InObject \<Rightarrow>
          (let s1 = push_c c s;
               s2 = (if c = CHR 0x7B then s1\<lparr>obj_flage := obj_flage s1 + 1\<rparr> else s1);
               s3 = (if c = CHR 0x7D then s2\<lparr>obj_flage := obj_flage s2 - 1\<rparr> else s2)
           in if obj_flage s3 = 0 \<and> key_val s3 \<noteq> [] then s3\<lparr>status := Done\<rparr> else s3)
      | InString \<Rightarrow>
          (if c = CHR 0x22 \<and> last_c s \<noteq> CHR 0x5C then s\<lparr>obj_flage := 0, status := Done\<rparr> else push_c c s)
      | Done \<Rightarrow> s)\<lparr>last_c := c\<rparr>"

definition find_key :: "string \<Rightarrow> string" where
  "find_key key = CHR 0x22 # key @ [CHR 0x22]"

definition sample_json_str_get :: "string \<Rightarrow> string \<Rightarrow> string" where
  "sample_json_str_get json_str json_key =
     (case str_find (find_key json_key) json_str of
        None \<Rightarrow> []
      | Some i \<Rightarrow>
          (let s = fold scan_char (drop (i + length (find_key json_key)) json_str) scan_init
           in if obj_flage s \<noteq> 0 then [] else key_val s))"

section \<open>Work identifiers\<close>

definition WORK_ID_NONE :: int where "WORK_ID_NONE = - 100"

definition sample_get_work_id_num :: "string \<Rightarrow> int res" where
  "sample_get_work_id_num work_id =
     (case str_find ''.'' work_id of
        None \<Rightarrow> Inr WORK_ID_NONE
      | Some a \<Rightarrow> if a = length work_id - 1 then Inr WORK_ID_NONE else stoi (drop (a + 1) work_id))"

definition sample_get_work_id_name :: "string \<Rightarrow> string" where
  "sample_get_work_id_name work_id =
     (case str_find ''.'' work_id of None \<Rightarrow> work_id | Some a \<Rightarrow> take a work_id)"

definition sample_get_work_id :: "int \<Rightarrow> string \<Rightarrow> string" where
  "sample_get_work_id work_id_num unit_name = unit_name @ ''.'' @ to_string work_id_num"

section \<open>UTF-8\<close>

definition unicode_to_utf8 :: "nat \<Rightarrow> nat list" where
  "unicode_to_utf8 cp =
     (if cp \<le> 0x7F then [cp AND 0x7F]
      else if cp \<le> 0x7FF then [0xC0 OR (drop_bit 6 cp AND 0x1F), 0x80 OR (cp AND 0x3F)]
      else if cp \<le> 0xFFFF then
        [0xE0 OR (drop_bit 12 cp AND 0x0F), 0x80 OR (drop_bit 6 cp AND 0x3F), 0x80 OR (cp AND 0x3F)]
      else if cp \<le> 0x10FFFF then
        [0xF0 OR (drop_bit 18 cp AND 0x07), 0x80 OR (drop_bit 12 cp AND 0x3F),
         0x80 OR (drop_bit 6 cp AND 0x3F), 0x80 OR (cp AND 0x3F)]
      else [])"

section \<open>Streamed input\<close>

text \<open>
  \<open>decode_stream\<close> with the output and the buffer it changes by reference, also when it throws.
\<close>

type_synonym stream_buff = "(int \<times> string) list"

fun append_parts :: "stream_buff \<Rightarrow> nat \<Rightarrow> nat \<Rightarrow> string \<Rightarrow> bool \<times> string" where
  "append_parts buff i 0 out = (True, out)"
| "append_parts buff i (Suc n) out =
     (case map_of buff (int i) of None \<Rightarrow> (False, out) | Some d \<Rightarrow> append_parts buff (Suc i) n (out @ d))"

definition decode_stream :: "string \<Rightarrow> string \<Rightarrow> stream_buff \<Rightarrow> bool res \<times> string \<times> stream_buff" where
  "decode_stream inp out buff =
     (case stoi (sample_json_str_get inp ''index'') of
        Inl e \<Rightarrow> (Inl e, out, buff)
      | Inr index \<Rightarrow>
          (let finish = sample_json_str_get inp ''finish'';
               buff1 = AList.update index (sample_json_str_get inp ''delta'') buff
           in if \<not> str_contains ''f'' finish
              then (case append_parts buff1 0 (length buff1) out of
                      (True, out1) \<Rightarrow> (Inr False, out1, [])
                    | (False, out1) \<Rightarrow> (Inl OutOfRange, out1, buff1))
              else (Inr True, out, buff1)))"

section \<open>Calling another unit\<close>

definition unit_call :: "zmq_api \<Rightarrow> string list \<Rightarrow> string \<Rightarrow> string \<Rightarrow> string \<Rightarrow> (string \<times> string list) res" where
  "unit_call api files unit_name unit_action data =
     rbind (call_rpc_action api unit_action data files (new_pzmq_rpc unit_name :: unit pzmq))
       (\<lambda>(ret, answer, files1, p). rbind (destroy_pzmq files1 p)
          (\<lambda>files2. Inr (case answer of None \<Rightarrow> [] | Some v \<Rightarrow> v, files2)))"

section \<open>Lemmas on the scanner\<close>

lemma scan_done: "status s = Done \<Longrightarrow>
    status (fold scan_char cs s) = Done \<and> key_val (fold scan_char cs s) = key_val s \<and> obj_flage (fold scan_char cs s) = obj_flage s"
  by (induction cs arbitrary: s) (simp_all add: scan_char_def)

lemma scan_spaces: "status s = Seek \<Longrightarrow>
    \<exists>l. fold scan_char (replicate n (CHR '' '')) s = s\<lparr>last_c := l\<rparr>"
proof (induction n arbitrary: s)
  case 0
  show ?case by (rule exI [of _ "last_c s"]) simp
next
  case (Suc n)
  have "scan_char (CHR '' '') s = s\<lparr>last_c := CHR '' ''\<rparr>" using Suc.prems by (simp add: scan_char_def)
  with Suc.IH [of "s\<lparr>last_c := CHR '' ''\<rparr>"] Suc.prems show ?case by simp
qed

text \<open>The inside of a string: every quote is escaped, and the closing quote is not.\<close>

fun quoted_ok :: "char \<Rightarrow> string \<Rightarrow> bool" where
  "quoted_ok l [] \<longleftrightarrow> l \<noteq> CHR 0x5C"
| "quoted_ok l (c # cs) \<longleftrightarrow> (c = CHR 0x22 \<longrightarrow> l = CHR 0x5C) \<and> quoted_ok c cs"

lemma scan_string: "status s = InString \<Longrightarrow> quoted_ok (last_c s) b \<Longrightarrow>
    status (fold scan_char (b @ CHR 0x22 # rest) s) = Done \<and> key_val (fold scan_char (b @ CHR 0x22 # rest) s) = key_val s @ b
    \<and> obj_flage (fold scan_char (b @ CHR 0x22 # rest) s) = 0"
proof (induction b arbitrary: s)
  case Nil
  then have "scan_char (CHR 0x22) s = s\<lparr>obj_flage := 0, status := Done, last_c := CHR 0x22\<rparr>" by (simp add: scan_char_def)
  with scan_done [of "s\<lparr>obj_flage := 0, status := Done, last_c := CHR 0x22\<rparr>" rest] show ?case by simp
next
  case (Cons c b)
  then have "scan_char c s = (push_c c s)\<lparr>last_c := c\<rparr>" by (auto simp: scan_char_def)
  with Cons.IH [of "(push_c c s)\<lparr>last_c := c\<rparr>"] Cons.prems show ?case by (simp add: push_c_def)
qed

text \<open>The text after an opening brace up to the matching closing one.\<close>

definition depth :: "char \<Rightarrow> int" where
  "depth c = (if c = CHR 0x7B then 1 else if c = CHR 0x7D then - 1 else 0)"

fun closes :: "int \<Rightarrow> string \<Rightarrow> bool" where
  "closes d [] \<longleftrightarrow> False"
| "closes d (c # cs) \<longleftrightarrow> (if d + depth c = 0 then cs = [] else closes (d + depth c) cs)"

lemma scan_object: "status s = InObject \<Longrightarrow> closes (obj_flage s) b \<Longrightarrow>
    status (fold scan_char (b @ rest) s) = Done \<and> key_val (fold scan_char (b @ rest) s) = key_val s @ b
    \<and> obj_flage (fold scan_char (b @ rest) s) = 0"
proof (induction b arbitrary: s)
  case (Cons c b)
  let ?s = "(push_c c s)\<lparr>obj_flage := obj_flage s + depth c, last_c := c\<rparr>"
  have step: "scan_char c s = (if obj_flage s + depth c = 0 then ?s\<lparr>status := Done\<rparr> else ?s)"
    using Cons.prems(1) by (auto simp: scan_char_def push_c_def depth_def)
  show ?case
  proof (cases "obj_flage s + depth c = 0")
    case True
    then show ?thesis using step Cons.prems scan_done [of "?s\<lparr>status := Done\<rparr>" rest] by (simp add: push_c_def)
  next
    case False
    then show ?thesis using step Cons.prems Cons.IH [of ?s] by (simp add: push_c_def)
  qed
qed simp

definition plain_char :: "char \<Rightarrow> bool" where
  "plain_char c = (c \<notin> {CHR 0x22, CHR 0x7B, CHR 0x7D, CHR '':'', CHR '','', CHR '' ''})"

lemma scan_plain: "status s = Seek \<Longrightarrow> obj_flage s \<noteq> 0 \<Longrightarrow> list_all plain_char b \<Longrightarrow>
    \<exists>l. fold scan_char b s = s\<lparr>key_val := key_val s @ b, last_c := l\<rparr>"
proof (induction b arbitrary: s)
  case Nil
  show ?case by (rule exI [of _ "last_c s"]) simp
next
  case (Cons c b)
  then have "scan_char c s = (push_c c s)\<lparr>last_c := c\<rparr>" by (simp add: scan_char_def plain_char_def)
  with Cons.IH [of "(push_c c s)\<lparr>last_c := c\<rparr>"] Cons.prems show ?case by (simp add: push_c_def)
qed

lemma scan_colon: "\<exists>l. fold scan_char (replicate m (CHR '' '') @ CHR '':'' # replicate n (CHR '' '')) scan_init
    = scan_init\<lparr>obj_flage := 1, last_c := l\<rparr>"
proof -
  obtain l where "fold scan_char (replicate m (CHR '' '')) scan_init = scan_init\<lparr>last_c := l\<rparr>"
    using scan_spaces [of scan_init] by (auto simp: scan_init_def)
  moreover have "scan_char (CHR '':'') (scan_init\<lparr>last_c := l\<rparr>) = scan_init\<lparr>obj_flage := 1, last_c := CHR '':''\<rparr>"
    by (simp add: scan_char_def scan_init_def)
  moreover obtain l' where "fold scan_char (replicate n (CHR '' '')) (scan_init\<lparr>obj_flage := 1, last_c := CHR '':''\<rparr>)
      = scan_init\<lparr>obj_flage := 1, last_c := l'\<rparr>"
    using scan_spaces [of "scan_init\<lparr>obj_flage := 1, last_c := CHR '':''\<rparr>" n] by (auto simp: scan_init_def)
  ultimately show ?thesis by auto
qed

lemma scan_after_colon:
  assumes "str_find (find_key k) s = Some i"
    and "drop (i + length (find_key k)) s = (replicate m (CHR '' '') @ CHR '':'' # replicate n (CHR '' '')) @ w"
  obtains l where "sample_json_str_get s k
    = (let t = fold scan_char w (scan_init\<lparr>obj_flage := 1, last_c := l\<rparr>) in if obj_flage t \<noteq> 0 then [] else key_val t)"
proof -
  obtain l where "fold scan_char (replicate m (CHR '' '') @ CHR '':'' # replicate n (CHR '' '')) scan_init
      = scan_init\<lparr>obj_flage := 1, last_c := l\<rparr>" using scan_colon by blast
  with assms have "sample_json_str_get s k
    = (let t = fold scan_char w (scan_init\<lparr>obj_flage := 1, last_c := l\<rparr>) in if obj_flage t \<noteq> 0 then [] else key_val t)"
    by (simp add: sample_json_str_get_def)
  then show ?thesis by (rule that)
qed

lemma scan_string_value:
  assumes "str_find (find_key k) s = Some i"
    and "drop (i + length (find_key k)) s
      = (replicate m (CHR '' '') @ CHR '':'' # replicate n (CHR '' '')) @ (CHR 0x22 # b @ [CHR 0x22]) @ rest"
    and "quoted_ok (CHR 0x22) b"
  shows "sample_json_str_get s k = b"
proof -
  from scan_after_colon [OF assms(1,2)] obtain l where get: "sample_json_str_get s k
    = (let t = fold scan_char ((CHR 0x22 # b @ [CHR 0x22]) @ rest) (scan_init\<lparr>obj_flage := 1, last_c := l\<rparr>)
       in if obj_flage t \<noteq> 0 then [] else key_val t)" .
  let ?s = "scan_init\<lparr>obj_flage := 1, last_c := l\<rparr>"
  have "scan_char (CHR 0x22) ?s = ?s\<lparr>status := InString, last_c := CHR 0x22\<rparr>" by (simp add: scan_char_def scan_init_def)
  with get scan_string [of "?s\<lparr>status := InString, last_c := CHR 0x22\<rparr>" b rest] assms(3) show ?thesis
    by (simp add: Let_def scan_init_def)
qed

section \<open>Lemmas on work identifiers, UTF-8 and streams\<close>

lemma str_find_char: "CHR ''.'' \<notin> set name \<Longrightarrow> str_find ''.'' (name @ ''.'' @ rest) = Some (length name)"
  by (induction name) (auto simp: starts_with_def)

lemma work_id_parts:
  assumes "CHR ''.'' \<notin> set name" "int_min \<le> n" "n \<le> int_max"
  shows "sample_get_work_id_num (sample_get_work_id n name) = Inr n" "sample_get_work_id_name (sample_get_work_id n name) = name"
proof -
  have "to_string n \<noteq> []" by (simp add: to_string_def)
  then show "sample_get_work_id_num (sample_get_work_id n name) = Inr n" "sample_get_work_id_name (sample_get_work_id n name) = name"
    using assms str_find_char [OF assms(1), of "to_string n"]
    by (simp_all add: sample_get_work_id_num_def sample_get_work_id_name_def sample_get_work_id_def stoi_to_string)
qed

text \<open>The decoder of a single code point.\<close>

definition utf8_decode :: "nat list \<Rightarrow> nat option" where
  "utf8_decode bs =
     (case bs of
        [a] \<Rightarrow> Some a
      | [a, b] \<Rightarrow> Some ((a - 0xC0) * 64 + (b - 0x80))
      | [a, b, c] \<Rightarrow> Some ((a - 0xE0) * 4096 + (b - 0x80) * 64 + (c - 0x80))
      | [a, b, c, d] \<Rightarrow> Some ((a - 0xF0) * 262144 + (b - 0x80) * 4096 + (c - 0x80) * 64 + (d - 0x80))
      | _ \<Rightarrow> None)"

lemma or_is_add:
  fixes x :: nat
  shows "x < 32 \<Longrightarrow> 0xC0 OR x = 0xC0 + x" "x < 16 \<Longrightarrow> 0xE0 OR x = 0xE0 + x"
    "x < 8 \<Longrightarrow> 0xF0 OR x = 0xF0 + x" "x < 64 \<Longrightarrow> 0x80 OR x = 0x80 + x"
proof -
  have "\<forall>x \<in> set [0..<32]. (0xC0 :: nat) OR x = 0xC0 + x" "\<forall>x \<in> set [0..<16]. (0xE0 :: nat) OR x = 0xE0 + x"
    "\<forall>x \<in> set [0..<8]. (0xF0 :: nat) OR x = 0xF0 + x" "\<forall>x \<in> set [0..<64]. (0x80 :: nat) OR x = 0x80 + x"
    by code_simp+
  then show "x < 32 \<Longrightarrow> 0xC0 OR x = 0xC0 + x" "x < 16 \<Longrightarrow> 0xE0 OR x = 0xE0 + x"
    "x < 8 \<Longrightarrow> 0xF0 OR x = 0xF0 + x" "x < 64 \<Longrightarrow> 0x80 OR x = 0x80 + x" by auto
qed

lemma and_is_mod:
  fixes x :: nat
  shows "x AND 0x7F = x mod 128" "x AND 0x3F = x mod 64" "x AND 0x1F = x mod 32" "x AND 0x0F = x mod 16" "x AND 0x07 = x mod 8"
proof -
  have "x AND (2 ^ n - 1) = x mod 2 ^ n" for n
    by (simp add: take_bit_eq_mod [symmetric] take_bit_eq_mask mask_eq_exp_minus_1)
  from this [of 7] this [of 6] this [of 5] this [of 4] this [of 3]
  show "x AND 0x7F = x mod 128" "x AND 0x3F = x mod 64" "x AND 0x1F = x mod 32" "x AND 0x0F = x mod 16" "x AND 0x07 = x mod 8"
    by simp_all
qed

lemma update_fresh: "k \<notin> fst ` set al \<Longrightarrow> AList.update k v al = al @ [(k, v)]"
  by (induction al) auto

lemma append_parts_all:
  "\<forall>j < n. map_of buff (int (i + j)) \<noteq> None \<Longrightarrow>
     append_parts buff i n out = (True, out @ concat (map (\<lambda>j. the (map_of buff (int j))) [i..<i + n]))"
proof (induction n arbitrary: i out)
  case (Suc n)
  have "\<forall>j < n. map_of buff (int (Suc i + j)) \<noteq> None" using Suc.prems by (metis Suc_less_eq add_Suc_right add_Suc)
  moreover obtain d where "map_of buff (int i) = Some d" using Suc.prems by fastforce
  ultimately show ?case using Suc.IH [of "Suc i"] by (simp add: upt_conv_Cons del: upt_Suc)
qed simp

section \<open>Properties\<close>

text \<open>
  The scanner returns the value of the first occurrence of the quoted key, when a colon (with any
  spaces around it) follows: the inside of a string up to its first unescaped quote, an object up to
  its matching brace, and a bare value up to the next comma or closing brace.
\<close>

theorem json_str_get_value:
  assumes "str_find (find_key k) s = Some i"
    and "drop (i + length (find_key k)) s = (replicate m (CHR '' '') @ CHR '':'' # replicate n (CHR '' '')) @ v @ rest"
  shows "(\<forall>b. v = CHR 0x22 # b @ [CHR 0x22] \<and> quoted_ok (CHR 0x22) b \<longrightarrow> sample_json_str_get s k = b)
    \<and> (\<forall>b. v = CHR 0x7B # b \<and> closes 1 b \<longrightarrow> sample_json_str_get s k = v)
    \<and> (\<forall>p c t. list_all plain_char v \<and> rest = replicate p (CHR '' '') @ c # t \<and> (c = CHR '','' \<or> c = CHR 0x7D)
          \<longrightarrow> sample_json_str_get s k = v)"
proof -
  from scan_after_colon [OF assms] obtain l where
    get: "sample_json_str_get s k = (let t = fold scan_char (v @ rest) (scan_init\<lparr>obj_flage := 1, last_c := l\<rparr>)
      in if obj_flage t \<noteq> 0 then [] else key_val t)" .
  let ?s = "scan_init\<lparr>obj_flage := 1, last_c := l\<rparr>"
  have seek: "status ?s = Seek" "key_val ?s = []" "obj_flage ?s = 1" by (simp_all add: scan_init_def)
  have "sample_json_str_get s k = b" if "v = CHR 0x22 # b @ [CHR 0x22]" "quoted_ok (CHR 0x22) b" for b
    using that assms by (intro scan_string_value [of k s i m n b rest]) auto
  moreover have "sample_json_str_get s k = v" if "v = CHR 0x7B # b" "closes 1 b" for b
    using that get seek scan_object [of "(push_c (CHR 0x7B) ?s)\<lparr>obj_flage := 1, status := InObject, last_c := CHR 0x7B\<rparr>" b rest]
    by (simp add: scan_char_def Let_def push_c_def)
  moreover have "sample_json_str_get s k = v"
    if v: "list_all plain_char v" and rest: "rest = replicate p (CHR '' '') @ c # t" and c: "c = CHR '','' \<or> c = CHR 0x7D" for p c t
  proof -
    obtain l1 where l1: "fold scan_char v ?s = ?s\<lparr>key_val := v, last_c := l1\<rparr>" using scan_plain [of ?s v] v seek by auto
    obtain l2 where l2: "fold scan_char (replicate p (CHR '' '')) (?s\<lparr>key_val := v, last_c := l1\<rparr>)
        = ?s\<lparr>key_val := v, last_c := l2\<rparr>" using scan_spaces [of "?s\<lparr>key_val := v, last_c := l1\<rparr>" p] seek by auto
    let ?d = "?s\<lparr>key_val := v, obj_flage := 0, status := Done, last_c := c\<rparr>"
    have "scan_char c (?s\<lparr>key_val := v, last_c := l2\<rparr>) = ?d" using c by (auto simp: scan_char_def scan_init_def)
    then show ?thesis using get rest l1 l2 scan_done [of ?d t] by simp
  qed
  ultimately show ?thesis by blast
qed

theorem json_str_get_value_witness:
  "sample_json_str_get ''{\"key\" : \"llm.port\", \"val\":8}'' ''val'' = ''8''"
  using json_str_get_value [of "''val''" "''{\"key\" : \"llm.port\", \"val\":8}''" 21 0 0 "''8''" "''}''"]
  by (simp add: find_key_def starts_with_def plain_char_def) (metis append_Nil replicate_0)

text \<open>A work identifier made from a number and a name without dots is taken apart into the two again.\<close>

theorem work_id_roundtrip:
  assumes "CHR ''.'' \<notin> set name" "int_min \<le> n" "n \<le> int_max"
  shows "sample_get_work_id_num (sample_get_work_id n name) = Inr n \<and> sample_get_work_id_name (sample_get_work_id n name) = name"
  using work_id_parts [OF assms] by blast

theorem work_id_roundtrip_witness:
  "sample_get_work_id_num (sample_get_work_id 1000 ''llm'') = Inr 1000 \<and> sample_get_work_id_name (sample_get_work_id 1000 ''llm'') = ''llm''"
  using work_id_roundtrip [of "''llm''" 1000] by (simp add: int_min_def int_max_def)

text \<open>
  The UTF-8 encoder gives at most four bytes, each below 256, from which the code point is recovered; it
  gives none exactly for numbers beyond the Unicode range.
\<close>

theorem unicode_to_utf8_decodes:
  "(cp \<le> 0x10FFFF \<longrightarrow> utf8_decode (unicode_to_utf8 cp) = Some cp \<and> list_all (\<lambda>b. b < 256) (unicode_to_utf8 cp))
    \<and> (unicode_to_utf8 cp = [] \<longleftrightarrow> 0x10FFFF < cp) \<and> length (unicode_to_utf8 cp) \<le> 4"
proof -
  have e2: "cp div 64 * 64 + cp mod 64 = cp" by simp
  have a: "cp div 4096 * 64 + cp div 64 mod 64 = cp div 64" "cp div 262144 * 64 + cp div 4096 mod 64 = cp div 4096"
    using div_mult_mod_eq [of "cp div 64" 64] div_mult_mod_eq [of "cp div 4096" 64] by (simp_all add: div_mult2_eq [symmetric])
  have e3: "cp div 4096 * 4096 + cp div 64 mod 64 * 64 + cp mod 64 = cp" using a(1) e2 by linarith
  have e4: "cp div 262144 * 262144 + cp div 4096 mod 64 * 4096 + cp div 64 mod 64 * 64 + cp mod 64 = cp"
    using a(2) e3 by linarith
  have lt: "x mod 64 < 128" for x :: nat using mod_less_divisor [of 64 x] by linarith
  show ?thesis
    using e2 e3 e4 lt
    by (auto simp: unicode_to_utf8_def utf8_decode_def and_is_mod or_is_add drop_bit_eq_div)
qed

theorem unicode_to_utf8_decodes_witness: "utf8_decode (unicode_to_utf8 0x4F60) = Some 0x4F60"
  using unicode_to_utf8_decodes [of "0x4F60"] by simp

text \<open>A packet of a stream, as the scanner sees it, and the packets of one message fed in a row.\<close>

definition is_packet :: "string \<Rightarrow> string \<Rightarrow> int \<times> string \<Rightarrow> bool" where
  "is_packet fin t p \<longleftrightarrow> sample_json_str_get t ''index'' = to_string (fst p) \<and> sample_json_str_get t ''delta'' = snd p
     \<and> sample_json_str_get t ''finish'' = fin \<and> int_min \<le> fst p \<and> fst p \<le> int_max"

fun feed_stream :: "string list \<Rightarrow> string \<Rightarrow> stream_buff \<Rightarrow> bool res \<times> string \<times> stream_buff" where
  "feed_stream [] out buff = (Inr True, out, buff)"
| "feed_stream (t # ts) out buff =
     (case decode_stream t out buff of
        (Inr True, out1, buff1) \<Rightarrow> feed_stream ts out1 buff1
      | r \<Rightarrow> r)"

lemma decode_more:
  assumes "is_packet ''false'' t p" "fst p \<notin> fst ` set buff"
  shows "decode_stream t out buff = (Inr True, out, buff @ [p])"
  using assms by (cases p) (simp add: is_packet_def decode_stream_def stoi_to_string update_fresh str_contains_def starts_with_def)

lemma feed_more:
  assumes "list_all2 (is_packet ''false'') ts ps" "distinct (map fst (buff @ ps))"
  shows "feed_stream (ts @ us) out buff = feed_stream us out (buff @ ps)"
  using assms
proof (induction ts ps arbitrary: buff rule: list_all2_induct)
  case (Cons t ts p ps)
  then have "decode_stream t out buff = (Inr True, out, buff @ [p])" by (intro decode_more) auto
  moreover have "feed_stream (ts @ us) out (buff @ [p]) = feed_stream us out ((buff @ [p]) @ ps)"
    using Cons.prems by (intro Cons.IH) auto
  ultimately show ?case by simp
qed simp

text \<open>
  The packets of a streamed message may arrive in any order before the one that is marked as the
  last: when their indices are exactly \<open>0 \<dots> n-1\<close>, the output is extended by the parts in the order of
  their indices and the buffer is empty afterwards, ready for the next message.
\<close>

theorem decode_stream_reassembles:
  assumes "list_all2 (is_packet ''false'') ts ps" "is_packet ''true'' t p"
    and "distinct (map fst (ps @ [p]))" "fst ` set (ps @ [p]) = int ` {..<length (ps @ [p])}"
  shows "feed_stream (ts @ [t]) out []
    = (Inr False, out @ concat (map (\<lambda>i. the (map_of (ps @ [p]) (int i))) [0..<length (ps @ [p])]), [])"
proof -
  have "feed_stream (ts @ [t]) out [] = feed_stream [t] out ps" using feed_more [OF assms(1), of "[]"] assms(3) by simp
  moreover have "\<forall>j < length (ps @ [p]). map_of (ps @ [p]) (int (0 + j)) \<noteq> None"
  proof (intro allI impI)
    fix j assume "j < length (ps @ [p])"
    then have "int j \<in> fst ` set (ps @ [p])" using assms(4) by blast
    then show "map_of (ps @ [p]) (int (0 + j)) \<noteq> None" by (simp only: map_of_eq_None_iff) simp
  qed
  from append_parts_all [OF this, of out] have "append_parts (ps @ [p]) 0 (length (ps @ [p])) out
      = (True, out @ concat (map (\<lambda>i. the (map_of (ps @ [p]) (int i))) [0..<length (ps @ [p])]))" by simp
  moreover have "AList.update (fst p) (snd p) ps = ps @ [p]" using assms(3) by (subst update_fresh) auto
  moreover have "\<not> str_contains ''f'' ''true''" by (simp add: str_contains_def starts_with_def)
  ultimately show ?thesis using assms(2)
    by (simp add: is_packet_def decode_stream_def stoi_to_string del: append_parts.simps)
qed

theorem decode_stream_reassembles_witness:
  "feed_stream ([''{\"delta\":\"lo\",\"index\":1,\"finish\":false}''] @ [''{\"delta\":\"hel\",\"index\":0,\"finish\":true}'']) [] []
    = (Inr False, ''hello'', [])"
proof -
  have "is_packet ''false'' ''{\"delta\":\"lo\",\"index\":1,\"finish\":false}'' (1, ''lo'')"
    "is_packet ''true'' ''{\"delta\":\"hel\",\"index\":0,\"finish\":true}'' (0, ''hel'')" by code_simp+
  moreover have "{1, 0 :: int} = int ` {..<Suc (Suc 0)}" by (auto simp: lessThan_Suc)
  ultimately show ?thesis
    using decode_stream_reassembles [of "[''{\"delta\":\"lo\",\"index\":1,\"finish\":false}'']" "[(1, ''lo'')]"
        "''{\"delta\":\"hel\",\"index\":0,\"finish\":true}''" "(0, ''hel'')" "[]"] by simp
qed

end
