(* ===== verification/Unit_Manager.thy ===== *)
theory Unit_Manager
  imports Stack_Flow_Util C_Format
begin

text \<open>
  The unit manager (\<open>unit-manager/src/\<close>): the key-value table of the process, the allocation of units
  with two ports each and their release, the RPC actions on top of them, the routing of user requests
  to units, and the TCP sessions of the users.

  The table holds values of any type; a read with the wrong type leaves the variable as it was.  Units
  are objects behind pointers.  Of libzmq the messages handed over are recorded: what a unit's
  publisher sends, and what is pushed to a session's address.  The fields of a JSON text as simdjson
  returns them, the printed error replies and the result of an RPC call are arguments.
\<close>

section \<open>State\<close>

record unit_data =
  ud_work_id :: string
  output_url :: string
  inference_url :: string
  ud_port :: int

datatype any_val = AInt int | AString string | AUnit nat

record um_state =
  key_sql :: "string \<Rightarrow> any_val option"
  units :: "nat \<Rightarrow> unit_data option"
  next_unit :: nat
  work_id_number_counter :: int
  port_list_start :: int
  port_list :: "bool list"
  zmq_s_format :: string
  zmq_c_format :: string
  published :: "(nat \<times> string) list"
  pushed :: "(string \<times> string) list"

text \<open>\<open>SAFE_READING\<close> with the default the variable had before.\<close>

definition read_int :: "um_state \<Rightarrow> string \<Rightarrow> int option" where
  "read_int um k = (case key_sql um k of Some (AInt i) \<Rightarrow> Some i | _ \<Rightarrow> None)"

definition read_string :: "um_state \<Rightarrow> string \<Rightarrow> string option" where
  "read_string um k = (case key_sql um k of Some (AString v) \<Rightarrow> Some v | _ \<Rightarrow> None)"

definition read_unit :: "um_state \<Rightarrow> string \<Rightarrow> nat option" where
  "read_unit um k = (case key_sql um k of Some (AUnit p) \<Rightarrow> Some p | _ \<Rightarrow> None)"

definition SAFE_SETTING :: "string \<Rightarrow> any_val \<Rightarrow> um_state \<Rightarrow> um_state" where
  "SAFE_SETTING k v um = um\<lparr>key_sql := (key_sql um)(k := Some v)\<rparr>"

definition SAFE_ERASE :: "string \<Rightarrow> um_state \<Rightarrow> um_state" where
  "SAFE_ERASE k um = um\<lparr>key_sql := (key_sql um)(k := None)\<rparr>"

text \<open>
  The configuration file: the numbers and strings of the top-level object; \<open>trunc\<close> is the conversion of
  a floating-point literal.  Iterating with \<open>key()\<close> over anything else that is not empty throws.
\<close>

fun load_entry :: "(string \<Rightarrow> int) \<Rightarrow> string \<times> json \<Rightarrow> um_state \<Rightarrow> um_state" where
  "load_entry trunc (k, JInt i) um = SAFE_SETTING k (AInt (to_int32 i)) um"
| "load_entry trunc (k, JFloat x) um = SAFE_SETTING k (AInt (trunc x)) um"
| "load_entry trunc (k, JString v) um = SAFE_SETTING k (AString v) um"
| "load_entry trunc _ um = um"

fun load_default_config :: "(string \<Rightarrow> int) \<Rightarrow> json option \<Rightarrow> um_state \<Rightarrow> um_state res" where
  "load_default_config trunc None um = Inr um"
| "load_default_config trunc (Some (JObject kvs)) um = Inr (fold (load_entry trunc) kvs um)"
| "load_default_config trunc (Some JNull) um = Inr um"
| "load_default_config trunc (Some (JArray [])) um = Inr um"
| "load_default_config trunc (Some _) um = Inl (RuntimeError ''invalid_iterator'')"

section \<open>The key-value table\<close>

definition sys_sql_select :: "string \<Rightarrow> um_state \<Rightarrow> string" where
  "sys_sql_select k um = (case read_string um k of None \<Rightarrow> [] | Some v \<Rightarrow> v)"

definition sys_sql_set :: "string \<Rightarrow> string \<Rightarrow> um_state \<Rightarrow> um_state" where
  "sys_sql_set k v um = SAFE_SETTING k (AString v) um"

definition sys_sql_unset :: "string \<Rightarrow> um_state \<Rightarrow> um_state" where
  "sys_sql_unset k um = SAFE_ERASE k um"

section \<open>Units and their ports\<close>

fun first_free :: "bool list \<Rightarrow> nat option" where
  "first_free [] = None"
| "first_free (b # bs) = (if \<not> b then Some 0 else map_option Suc (first_free bs))"

text \<open>The loop over the port list; without a free port the variable is used uninitialised.\<close>

definition take_port :: "um_state \<Rightarrow> (int \<times> um_state) res" where
  "take_port um =
     (case first_free (port_list um) of
        None \<Rightarrow> Inl UndefinedBehaviour
      | Some i \<Rightarrow> Inr (port_list_start um + int i, um\<lparr>port_list := (port_list um)[i := True]\<rparr>))"

definition unit_url :: "um_state \<Rightarrow> string \<Rightarrow> string \<Rightarrow> int \<Rightarrow> string res" where
  "unit_url um unit kind port =
     (let fmt = (if str_contains ''sock'' (zmq_s_format um) then zmq_s_format um @ ''.'' @ unit @ kind else zmq_s_format um)
      in sprintf_i (length fmt + length (to_string port)) fmt port)"

definition sys_allocate_unit :: "string \<Rightarrow> um_state \<Rightarrow> (nat \<times> um_state) res" where
  "sys_allocate_unit unit um =
     (let n = work_id_number_counter um;
          um1 = um\<lparr>work_id_number_counter := to_int32 (n + 1)\<rparr>;
          wid = unit @ ''.'' @ to_string n
      in rbind (take_port um1) (\<lambda>(p1, um2).
         rbind (unit_url um2 unit ''.output_url'' p1) (\<lambda>out.
         rbind (take_port um2) (\<lambda>(p2, um3).
         rbind (unit_url um3 unit ''.inference_url'' p2) (\<lambda>inf.
           let q = next_unit um3;
               um4 = um3\<lparr>units := (units um3)(q := Some \<lparr>ud_work_id = wid, output_url = out, inference_url = inf, ud_port = n\<rparr>),
                         next_unit := Suc q\<rparr>
           in Inr (q, SAFE_SETTING (wid @ ''.out_port'') (AString out) (SAFE_SETTING wid (AUnit q) um4)))))))"

text \<open>\<open>port_list[port - port_list_start] = false\<close>, unchecked.\<close>

definition free_port :: "int \<Rightarrow> um_state \<Rightarrow> um_state res" where
  "free_port port um =
     (let i = port - port_list_start um
      in if 0 \<le> i \<and> i < int (length (port_list um)) then Inr (um\<lparr>port_list := (port_list um)[nat i := False]\<rparr>)
         else Inl UndefinedBehaviour)"

text \<open>A failed second scan leaves the port of the first; a failed first scan leaves it uninitialised.\<close>

definition sys_release_unit :: "string \<Rightarrow> um_state \<Rightarrow> (int \<times> um_state) res" where
  "sys_release_unit unit um =
     (case read_unit um unit of
        None \<Rightarrow> Inr (- 1, um)
      | Some p \<Rightarrow>
          (case units um p of
             None \<Rightarrow> Inl UndefinedBehaviour
           | Some u \<Rightarrow>
               (case sscanf_i (c_str (zmq_s_format um)) (c_str (output_url u)) of
                  None \<Rightarrow> Inl UndefinedBehaviour
                | Some p1 \<Rightarrow>
                    (let p2 = (case sscanf_i (c_str (zmq_s_format um)) (c_str (inference_url u)) of None \<Rightarrow> p1 | Some x \<Rightarrow> x)
                     in rbind (free_port p1 um) (\<lambda>um1. rbind (free_port p2 um1) (\<lambda>um2.
                          Inr (0, SAFE_ERASE (unit @ ''.out_port'') (SAFE_ERASE unit (um2\<lparr>units := (units um2)(p := None)\<rparr>)))))))))"

section \<open>The RPC actions\<close>

definition rpc_allocate_unit :: "um_state rpc_action" where
  "rpc_allocate_unit raw um =
     (case sys_allocate_unit raw um of
        Inl e \<Rightarrow> (Inl e, um)
      | Inr (p, um') \<Rightarrow>
          (case units um' p of
             None \<Rightarrow> (Inl UndefinedBehaviour, um')
           | Some u \<Rightarrow> (Inr (set_param (to_string (ud_port u)) (set_param (output_url u) (inference_url u))), um')))"

definition rpc_release_unit :: "um_state rpc_action" where
  "rpc_release_unit raw um = (case sys_release_unit raw um of Inl e \<Rightarrow> (Inl e, um) | Inr (_, um') \<Rightarrow> (Inr ''Success'', um'))"

definition rpc_sql_select :: "um_state rpc_action" where
  "rpc_sql_select raw um = (Inr (sys_sql_select raw um), um)"

definition rpc_sql_set :: "um_state rpc_action" where
  "rpc_sql_set raw um =
     (let key = sample_json_str_get raw ''key''; val = sample_json_str_get raw ''val''
      in if key = [] then (Inr ''False'', um) else (Inr ''Success'', sys_sql_set key val um))"

definition rpc_sql_unset :: "um_state rpc_action" where
  "rpc_sql_unset raw um = (Inr ''Success'', sys_sql_unset raw um)"

definition um_actions :: "(string \<times> um_state rpc_action) list" where
  "um_actions = [(''sql_select'', rpc_sql_select), (''register_unit'', rpc_allocate_unit),
     (''release_unit'', rpc_release_unit), (''sql_set'', rpc_sql_set), (''sql_unset'', rpc_sql_unset)]"

text \<open>
  The start of the service: the configuration (a missing upper port bound is used uninitialised, a
  negative size makes \<open>resize\<close> throw) and the registration of the actions, in this order.
\<close>

definition resize_ports :: "nat \<Rightarrow> bool list \<Rightarrow> bool list" where
  "resize_ports n ps = take n ps @ replicate (n - length ps) False"

fun register_all :: "zmq_api \<Rightarrow> 'w rpc_action \<Rightarrow> (string \<times> 'w rpc_action) list \<Rightarrow> string list \<times> 'w pzmq
    \<Rightarrow> (string list \<times> 'w pzmq) res" where
  "register_all api lst [] fp = Inr fp"
| "register_all api lst ((a, f) # as) fp =
     rbind (register_rpc_action api lst a f (fst fp) (snd fp)) (\<lambda>(ret, files, p). register_all api lst as (files, p))"

definition remote_server_work :: "zmq_api \<Rightarrow> um_state rpc_action \<Rightarrow> string list \<Rightarrow> um_state
    \<Rightarrow> (string list \<times> um_state pzmq \<times> um_state) res" where
  "remote_server_work api lst files um =
     (let um1 = um\<lparr>work_id_number_counter := (case read_int um ''config_work_id'' of None \<Rightarrow> work_id_number_counter um | Some i \<Rightarrow> i),
                   port_list_start := (case read_int um ''config_zmq_min_port'' of None \<Rightarrow> port_list_start um | Some i \<Rightarrow> i)\<rparr>
      in case read_int um ''config_zmq_max_port'' of
           None \<Rightarrow> Inl UndefinedBehaviour
         | Some end_port \<Rightarrow>
             if int_max < end_port - port_list_start um1 then Inl UndefinedBehaviour
             else if end_port < port_list_start um1 then Inl length_error
             else rbind (register_all api lst um_actions (files, new_pzmq_rpc ''sys''))
               (\<lambda>(files', p). Inr (files', p, um1\<lparr>port_list := resize_ports (nat (end_port - port_list_start um1)) (port_list um1)\<rparr>)))"

section \<open>Ports stay exclusive\<close>

lemma first_free_Some: "first_free ps = Some i \<Longrightarrow> i < length ps \<and> \<not> ps ! i"
  by (induction ps arbitrary: i) (auto split: if_splits)

lemma first_free_None: "first_free ps = None \<longleftrightarrow> filter Not ps = []"
  by (induction ps) auto

lemma free_after: "first_free ps = Some i \<Longrightarrow> length (filter Not ps) = Suc (length (filter Not (ps[i := True])))"
  by (induction ps arbitrary: i) (auto split: if_splits)

definition free_ports :: "um_state \<Rightarrow> nat" where
  "free_ports um = length (filter Not (port_list um))"

text \<open>A format with one conversion, whose number can be read back.\<close>

definition fmt_ok :: "string \<Rightarrow> bool" where
  "fmt_ok fmt \<longleftrightarrow> (\<exists>pre suf. fmt = pre @ ''%i'' @ suf \<and> (\<forall>c \<in> set pre. \<not> is_space c \<and> c \<noteq> CHR 0x25 \<and> c \<noteq> CHR 0x00)
     \<and> CHR 0x25 \<notin> set suf \<and> CHR 0x00 \<notin> set suf \<and> \<not> starts_digit 10 suf)"

definition name_ok :: "string \<Rightarrow> bool" where
  "name_ok unit \<longleftrightarrow> CHR 0x25 \<notin> set unit \<and> CHR 0x00 \<notin> set unit"

lemma unit_url_ok:
  assumes "fmt_ok (zmq_s_format um)" "name_ok unit" "name_ok kind" "0 < port" "port \<le> int_max"
  obtains url where "unit_url um unit kind port = Inr url"
    "sscanf_i (c_str (zmq_s_format um)) (c_str url) = Some port"
proof -
  obtain pre suf where fmt: "zmq_s_format um = pre @ ''%i'' @ suf"
    and pre: "\<forall>c \<in> set pre. \<not> is_space c \<and> c \<noteq> CHR 0x25 \<and> c \<noteq> CHR 0x00"
    and suf: "CHR 0x25 \<notin> set suf" "CHR 0x00 \<notin> set suf" "\<not> starts_digit 10 suf"
    using assms(1) by (auto simp: fmt_ok_def)
  define t where "t = (if str_contains ''sock'' (zmq_s_format um) then suf @ ''.'' @ unit @ kind else suf)"
  have t: "CHR 0x25 \<notin> set t" "CHR 0x00 \<notin> set t" "\<not> starts_digit 10 t"
    using suf assms(2,3) by (cases suf; auto simp: t_def name_ok_def starts_digit_def hex_val_def)+
  have pre': "CHR 0x25 \<notin> set pre" "CHR 0x00 \<notin> set pre" using pre by auto
  let ?url = "pre @ to_string port @ t"
  have "sprintf_i (length (pre @ ''%i'' @ t) + length (to_string port)) (pre @ ''%i'' @ t) port = Inr ?url"
    using pre' t by (intro sprintf_i_one) auto
  moreover have "(if str_contains ''sock'' (zmq_s_format um) then zmq_s_format um @ ''.'' @ unit @ kind else zmq_s_format um)
      = pre @ ''%i'' @ t" using fmt by (simp add: t_def)
  ultimately have "unit_url um unit kind port = Inr ?url" by (simp only: unit_url_def Let_def)
  moreover have "c_str ?url = ?url" using pre' t digit_no_nul by (intro c_str_id) auto
  moreover have "c_str (zmq_s_format um) = pre @ ''%i'' @ suf" unfolding fmt using pre' suf by (intro c_str_id) auto
  moreover have "sscanf_i (pre @ ''%i'' @ suf) ?url = Some port" using pre t assms(4,5) by (intro sscanf_i_one) auto
  ultimately show ?thesis using that by simp
qed

text \<open>The indices of the two ports of a unit, as \<open>sys_release_unit\<close> finds them.\<close>

definition holds_ports :: "um_state \<Rightarrow> unit_data \<Rightarrow> nat \<Rightarrow> nat \<Rightarrow> bool" where
  "holds_ports um u i j \<longleftrightarrow>
     sscanf_i (c_str (zmq_s_format um)) (c_str (output_url u)) = Some (port_list_start um + int i)
     \<and> sscanf_i (c_str (zmq_s_format um)) (c_str (inference_url u)) = Some (port_list_start um + int j)"

definition config_ok :: "um_state \<Rightarrow> bool" where
  "config_ok um \<longleftrightarrow> fmt_ok (zmq_s_format um) \<and> 0 < port_list_start um
     \<and> port_list_start um + int (length (port_list um)) \<le> int_max"

definition ports_ok :: "um_state \<Rightarrow> bool" where
  "ports_ok um \<longleftrightarrow>
     (\<forall>p u. units um p = Some u \<longrightarrow> (\<exists>i j. holds_ports um u i j \<and> i \<noteq> j
        \<and> i < length (port_list um) \<and> j < length (port_list um) \<and> port_list um ! i \<and> port_list um ! j))
     \<and> (\<forall>p q u v i j k l. p \<noteq> q \<longrightarrow> units um p = Some u \<longrightarrow> units um q = Some v \<longrightarrow> holds_ports um u i j \<longrightarrow> holds_ports um v k l
        \<longrightarrow> {i, j} \<inter> {k, l} = {})"

definition table_of_units :: "um_state \<Rightarrow> bool" where
  "table_of_units um \<longleftrightarrow> (\<forall>k p. key_sql um k = Some (AUnit p) \<longrightarrow> units um p \<noteq> None)
     \<and> (\<forall>k l p. key_sql um k = Some (AUnit p) \<longrightarrow> key_sql um l = Some (AUnit p) \<longrightarrow> k = l)
     \<and> (\<forall>p. next_unit um \<le> p \<longrightarrow> units um p = None)"

definition um_inv :: "um_state \<Rightarrow> bool" where
  "um_inv um \<longleftrightarrow> config_ok um \<and> ports_ok um \<and> table_of_units um"

lemma holds_ports_unique: "holds_ports um u i j \<Longrightarrow> holds_ports um u k l \<Longrightarrow> i = k \<and> j = l"
  by (simp add: holds_ports_def)

lemma holds_ports_cong:
  "zmq_s_format um' = zmq_s_format um \<Longrightarrow> port_list_start um' = port_list_start um \<Longrightarrow> holds_ports um' = holds_ports um"
  by (simp add: holds_ports_def fun_eq_iff)

lemma config_ok_frame [simp]: "config_ok (um\<lparr>key_sql := t\<rparr>) = config_ok um" "config_ok (um\<lparr>units := h\<rparr>) = config_ok um"
    "config_ok (um\<lparr>next_unit := n\<rparr>) = config_ok um" "config_ok (um\<lparr>work_id_number_counter := c\<rparr>) = config_ok um"
  by (simp_all add: config_ok_def)

lemma ports_ok_frame [simp]: "ports_ok (um\<lparr>key_sql := t\<rparr>) = ports_ok um" "ports_ok (um\<lparr>next_unit := n\<rparr>) = ports_ok um"
    "ports_ok (um\<lparr>work_id_number_counter := c\<rparr>) = ports_ok um"
  by (simp_all add: ports_ok_def holds_ports_def)

lemma table_of_unitsI:
  assumes "\<And>k p. key_sql um k = Some (AUnit p) \<Longrightarrow> units um p \<noteq> None"
    "\<And>k l p. key_sql um k = Some (AUnit p) \<Longrightarrow> key_sql um l = Some (AUnit p) \<Longrightarrow> k = l"
    "\<And>p. next_unit um \<le> p \<Longrightarrow> units um p = None"
  shows "table_of_units um"
  using assms unfolding table_of_units_def by (intro conjI allI impI) assumption+

lemma table_of_unitsD:
  assumes "table_of_units um"
  shows "key_sql um k = Some (AUnit p) \<Longrightarrow> \<exists>u. units um p = Some u"
    "key_sql um k = Some (AUnit p) \<Longrightarrow> key_sql um l = Some (AUnit p) \<Longrightarrow> k = l"
    "next_unit um \<le> p \<Longrightarrow> units um p = None"
  using assms by (auto simp: table_of_units_def)

lemma um_inv_table:
  assumes "um_inv um" "\<And>k p. t k = Some (AUnit p) \<Longrightarrow> key_sql um k = Some (AUnit p)"
  shows "um_inv (um\<lparr>key_sql := t\<rparr>)"
proof -
  have tab: "table_of_units um" using assms(1) by (simp add: um_inv_def)
  have "table_of_units (um\<lparr>key_sql := t\<rparr>)"
  proof (rule table_of_unitsI, goal_cases)
    case (1 k p)
    then show ?case using table_of_unitsD(1) [OF tab assms(2)] by simp
  next
    case (2 k l p)
    then show ?case using table_of_unitsD(2) [OF tab assms(2) assms(2)] by simp
  next
    case (3 p)
    then show ?case using table_of_unitsD(3) [OF tab] by simp
  qed
  with assms(1) show ?thesis by (simp add: um_inv_def)
qed

lemma ports_okI:
  assumes "\<And>p u. units um p = Some u \<Longrightarrow> \<exists>i j. holds_ports um u i j \<and> i \<noteq> j
      \<and> i < length (port_list um) \<and> j < length (port_list um) \<and> port_list um ! i \<and> port_list um ! j"
    and "\<And>p q u v i j k l. p \<noteq> q \<Longrightarrow> units um p = Some u \<Longrightarrow> units um q = Some v \<Longrightarrow> holds_ports um u i j \<Longrightarrow> holds_ports um v k l
      \<Longrightarrow> {i, j} \<inter> {k, l} = {}"
  shows "ports_ok um"
  unfolding ports_ok_def by (intro conjI allI impI; (rule assms; assumption))

lemma ports_okD:
  assumes "ports_ok um" "units um p = Some u"
  obtains i j where "holds_ports um u i j" "i \<noteq> j" "i < length (port_list um)" "j < length (port_list um)"
    "port_list um ! i" "port_list um ! j"
  using assms unfolding ports_ok_def by meson

lemma ports_ok_disjoint:
  assumes "ports_ok um" "p \<noteq> q" "units um p = Some u" "units um q = Some v" "holds_ports um u i j" "holds_ports um v k l"
  shows "{i, j} \<inter> {k, l} = {}"
  using assms unfolding ports_ok_def by meson

definition mark :: "bool \<Rightarrow> nat \<Rightarrow> nat \<Rightarrow> nat \<Rightarrow> unit_data option \<Rightarrow> um_state \<Rightarrow> um_state" where
  "mark b i j p u um = um\<lparr>port_list := (port_list um)[i := b, j := b], units := (units um)(p := u)\<rparr>"

lemma mark_simps [simp]:
  "holds_ports (mark b i j p u um) = holds_ports um" "units (mark b i j p u um) = (units um)(p := u)"
  "port_list (mark b i j p u um) = (port_list um)[i := b, j := b]" "config_ok (mark b i j p u um) = config_ok um"
  "key_sql (mark b i j p u um) = key_sql um" "next_unit (mark b i j p u um) = next_unit um"
  by (simp_all add: mark_def holds_ports_def config_ok_def fun_eq_iff)

lemma ports_ok_add:
  assumes "ports_ok um" "units um p = None" "holds_ports um u i j" "i \<noteq> j" "i < length (port_list um)" "j < length (port_list um)"
    and free: "\<not> port_list um ! i" "\<not> port_list um ! j"
  shows "ports_ok (mark True i j p (Some u) um)"
proof (rule ports_okI, goal_cases)
  case (1 q v)
  show ?case
  proof (cases "q = p")
    case True
    then show ?thesis using 1 assms(3-6) by - (rule exI [of _ i], rule exI [of _ j], auto)
  next
    case False
    then have "units um q = Some v" using 1 by simp
    from ports_okD [OF assms(1) this] obtain k l where "holds_ports um v k l" "k \<noteq> l" "k < length (port_list um)"
      "l < length (port_list um)" "port_list um ! k" "port_list um ! l" .
    then show ?thesis using assms(5,6) by - (rule exI [of _ k], rule exI [of _ l], simp add: nth_list_update)
  qed
next
  case (2 q r v w a b c d)
  have other: "{i, j} \<inter> {k, l} = {}" if "units um q = Some v" "holds_ports um v k l" for q v k l
  proof -
    from ports_okD [OF assms(1) that(1)] obtain k' l' where "holds_ports um v k' l'" "port_list um ! k'" "port_list um ! l'" .
    with holds_ports_unique [OF that(2)] free show ?thesis by auto
  qed
  show ?case
  proof (cases "q = p \<or> r = p")
    case True
    then consider "q = p" "r \<noteq> p" | "r = p" "q \<noteq> p" using 2(1) by auto
    then show ?thesis
    proof cases
      case 1
      then have "a = i" "b = j" "units um r = Some w" "holds_ports um w c d" using 2 holds_ports_unique [OF assms(3)] by auto
      then show ?thesis using other by simp
    next
      case rp: 2
      then have "c = i" "d = j" "units um q = Some v" "holds_ports um v a b" using 2 holds_ports_unique [OF assms(3)] by auto
      then show ?thesis using other by blast
    qed
  next
    case False
    then show ?thesis using 2 ports_ok_disjoint [OF assms(1), of q r v w a b c d] by simp
  qed
qed

lemma ports_ok_remove:
  assumes "ports_ok um" "units um p = Some u" "holds_ports um u i j"
  shows "ports_ok (mark False i j p None um)"
proof (rule ports_okI, goal_cases)
  case (1 q v)
  then have q: "q \<noteq> p" "units um q = Some v" by (auto split: if_splits)
  from ports_okD [OF assms(1) q(2)] obtain k l where v: "holds_ports um v k l" "k \<noteq> l" "k < length (port_list um)"
    "l < length (port_list um)" "port_list um ! k" "port_list um ! l" .
  have "{i, j} \<inter> {k, l} = {}" using q v(1) assms by (intro ports_ok_disjoint [of um p q u v]) auto
  with v show ?case by - (rule exI [of _ k], rule exI [of _ l], auto)
next
  case (2 q r v w a b c d)
  then show ?case using ports_ok_disjoint [OF assms(1), of q r v w a b c d] by (auto split: if_splits)
qed

text \<open>The state after an allocation, and after a release.\<close>

definition allocated :: "nat \<Rightarrow> nat \<Rightarrow> unit_data \<Rightarrow> um_state \<Rightarrow> um_state" where
  "allocated i j u um = (mark True i j (next_unit um) (Some u) um)
     \<lparr>work_id_number_counter := to_int32 (work_id_number_counter um + 1), next_unit := Suc (next_unit um),
      key_sql := (key_sql um)(ud_work_id u := Some (AUnit (next_unit um)), ud_work_id u @ ''.out_port'' := Some (AString (output_url u)))\<rparr>"

definition released :: "nat \<Rightarrow> nat \<Rightarrow> nat \<Rightarrow> string \<Rightarrow> um_state \<Rightarrow> um_state" where
  "released i j p k um = (mark False i j p None um)\<lparr>key_sql := (key_sql um)(k := None, k @ ''.out_port'' := None)\<rparr>"

lemma take_port_ok:
  assumes "1 \<le> free_ports um"
  obtains i where "take_port um = Inr (port_list_start um + int i, um\<lparr>port_list := (port_list um)[i := True]\<rparr>)"
    "i < length (port_list um)" "\<not> port_list um ! i" "free_ports um = Suc (free_ports (um\<lparr>port_list := (port_list um)[i := True]\<rparr>))"
proof -
  obtain i where i: "first_free (port_list um) = Some i"
    using assms first_free_None [of "port_list um"] by (cases "first_free (port_list um)") (auto simp: free_ports_def)
  then show ?thesis using that [of i] first_free_Some [OF i] free_after [OF i] by (simp add: take_port_def free_ports_def)
qed

lemma allocate_ok:
  assumes "um_inv um" "name_ok unit" "2 \<le> free_ports um"
  obtains i j u where "sys_allocate_unit unit um = Inr (next_unit um, allocated i j u um)"
    "i \<noteq> j" "i < length (port_list um)" "j < length (port_list um)" "\<not> port_list um ! i" "\<not> port_list um ! j"
    "holds_ports um u i j" "ud_work_id u = unit @ ''.'' @ to_string (work_id_number_counter um)"
    "ud_port u = work_id_number_counter um"
proof -
  have cfg: "fmt_ok (zmq_s_format um)" "0 < port_list_start um" "port_list_start um + int (length (port_list um)) \<le> int_max"
    using assms(1) by (simp_all add: um_inv_def config_ok_def)
  let ?n = "work_id_number_counter um"
  let ?um1 = "um\<lparr>work_id_number_counter := to_int32 (?n + 1)\<rparr>"
  have "1 \<le> free_ports ?um1" using assms(3) by (simp add: free_ports_def)
  from take_port_ok [OF this] obtain i where
    i: "take_port ?um1 = Inr (port_list_start um + int i, ?um1\<lparr>port_list := (port_list um)[i := True]\<rparr>)"
    "i < length (port_list um)" "\<not> port_list um ! i"
    "free_ports ?um1 = Suc (free_ports (?um1\<lparr>port_list := (port_list um)[i := True]\<rparr>))" by auto
  let ?um2 = "?um1\<lparr>port_list := (port_list um)[i := True]\<rparr>"
  have "1 \<le> free_ports ?um2" using assms(3) i(4) by (simp add: free_ports_def)
  from take_port_ok [OF this] obtain j where
    j: "take_port ?um2 = Inr (port_list_start um + int j, ?um2\<lparr>port_list := (port_list um)[i := True, j := True]\<rparr>)"
    "j < length (port_list um)" "\<not> (port_list um)[i := True] ! j" by auto
  have ij: "i \<noteq> j" "\<not> port_list um ! j" using i j by (auto simp: nth_list_update split: if_splits)
  let ?um3 = "?um2\<lparr>port_list := (port_list um)[i := True, j := True]\<rparr>"
  have kinds: "name_ok ''.output_url''" "name_ok ''.inference_url''" by (simp_all add: name_ok_def)
  obtain out where out: "unit_url ?um2 unit ''.output_url'' (port_list_start um + int i) = Inr out"
    "sscanf_i (c_str (zmq_s_format um)) (c_str out) = Some (port_list_start um + int i)"
    using unit_url_ok [of ?um2, OF _ assms(2) kinds(1), of "port_list_start um + int i"] cfg i(2) by auto
  obtain inf where inf: "unit_url ?um3 unit ''.inference_url'' (port_list_start um + int j) = Inr inf"
    "sscanf_i (c_str (zmq_s_format um)) (c_str inf) = Some (port_list_start um + int j)"
    using unit_url_ok [of ?um3, OF _ assms(2) kinds(2), of "port_list_start um + int j"] cfg j(2) by auto
  let ?u = "\<lparr>ud_work_id = unit @ ''.'' @ to_string ?n, output_url = out, inference_url = inf, ud_port = ?n\<rparr>"
  have "sys_allocate_unit unit um = Inr (next_unit um, allocated i j ?u um)"
    using i(1) j(1) out(1) inf(1) by (simp add: sys_allocate_unit_def Let_def allocated_def mark_def SAFE_SETTING_def)
  moreover have "holds_ports um ?u i j" using out(2) inf(2) by (simp add: holds_ports_def)
  ultimately show ?thesis using that [of i j ?u] i j ij by simp
qed

lemma allocated_inv:
  assumes "um_inv um" "i \<noteq> j" "i < length (port_list um)" "j < length (port_list um)" "\<not> port_list um ! i" "\<not> port_list um ! j"
    "holds_ports um u i j"
  shows "um_inv (allocated i j u um)"
proof -
  have tab: "table_of_units um" and po: "ports_ok um" and cf: "config_ok um" using assms(1) by (simp_all add: um_inv_def)
  have free: "units um (next_unit um) = None" using table_of_unitsD(3) [OF tab] by simp
  have fresh: "key_sql um k \<noteq> Some (AUnit (next_unit um))" for k using table_of_unitsD(1) [OF tab] free by force
  have "table_of_units (allocated i j u um)"
  proof (rule table_of_unitsI, goal_cases)
    case (1 k p)
    then show ?case using table_of_unitsD(1) [OF tab, of k p] by (auto simp: allocated_def split: if_splits)
  next
    case (2 k l p)
    then show ?case using table_of_unitsD(2) [OF tab, of k p l] fresh by (auto simp: allocated_def split: if_splits)
  next
    case (3 p)
    then show ?case using table_of_unitsD(3) [OF tab, of p] by (simp add: allocated_def)
  qed
  moreover have "ports_ok (allocated i j u um)" using ports_ok_add [OF po free assms(7,2-6)] by (simp add: allocated_def)
  ultimately show ?thesis using cf by (simp add: um_inv_def allocated_def)
qed

lemma release_ok:
  assumes "um_inv um" "read_unit um k = Some p"
  obtains i j u where "units um p = Some u" "holds_ports um u i j" "sys_release_unit k um = Inr (0, released i j p k um)"
proof -
  have key: "key_sql um k = Some (AUnit p)" using assms(2) by (auto simp: read_unit_def split: option.splits any_val.splits)
  have tab: "table_of_units um" and po: "ports_ok um" using assms(1) by (simp_all add: um_inv_def)
  obtain u where u: "units um p = Some u" using table_of_unitsD(1) [OF tab key] by blast
  from ports_okD [OF po u] obtain i j where ij: "holds_ports um u i j" "i < length (port_list um)" "j < length (port_list um)" .
  then have "sys_release_unit k um = Inr (0, released i j p k um)"
    using assms(2) u by (simp add: sys_release_unit_def free_port_def holds_ports_def released_def mark_def SAFE_ERASE_def Let_def)
  with u ij that show ?thesis by blast
qed

lemma released_inv:
  assumes "um_inv um" "read_unit um k = Some p" "units um p = Some u" "holds_ports um u i j"
  shows "um_inv (released i j p k um)"
proof -
  have key: "key_sql um k = Some (AUnit p)" using assms(2) by (auto simp: read_unit_def split: option.splits any_val.splits)
  have tab: "table_of_units um" and po: "ports_ok um" and cf: "config_ok um" using assms(1) by (simp_all add: um_inv_def)
  have "table_of_units (released i j p k um)"
  proof (rule table_of_unitsI, goal_cases)
    case (1 l q)
    then show ?case using table_of_unitsD(1) [OF tab, of l q] table_of_unitsD(2) [OF tab key, of l]
      by (auto simp: released_def split: if_splits)
  next
    case (2 l m q)
    then show ?case using table_of_unitsD(2) [OF tab, of l q m] by (auto simp: released_def split: if_splits)
  next
    case (3 q)
    then show ?case using table_of_unitsD(3) [OF tab, of q] by (simp add: released_def)
  qed
  moreover have "ports_ok (released i j p k um)" using ports_ok_remove [OF po assms(3,4)] by (simp add: released_def)
  ultimately show ?thesis using cf by (simp add: um_inv_def released_def)
qed

section \<open>The service\<close>

text \<open>The table of the running service; \<open>names\<close> is the order in which \<open>list_action\<close> sees the keys.\<close>

definition um_tab :: "string list \<Rightarrow> string \<Rightarrow> um_state rpc_action option" where
  "um_tab names = map_of ((''list_action'', \<lambda>d um. (rpc_list_action names, um)) # um_actions)"

definition um_guard :: "string \<Rightarrow> string \<Rightarrow> um_state \<Rightarrow> bool" where
  "um_guard a d um \<longleftrightarrow> (a = ''register_unit'' \<longrightarrow> name_ok d \<and> 2 \<le> free_ports um)"

lemma um_tab_cases:
  assumes "um_tab names a = Some f"
  obtains "f = (\<lambda>d um. (rpc_list_action names, um))" | "f = rpc_sql_select" | "a = ''register_unit''" "f = rpc_allocate_unit"
    | "f = rpc_release_unit" | "f = rpc_sql_set" | "f = rpc_sql_unset"
  using assms by (auto simp: um_tab_def um_actions_def split: if_splits)

lemma rpc_allocate_reply:
  assumes "um_inv um" "name_ok d" "2 \<le> free_ports um"
  obtains i j u where "rpc_allocate_unit d um = (Inr (set_param (to_string (ud_port u)) (set_param (output_url u) (inference_url u))), allocated i j u um)"
    "um_inv (allocated i j u um)" "units (allocated i j u um) (next_unit um) = Some u" "ud_port u = work_id_number_counter um"
    "ud_work_id u = d @ ''.'' @ to_string (work_id_number_counter um)" "holds_ports um u i j" "units um (next_unit um) = None"
proof -
  have free: "units um (next_unit um) = None" using assms(1) by (simp add: um_inv_def table_of_units_def)
  from allocate_ok [OF assms] obtain i j u where a: "sys_allocate_unit d um = Inr (next_unit um, allocated i j u um)"
    "i \<noteq> j" "i < length (port_list um)" "j < length (port_list um)" "\<not> port_list um ! i" "\<not> port_list um ! j"
    "holds_ports um u i j" "ud_work_id u = d @ ''.'' @ to_string (work_id_number_counter um)"
    "ud_port u = work_id_number_counter um" .
  moreover have "um_inv (allocated i j u um)" by (rule allocated_inv [OF assms(1) a(2-7)])
  moreover have "units (allocated i j u um) (next_unit um) = Some u" by (simp add: allocated_def)
  ultimately show ?thesis using that free by (simp add: rpc_allocate_unit_def)
qed

lemma rpc_release_inv:
  assumes "um_inv um"
  shows "\<exists>um'. rpc_release_unit d um = (Inr ''Success'', um') \<and> um_inv um'"
proof (cases "read_unit um d")
  case None
  then show ?thesis using assms by (simp add: rpc_release_unit_def sys_release_unit_def)
next
  case (Some p)
  from release_ok [OF assms this] obtain i j u where "units um p = Some u" "holds_ports um u i j"
    "sys_release_unit d um = Inr (0, released i j p d um)" .
  with released_inv [OF assms Some] show ?thesis by (simp add: rpc_release_unit_def)
qed

lemma um_action_ok:
  assumes "names \<noteq> []" "um_tab names a = Some f" "um_inv um" "um_guard a d um"
  shows "\<exists>r um'. f d um = (Inr r, um') \<and> um_inv um'"
  using assms(2)
proof (cases rule: um_tab_cases)
  case 3
  then have "name_ok d" "2 \<le> free_ports um" using assms(4) by (simp_all add: um_guard_def)
  from rpc_allocate_reply [OF assms(3) this] show ?thesis using 3 by metis
next
  case 4
  then show ?thesis using rpc_release_inv [OF assms(3)] by metis
qed (use assms(1,3) in \<open>auto simp: rpc_list_action_def rpc_sql_select_def rpc_sql_set_def rpc_sql_unset_def sys_sql_set_def
      sys_sql_unset_def SAFE_SETTING_def SAFE_ERASE_def Let_def split: if_splits intro!: um_inv_table\<close>)

interpretation um_service: rpc_service "um_tab (n # names)" um_inv um_guard for n names
proof
  fix a f um d r um'
  assume *: "um_tab (n # names) a = Some f" "um_inv um" "um_guard a d um"
  have "n # names \<noteq> []" by simp
  note ok = um_action_ok [OF this *]
  show "um_inv um'" if "f d um = (r, um')" using ok that by auto
  show "catchable e" if "f d um = (Inl e, um')" for e using ok that by auto
qed

lemma register_all_um:
  assumes "register_all api lst um_actions (files, new_pzmq_rpc ''sys'') = Inr (files', p)"
  shows "zmq_fun p = (''list_action'', lst) # um_actions"
  using assms
  by (auto simp: um_actions_def register_rpc_action_def new_pzmq_rpc_def creat_def set_action_def Let_def split: prod.splits)

text \<open>A process before its service starts: no units, and a configuration as the shipped one.\<close>

definition um_fresh :: "um_state \<Rightarrow> bool" where
  "um_fresh um \<longleftrightarrow> units um = (\<lambda>_. None) \<and> (\<forall>k p. key_sql um k \<noteq> Some (AUnit p)) \<and> fmt_ok (zmq_s_format um) \<and> port_list um = []
     \<and> (\<exists>lo hi. read_int um ''config_zmq_min_port'' = Some lo \<and> read_int um ''config_zmq_max_port'' = Some hi \<and> 0 < lo \<and> hi \<le> int_max)"

lemma started_inv:
  assumes "remote_server_work api lst files um0 = Inr (files', p, um)" "um_fresh um0"
  shows "um_inv um" "zmq_fun p = (''list_action'', lst) # um_actions"
proof -
  obtain lo hi where c: "read_int um0 ''config_zmq_min_port'' = Some lo" "read_int um0 ''config_zmq_max_port'' = Some hi" "0 < lo" "hi \<le> int_max"
    using assms(2) unfolding um_fresh_def by blast
  then have um: "register_all api lst um_actions (files, new_pzmq_rpc ''sys'') = Inr (files', p)"
    "port_list um = replicate (nat (hi - lo)) False" "port_list_start um = lo" "zmq_s_format um = zmq_s_format um0"
    "units um = units um0" "key_sql um = key_sql um0" "\<not> hi < lo"
    using assms by (auto simp: remote_server_work_def um_fresh_def resize_ports_def Let_def split: if_splits)
  show "zmq_fun p = (''list_action'', lst) # um_actions" by (rule register_all_um [OF um(1)])
  show "um_inv um" using assms(2) um(2-7) c
    by (simp add: um_inv_def config_ok_def ports_ok_def table_of_units_def um_fresh_def)
qed

section \<open>Properties\<close>


definition sample_um :: um_state where
  "sample_um = \<lparr>key_sql = (\<lambda>k. if k = ''config_zmq_min_port'' then Some (AInt 5010) else if k = ''config_zmq_max_port'' then Some (AInt 5014)
       else if k = ''config_work_id'' then Some (AInt 1000) else None),
     units = (\<lambda>_. None), next_unit = 0, work_id_number_counter = 0, port_list_start = 0, port_list = [],
     zmq_s_format = ''ipc:///tmp/llm/%i.sock'', zmq_c_format = ''ipc:///tmp/llm/%i.sock'', published = [], pushed = []\<rparr>"

definition sample_api :: zmq_api where
  "sample_api = \<lparr>api_bind = (\<lambda>u fs. (0, fs)), api_connect = (\<lambda>u. 0), api_request = (\<lambda>u r. None)\<rparr>"

definition sample_started :: "string list \<times> um_state pzmq \<times> um_state" where
  "sample_started = projr (remote_server_work sample_api (\<lambda>d um. (rpc_list_action [''list_action''], um)) [] sample_um)"

lemma sample_fmt: "fmt_ok ''ipc:///tmp/llm/%i.sock''"
  unfolding fmt_ok_def
  by (rule exI [of _ "''ipc:///tmp/llm/''"], rule exI [of _ "''.sock''"]) (simp add: is_space_def starts_digit_def hex_val_def)

lemma sample_um_fresh: "um_fresh sample_um"
  using sample_fmt by (simp add: um_fresh_def sample_um_def read_int_def int_max_def)

lemma sample_start:
  "remote_server_work sample_api (\<lambda>d um. (rpc_list_action [''list_action''], um)) [] sample_um
    = Inr (fst sample_started, fst (snd sample_started), snd (snd sample_started))"
  "free_ports (snd (snd sample_started)) = 4"
  by (simp_all add: sample_started_def remote_server_work_def sample_um_def read_int_def int_max_def um_actions_def register_rpc_action_def
      new_pzmq_rpc_def creat_def set_action_def sample_api_def Let_def free_ports_def resize_ports_def)

definition one_request :: rep_socket where
  "one_request = \<lparr>rs_queue = [(7, [''register_unit'', ''llm''])], rs_cur = None, rs_sent = []\<rparr>"


text \<open>
  Registering a unit and releasing it under the identifier it was given succeeds and leaves the ports,
  the units and (when the identifier was unused) the table as before; only the counter and the next
  object differ.
\<close>

theorem register_release_roundtrip:
  assumes "um_inv um" "name_ok unit" "2 \<le> free_ports um"
    and "wid = unit @ ''.'' @ to_string (work_id_number_counter um)" "key_sql um wid = None" "key_sql um (wid @ ''.out_port'') = None"
  shows "\<exists>r um1 um2. rpc_allocate_unit unit um = (Inr r, um1) \<and> rpc_release_unit wid um1 = (Inr ''Success'', um2)
    \<and> key_sql um1 wid \<noteq> None \<and> port_list um2 = port_list um \<and> units um2 = units um \<and> key_sql um2 = key_sql um"
proof -
  from allocate_ok [OF assms(1-3)] obtain i j u where a: "sys_allocate_unit unit um = Inr (next_unit um, allocated i j u um)"
    "i \<noteq> j" "i < length (port_list um)" "j < length (port_list um)" "\<not> port_list um ! i" "\<not> port_list um ! j"
    "holds_ports um u i j" "ud_work_id u = unit @ ''.'' @ to_string (work_id_number_counter um)"
    "ud_port u = work_id_number_counter um" .
  let ?um = "allocated i j u um"
  have wid: "ud_work_id u = wid" using a(8) assms(4) by simp
  have inv: "um_inv ?um" by (rule allocated_inv [OF assms(1) a(2-7)])
  have key: "read_unit ?um wid = Some (next_unit um)" using wid by (simp add: read_unit_def allocated_def)
  have u: "units ?um (next_unit um) = Some u" by (simp add: allocated_def)
  have "holds_ports ?um = holds_ports um" by (rule holds_ports_cong) (simp_all add: allocated_def mark_def)
  moreover from release_ok [OF inv key] obtain i' j' u' where r: "units ?um (next_unit um) = Some u'" "holds_ports ?um u' i' j'"
    "sys_release_unit wid ?um = Inr (0, released i' j' (next_unit um) wid ?um)" .
  ultimately have ij: "i' = i" "j' = j" using u holds_ports_unique [OF a(7), of i' j'] by auto
  have restored: "(port_list um)[i := True, j := True, i := False, j := False] = port_list um"
    using a(2-6) by (intro nth_equalityI) (auto simp: nth_list_update)
  have "units um (next_unit um) = None" using assms(1) by (simp add: um_inv_def table_of_units_def)
  then have "units (released i j (next_unit um) wid ?um) = units um" by (auto simp: released_def allocated_def)
  moreover have "key_sql (released i j (next_unit um) wid ?um) = key_sql um"
    using assms(5,6) wid by (auto simp: released_def allocated_def fun_eq_iff)
  moreover have "port_list (released i j (next_unit um) wid ?um) = port_list um"
    using restored by (simp add: released_def allocated_def)
  ultimately show ?thesis using a(1) u r(3) ij wid
    by (simp add: rpc_allocate_unit_def rpc_release_unit_def) (simp add: allocated_def)
qed

theorem register_release_roundtrip_witness:
  "\<exists>r um1 um2. rpc_allocate_unit ''llm'' (snd (snd sample_started)) = (Inr r, um1) \<and> rpc_release_unit ''llm.1000'' um1 = (Inr ''Success'', um2)
    \<and> port_list um2 = port_list (snd (snd sample_started))"
proof -
  have c: "work_id_number_counter (snd (snd sample_started)) = 1000" "key_sql (snd (snd sample_started)) = key_sql sample_um"
    by (simp_all add: sample_started_def remote_server_work_def sample_um_def read_int_def int_max_def um_actions_def register_rpc_action_def
      new_pzmq_rpc_def creat_def set_action_def sample_api_def Let_def)
  have "to_string 1000 = ''1000''" by (simp add: print_number)
  with c show ?thesis using sample_start(2)
    register_release_roundtrip [OF started_inv(1) [OF sample_start(1) sample_um_fresh], of "''llm''" "''llm.1000''"]
    by (simp add: name_ok_def sample_um_def) blast
qed

end
