(* ===== verification/Server_Life.thy ===== *)
theory Server_Life
  imports Tcp_Server Inet_Address Unit_Manager
begin

text \<open>
  The life of a \<open>TcpServer\<close> from construction to destruction (\<open>network/src/TcpServer.cc\<close>,
  \<open>network/src/Acceptor.cc\<close>) and the process that owns one in the repository's unit manager
  (\<open>unit-manager/src/main.cpp\<close>, \<open>unit-manager/src/tcp_comm.cpp\<close>).  The answers of the operating system to the
  calls of the constructor are a record; \<open>so_freed\<close> marks a server whose memory is gone, and
  \<open>so_shutting\<close> the established connections that are shutting down (\<open>kDisconnecting\<close>).
\<close>

section \<open>Construction and start\<close>

record server_os =
  os_socket :: bool
  os_null_fd :: int
  os_bind :: bool
  os_listen :: bool

record server_obj =
  so_srv :: TcpServer
  so_acceptor :: Acceptor
  so_shutting :: "nat set"
  so_freed :: bool

definition createNonblockingOrDie :: "bool \<Rightarrow> unit res" where
  "createNonblockingOrDie ok = (if ok then Inr () else Inl LogFatal)"

definition new_Acceptor :: "server_os \<Rightarrow> Acceptor res" where
  "new_Acceptor os =
     rbind (createNonblockingOrDie (os_socket os)) (\<lambda>_.
       cpp_assert (0 \<le> os_null_fd os)
         (rbind (bindOrDie (os_bind os)) (\<lambda>_.
           Inr \<lparr>listening = False, reading = False, idleFd = os_null_fd os, has_callback = False, acceptor_calls = []\<rparr>)))"

definition destroy_Acceptor :: "Acceptor \<Rightarrow> Acceptor" where
  "destroy_Acceptor a = a\<lparr>reading := False, acceptor_calls := acceptor_calls a @ [Close (idleFd a)]\<rparr>"

definition TcpServer_ctor :: "inet_api \<Rightarrow> server_os \<Rightarrow> InetAddress \<Rightarrow> string \<Rightarrow> server_obj res" where
  "TcpServer_ctor api os listenAddr nameArg =
     rbind (InetAddress_toIpPort api listenAddr) (\<lambda>ip.
     rbind (new_Acceptor os) (\<lambda>a.
       Inr \<lparr>so_srv = new_TcpServer nameArg ip, so_acceptor = a\<lparr>has_callback := True\<rparr>, so_shutting = {}, so_freed = False\<rparr>))"

definition TcpServer_setThreadNum :: "int \<Rightarrow> server_obj \<Rightarrow> server_obj res" where
  "TcpServer_setThreadNum n ob =
     rbind (setThreadNum n (threadPool (so_srv ob))) (\<lambda>pool. Inr (ob\<lparr>so_srv := (so_srv ob)\<lparr>threadPool := pool\<rparr>\<rparr>))"

definition TcpServer_start :: "server_os \<Rightarrow> server_obj \<Rightarrow> server_obj res" where
  "TcpServer_start os ob =
     rbind (etp_start (threadPool (so_srv ob))) (\<lambda>pool.
       cpp_assert (\<not> listening (so_acceptor ob))
         (rbind (Acceptor_listen (os_listen os) (so_acceptor ob)) (\<lambda>a.
           Inr (ob\<lparr>so_srv := (so_srv ob)\<lparr>threadPool := pool\<rparr>, so_acceptor := a\<rparr>))))"

section \<open>Destruction\<close>

text \<open>
  The loop of the destructor, over the connections \<open>cs\<close> in the order of the table.  It runs in the base
  loop: a connection of that loop is destroyed at once, others get a functor.  \<open>connectDestroyed\<close> leaves the
  events of a connection that is shutting down enabled, on which \<open>Channel::remove\<close> asserts (\<open>Tcp_Connection\<close>).
\<close>

definition removable :: "nat set \<Rightarrow> nat \<Rightarrow> TcpServer \<Rightarrow> bool" where
  "removable D c s \<longleftrightarrow> \<not> (stage s c = Established \<and> c \<in> D)"

fun destroy_conns :: "nat set \<Rightarrow> nat list \<Rightarrow> TcpServer \<Rightarrow> TcpServer res" where
  "destroy_conns D [] s = Inr s"
| "destroy_conns D (c # cs) s =
     cpp_assert (conn_loop s c = 0 \<longrightarrow> removable D c s)
       (rbind (srv_runInLoop 0 (conn_loop s c) (ConnectDestroyed c) (s\<lparr>connections := (connections s)(conn_name s c := None)\<rparr>))
         (destroy_conns D cs))"

definition destroy_TcpServer :: "nat list \<Rightarrow> server_obj \<Rightarrow> server_obj res" where
  "destroy_TcpServer cs ob =
     rbind (destroy_conns (so_shutting ob) cs (so_srv ob)) (\<lambda>s.
       Inr (ob\<lparr>so_srv := s, so_acceptor := destroy_Acceptor (so_acceptor ob), so_freed := True\<rparr>))"

text \<open>A loop runs its next functor; \<open>removeConnectionInLoop\<close> is a member of the server and needs it alive.\<close>

definition obj_run_next :: "nat \<Rightarrow> server_obj \<Rightarrow> server_obj res" where
  "obj_run_next l ob =
     (case queues (so_srv ob) l of
        RemoveConnectionInLoop c # _ \<Rightarrow>
          if so_freed ob then Inl UndefinedBehaviour
          else rbind (run_next l (so_srv ob)) (\<lambda>s. Inr (ob\<lparr>so_srv := s\<rparr>))
      | ConnectDestroyed c # _ \<Rightarrow>
          cpp_assert (removable (so_shutting ob) c (so_srv ob)) (rbind (run_next l (so_srv ob)) (\<lambda>s. Inr (ob\<lparr>so_srv := s\<rparr>)))
      | _ \<Rightarrow> rbind (run_next l (so_srv ob)) (\<lambda>s. Inr (ob\<lparr>so_srv := s\<rparr>)))"

section \<open>The unit manager\<close>

text \<open>
  The port of the configuration is cut to 16 bits; without one the kernel chooses it.
\<close>

definition tcp_work :: "inet_api \<Rightarrow> server_os \<Rightarrow> um_state \<Rightarrow> server_obj res" where
  "tcp_work api os um =
     (let listenport = (case read_int um ''config_tcp_server'' of None \<Rightarrow> 0 | Some p \<Rightarrow> p)
      in rbind (TcpServer_ctor api os (InetAddress_of_port (word_of_int listenport) False False) ''ZMQBridge'') (\<lambda>ob.
         rbind (TcpServer_setThreadNum 2 ob) (TcpServer_start os)))"

definition all_work :: "zmq_api \<Rightarrow> um_state rpc_action \<Rightarrow> inet_api \<Rightarrow> server_os \<Rightarrow> string list \<Rightarrow> um_state
    \<Rightarrow> (string list \<times> um_state pzmq \<times> um_state \<times> server_obj) res" where
  "all_work api lst inet os files um =
     (case read_string um ''config_zmq_s_format'' of
        None \<Rightarrow> Inl BadAnyCast
      | Some sf \<Rightarrow>
          (case read_string um ''config_zmq_c_format'' of
             None \<Rightarrow> Inl BadAnyCast
           | Some cf \<Rightarrow>
               rbind (remote_server_work api lst files (um\<lparr>zmq_s_format := sf, zmq_c_format := cf\<rparr>)) (\<lambda>(files', p, um1).
               rbind (tcp_work inet os um1) (\<lambda>ob. Inr (files', p, um1, ob)))))"

text \<open>The part of \<open>main\<close> before it waits: the configuration, then the service.\<close>

definition um_main :: "(string \<Rightarrow> int) \<Rightarrow> json option \<Rightarrow> zmq_api \<Rightarrow> um_state rpc_action \<Rightarrow> inet_api \<Rightarrow> server_os \<Rightarrow> string list
    \<Rightarrow> um_state \<Rightarrow> (string list \<times> um_state pzmq \<times> um_state \<times> server_obj) res" where
  "um_main trunc cfg api lst inet os files um = rbind (load_default_config trunc cfg um) (all_work api lst inet os files)"

section \<open>What the loops owe a destroyed server\<close>

fun conn_of :: "srv_functor \<Rightarrow> nat" where
  "conn_of (ConnectEstablished c) = c"
| "conn_of (RemoveConnectionInLoop c) = c"
| "conn_of (ConnectDestroyed c) = c"

text \<open>
  The functors that loop \<open>l\<close> has to hold for connection \<open>c\<close>, in their order, when the destructor has still to
  visit the connections \<open>todo\<close>.
\<close>

definition owed :: "nat set \<Rightarrow> TcpServer \<Rightarrow> nat \<Rightarrow> nat \<Rightarrow> srv_functor list" where
  "owed todo s l c =
     (if conn_loop s c \<noteq> l then []
      else case stage s c of
             Created \<Rightarrow> ConnectEstablished c # (if c \<in> todo then [] else [ConnectDestroyed c])
           | Established \<Rightarrow> (if c \<in> todo then [] else [ConnectDestroyed c])
           | Removed \<Rightarrow> [ConnectDestroyed c]
           | _ \<Rightarrow> [])"

definition closing_down :: "nat set \<Rightarrow> TcpServer \<Rightarrow> bool" where
  "closing_down todo s \<longleftrightarrow>
     (\<forall>c. stage s c \<noteq> Closing) \<and> (\<forall>c. conn_loop s c = 0 \<longrightarrow> stage s c \<noteq> Created) \<and>
     (\<forall>c. stage s c \<noteq> Absent \<longrightarrow> int c < nextConnId s) \<and>
     (\<forall>l c. filter (\<lambda>f. conn_of f = c) (queues s l) = owed todo s l c)"

lemma count_list_filter: "count_list (filter P xs) x = (if P x then count_list xs x else 0)"
  by (induction xs) auto

lemma filter_conn_none: "(\<And>g. conn_of g = c \<Longrightarrow> count_list xs g = 0) \<Longrightarrow> filter (\<lambda>f. conn_of f = c) xs = []"
  by (auto simp: filter_empty_conv count_list_0_iff)

lemma filter_conn_one:
  assumes "\<And>g. conn_of g = c \<Longrightarrow> count_list xs g = (if g = f then 1 else 0)" "conn_of f = c"
  shows "filter (\<lambda>f. conn_of f = c) xs = [f]"
proof -
  let ?ys = "filter (\<lambda>f. conn_of f = c) xs"
  have "g = f" if "g \<in> set ?ys" for g
  proof (rule ccontr)
    assume "g \<noteq> f"
    moreover have "conn_of g = c" "g \<in> set xs" using that by simp_all
    ultimately show False using assms(1) [of g] by (simp add: count_list_0_iff)
  qed
  then have ys: "?ys = replicate (length ?ys) f" by (intro replicate_eqI) simp_all
  have rep: "count_list (replicate n f) f = n" for n by (induction n) simp_all
  have "count_list ?ys f = 1" using assms by (simp add: count_list_filter)
  then have "length ?ys = 1" by (subst (asm) ys) (simp add: rep)
  with ys show ?thesis by simp
qed

text \<open>In the base loop a connection is established at once.\<close>

definition base_established :: "TcpServer \<Rightarrow> bool" where
  "base_established s \<longleftrightarrow> (\<forall>c. conn_loop s c = 0 \<longrightarrow> stage s c \<noteq> Created)"

lemma run_srv_functor_base:
  "base_established s \<Longrightarrow> run_srv_functor f s = Inr t \<Longrightarrow> base_established t"
  by (cases f) (auto simp: base_established_def run_srv_functor_def set_stage_def removeConnectionInLoop_def srv_queue_def cpp_assert_def
      split: if_splits)

lemma srv_step_base:
  assumes "srv_step s t" "base_established s"
  shows "base_established t"
  using assms(1)
proof cases
  case srv_accept
  then show ?thesis using assms(2)
    by (auto simp: newConnection_def srv_runInLoop_def run_srv_functor_def set_stage_def srv_queue_def base_established_def Let_def
        cpp_assert_def split: if_splits)
next
  case (srv_close c)
  have "base_established (set_stage c Closing s)" using assms(2) by (simp add: base_established_def set_stage_def)
  with srv_close show ?thesis using run_srv_functor_base [of "set_stage c Closing s"]
    by (auto simp: removeConnection_def srv_runInLoop_def split: if_splits) (auto simp: base_established_def srv_queue_def)
next
  case (srv_run l)
  have "base_established (s\<lparr>queues := q\<rparr>)" for q using assms(2) by (simp add: base_established_def)
  with srv_run assms(2) show ?thesis using run_srv_functor_base by (fastforce simp: run_next_def split: list.splits)
qed

lemma reachable_base: "reachable srv_init srv_step s \<Longrightarrow> base_established s"
proof (erule reachable_invariant)
  show "base_established s" if "srv_init s" for s
    using that by (auto simp: srv_init_def base_established_def new_TcpServer_def)
qed (rule srv_step_base)

lemma closing_down_start:
  assumes "reachable srv_init srv_step s" "\<And>c. stage s c \<noteq> Closing"
  shows "closing_down {c. srv_live s c} s"
proof -
  have inv: "table_ok s" "queues_ok s" using reachable_srv_inv [OF assms(1)] by (simp_all add: srv_inv_def)
  have q: "count_list (queues s l) g = (if srv_pending s l g then 1 else 0)" for l g
    using inv(2) by (simp add: queues_ok_def)
  have none: "filter (\<lambda>f. conn_of f = c) (queues s l) = []" if "\<And>g. conn_of g = c \<Longrightarrow> \<not> srv_pending s l g" for l c
    using that by (intro filter_conn_none) (simp add: q)
  have one: "filter (\<lambda>f. conn_of f = c) (queues s l) = [f]"
    if "\<And>g. conn_of g = c \<Longrightarrow> srv_pending s l g \<longleftrightarrow> g = f" "conn_of f = c" for l c f
    using that by (intro filter_conn_one) (simp_all add: q)
  have "filter (\<lambda>f. conn_of f = c) (queues s l) = owed {c. srv_live s c} s l c" for l c
  proof (cases "conn_loop s c = l")
    case False
    have "\<not> srv_pending s l g" if "conn_of g = c" for g using that False assms(2) by (cases g) auto
    then show ?thesis using none False by (simp add: owed_def)
  next
    case True
    have p: "srv_pending s l g \<longleftrightarrow> g = ConnectEstablished c \<and> stage s c = Created \<or> g = ConnectDestroyed c \<and> stage s c = Removed"
      if "conn_of g = c" for g using that True assms(2) by (cases g) auto
    show ?thesis
    proof (cases "stage s c")
      case Created
      then show ?thesis using one [of c l "ConnectEstablished c"] p True by (simp add: owed_def srv_live_def)
    next
      case Removed
      then show ?thesis using one [of c l "ConnectDestroyed c"] p True by (simp add: owed_def)
    qed (use none p True in \<open>auto simp: owed_def srv_live_def\<close>)
  qed
  moreover have "int c < nextConnId s" if "stage s c \<noteq> Absent" for c using inv(1) that by (simp add: table_ok_def)
  ultimately show ?thesis using assms(2) reachable_base [OF assms(1)] by (simp add: closing_down_def base_established_def)
qed

lemma owed_frame:
  "conn_loop t c = conn_loop s c \<Longrightarrow> stage t c = stage s c \<Longrightarrow> (c \<in> A \<longleftrightarrow> c \<in> B) \<Longrightarrow> owed A t l c = owed B s l c"
  by (simp add: owed_def)

lemma destroy_one:
  assumes "closing_down (insert c A) s" "c \<notin> A" "stage s c \<in> {Created, Established}"
  shows "\<exists>t. srv_runInLoop 0 (conn_loop s c) (ConnectDestroyed c) (s\<lparr>connections := m\<rparr>) = Inr t \<and> closing_down A t
    \<and> connections t = m \<and> conn_name t = conn_name s \<and> conn_loop t = conn_loop s \<and> (\<forall>d. d \<noteq> c \<longrightarrow> stage t d = stage s d)"
proof (cases "conn_loop s c = 0")
  case True
  let ?t = "set_stage c Destroyed (s\<lparr>connections := m\<rparr>)"
  have st: "stage s c = Established" using assms(1,3) True by (auto simp: closing_down_def)
  have "filter (\<lambda>f. conn_of f = d) (queues ?t l) = owed A ?t l d" for l d
  proof (cases "d = c")
    case True
    then show ?thesis using assms(1) st by (auto simp: closing_down_def owed_def set_stage_def)
  next
    case False
    then have "owed A ?t l d = owed (insert c A) s l d" by (intro owed_frame) (simp_all add: set_stage_def)
    then show ?thesis using assms(1) by (simp add: closing_down_def set_stage_def)
  qed
  moreover have "stage s c \<noteq> Absent" using st by simp
  ultimately have "closing_down A ?t" using assms(1) by (auto simp: closing_down_def set_stage_def)
  moreover have "srv_runInLoop 0 (conn_loop s c) (ConnectDestroyed c) (s\<lparr>connections := m\<rparr>) = Inr ?t"
    using True by (simp add: srv_runInLoop_def run_srv_functor_def)
  ultimately show ?thesis by (intro exI [of _ ?t]) (simp add: set_stage_def)
next
  case False
  let ?t = "srv_queue (conn_loop s c) (ConnectDestroyed c) (s\<lparr>connections := m\<rparr>)"
  have "filter (\<lambda>f. conn_of f = d) (queues ?t l) = owed A ?t l d" for l d
  proof (cases "d = c")
    case True
    have "filter (\<lambda>f. conn_of f = c) (queues s l) = owed (insert c A) s l c" using assms(1) by (simp add: closing_down_def)
    with True show ?thesis using assms(2,3) by (auto simp: owed_def srv_queue_def)
  next
    case False
    then have "owed A ?t l d = owed (insert c A) s l d" by (intro owed_frame) (simp_all add: srv_queue_def)
    then show ?thesis using assms(1) False by (auto simp: closing_down_def srv_queue_def)
  qed
  then have "closing_down A ?t" using assms(1) by (simp add: closing_down_def srv_queue_def)
  then show ?thesis using False by (intro exI [of _ ?t]) (simp add: srv_runInLoop_def srv_queue_def)
qed

lemma destroy_conns_ok:
  "closing_down (set cs) s \<Longrightarrow> distinct cs \<Longrightarrow> (\<And>c. c \<in> set cs \<Longrightarrow> stage s c \<in> {Created, Established}) \<Longrightarrow>
   \<exists>t. destroy_conns {} cs s = Inr t \<and> closing_down {} t
     \<and> connections t = (\<lambda>nm. if nm \<in> conn_name s ` set cs then None else connections s nm)"
proof (induction cs arbitrary: s)
  case Nil
  then show ?case by simp
next
  case (Cons c cs)
  let ?m = "(connections s)(conn_name s c := None)"
  obtain t where t: "srv_runInLoop 0 (conn_loop s c) (ConnectDestroyed c) (s\<lparr>connections := ?m\<rparr>) = Inr t" "closing_down (set cs) t"
      "connections t = ?m" "conn_name t = conn_name s" "\<forall>d. d \<noteq> c \<longrightarrow> stage t d = stage s d"
    using destroy_one [of c "set cs" s ?m] Cons.prems by auto
  have "stage t d \<in> {Created, Established}" if "d \<in> set cs" for d
    using Cons.prems(2,3) that t(5) by (cases "d = c") auto
  then obtain u where u: "destroy_conns {} cs t = Inr u" "closing_down {} u"
      "connections u = (\<lambda>nm. if nm \<in> conn_name t ` set cs then None else connections t nm)"
    using Cons.IH [OF t(2)] Cons.prems(2) by auto
  have "connections u = (\<lambda>nm. if nm \<in> conn_name s ` set (c # cs) then None else connections s nm)"
    unfolding u(3) t(3,4) by auto
  then show ?case using t(1) u(1,2) by (simp add: removable_def)
qed

section \<open>The loops finish the work\<close>

text \<open>What is left to do: two functors for a connection that is not established, one for others.\<close>

definition stage_work :: "conn_stage \<Rightarrow> nat" where
  "stage_work g = (case g of Created \<Rightarrow> 2 | Established \<Rightarrow> 1 | Removed \<Rightarrow> 1 | _ \<Rightarrow> 0)"

definition work_left :: "TcpServer \<Rightarrow> nat" where
  "work_left s = (\<Sum>c < nat (nextConnId s). stage_work (stage s c))"

lemma work_left_less:
  assumes "int c < nextConnId s" "stage_work g < stage_work (stage s c)"
  shows "work_left (set_stage c g (s\<lparr>queues := q\<rparr>)) < work_left s"
proof -
  have "c < nat (nextConnId s)" using assms(1) by linarith
  then show ?thesis unfolding work_left_def using assms(2)
    by (auto simp: set_stage_def intro!: sum_strict_mono_ex1)
qed

lemma set_stage_closing_down:
  assumes "closing_down {} s" "queues s l = f # fs" "conn_loop s (conn_of f) = l" "int (conn_of f) < nextConnId s"
    and g: "g \<noteq> Closing" "g \<noteq> Created"
      "owed {} (set_stage (conn_of f) g (s\<lparr>queues := (queues s)(l := fs)\<rparr>)) l (conn_of f) = filter (\<lambda>h. conn_of h = conn_of f) fs"
  shows "closing_down {} (set_stage (conn_of f) g (s\<lparr>queues := (queues s)(l := fs)\<rparr>))" (is "closing_down {} ?t")
proof -
  let ?c = "conn_of f"
  have q: "filter (\<lambda>h. conn_of h = d) (queues s m) = owed {} s m d" for m d using assms(1) by (simp add: closing_down_def)
  have "filter (\<lambda>h. conn_of h = d) (queues ?t m) = owed {} ?t m d" for m d
  proof (cases "d = ?c")
    case True
    show ?thesis
    proof (cases "m = l")
      case False
      then have "owed {} s m ?c = []" "owed {} ?t m ?c = []" using assms(3) by (simp_all add: owed_def set_stage_def)
      then show ?thesis using q [of ?c m] True False by (simp add: set_stage_def)
    qed (use True g(3) in \<open>simp add: set_stage_def\<close>)
  next
    case False
    then have "owed {} ?t m d = owed {} s m d" by (intro owed_frame) (simp_all add: set_stage_def)
    then show ?thesis using q [of d m] assms(2) False by (auto simp: set_stage_def)
  qed
  then show ?thesis using assms(1,4) g(1,2) by (auto simp: closing_down_def set_stage_def)
qed

lemma closing_down_run:
  assumes "closing_down {} s" "queues s l = f # fs"
  shows "\<exists>t. run_srv_functor f (s\<lparr>queues := (queues s)(l := fs)\<rparr>) = Inr t \<and> closing_down {} t \<and> work_left t < work_left s"
    "\<nexists>c. f = RemoveConnectionInLoop c"
proof -
  let ?c = "conn_of f" and ?s = "s\<lparr>queues := (queues s)(l := fs)\<rparr>"
  have q: "filter (\<lambda>g. conn_of g = d) (queues s m) = owed {} s m d" for m d using assms(1) by (simp add: closing_down_def)
  have here: "f # filter (\<lambda>g. conn_of g = ?c) fs = owed {} s l ?c" using q [of ?c l] assms(2) by simp
  then have cl: "conn_loop s ?c = l" by (simp add: owed_def split: if_splits)
  have cases_f: "f = ConnectEstablished ?c \<and> stage s ?c = Created \<and> filter (\<lambda>g. conn_of g = ?c) fs = [ConnectDestroyed ?c]
      \<or> f = ConnectDestroyed ?c \<and> stage s ?c \<in> {Established, Removed} \<and> filter (\<lambda>g. conn_of g = ?c) fs = []"
    using here cl by (auto simp: owed_def split: conn_stage.splits if_splits)
  then show "\<nexists>c. f = RemoveConnectionInLoop c" by auto
  have idc: "int ?c < nextConnId s" using assms(1) cases_f unfolding closing_down_def by (metis conn_stage.distinct empty_iff insert_iff)
  note keep = set_stage_closing_down [OF assms cl idc]
  from cases_f show "\<exists>t. run_srv_functor f ?s = Inr t \<and> closing_down {} t \<and> work_left t < work_left s"
  proof
    assume f: "f = ConnectEstablished ?c \<and> stage s ?c = Created \<and> filter (\<lambda>g. conn_of g = ?c) fs = [ConnectDestroyed ?c]"
    then have "closing_down {} (set_stage ?c Established ?s)" using cl by (intro keep) (simp_all add: owed_def set_stage_def)
    moreover have "work_left (set_stage ?c Established ?s) < work_left s"
      using f idc by (intro work_left_less) (simp_all add: stage_work_def)
    moreover have "run_srv_functor f ?s = Inr (set_stage ?c Established ?s)"
      using f by (cases f) (simp_all add: run_srv_functor_def)
    ultimately show ?thesis by blast
  next
    assume f: "f = ConnectDestroyed ?c \<and> stage s ?c \<in> {Established, Removed} \<and> filter (\<lambda>g. conn_of g = ?c) fs = []"
    then have "closing_down {} (set_stage ?c Destroyed ?s)" by (intro keep) (simp_all add: owed_def set_stage_def)
    moreover have "work_left (set_stage ?c Destroyed ?s) < work_left s"
      using f idc by (intro work_left_less) (auto simp: stage_work_def)
    moreover have "run_srv_functor f ?s = Inr (set_stage ?c Destroyed ?s)"
      using f by (cases f) (simp_all add: run_srv_functor_def)
    ultimately show ?thesis by blast
  qed
qed

inductive life_step :: "server_obj \<Rightarrow> server_obj \<Rightarrow> bool" where
  life_step: "queues (so_srv ob) l \<noteq> [] \<Longrightarrow> obj_run_next l ob = Inr ob' \<Longrightarrow> life_step ob ob'"

lemma obj_run_next_closing_down:
  assumes "closing_down {} (so_srv ob)" "so_shutting ob = {}" "queues (so_srv ob) l \<noteq> []"
  shows "\<exists>ob'. obj_run_next l ob = Inr ob' \<and> closing_down {} (so_srv ob') \<and> so_shutting ob' = {} \<and> work_left (so_srv ob') < work_left (so_srv ob)"
proof -
  obtain f fs where q: "queues (so_srv ob) l = f # fs" using assms(3) by (cases "queues (so_srv ob) l") auto
  note run = closing_down_run [OF assms(1) q]
  obtain t where t: "run_next l (so_srv ob) = Inr t" "closing_down {} t" "work_left t < work_left (so_srv ob)"
    using run(1) q by (auto simp: run_next_def)
  have "obj_run_next l ob = Inr (ob\<lparr>so_srv := t\<rparr>)"
    using run(2) q t(1) assms(2) by (cases f) (simp_all add: obj_run_next_def removable_def)
  with t assms(2) show ?thesis by simp
qed

lemma life_step_closing_down:
  "life_step ob ob' \<Longrightarrow> closing_down {} (so_srv ob) \<and> so_shutting ob = {} \<Longrightarrow> closing_down {} (so_srv ob') \<and> so_shutting ob' = {}"
  by (erule life_step.cases) (use obj_run_next_closing_down in fastforce)

lemma life_steps_closing_down:
  "life_step\<^sup>*\<^sup>* ob ob' \<Longrightarrow> closing_down {} (so_srv ob) \<and> so_shutting ob = {} \<Longrightarrow> closing_down {} (so_srv ob') \<and> so_shutting ob' = {}"
proof (induction rule: rtranclp_induct)
  case (step y z)
  then show ?case using life_step_closing_down [of y z] by blast
qed simp

lemma closing_down_idle:
  assumes "closing_down {} s" "\<And>l. queues s l = []"
  shows "stage s c \<in> {Absent, Destroyed}"
proof -
  have "filter (\<lambda>f. conn_of f = c) (queues s (conn_loop s c)) = owed {} s (conn_loop s c) c" "stage s c \<noteq> Closing"
    using assms(1) by (simp_all add: closing_down_def)
  then show ?thesis using assms(2) by (cases "stage s c") (simp_all add: owed_def)
qed

lemma closing_down_completes:
  "closing_down {} (so_srv ob) \<Longrightarrow> so_shutting ob = {} \<Longrightarrow>
   \<exists>ob'. life_step\<^sup>*\<^sup>* ob ob' \<and> (\<forall>l. queues (so_srv ob') l = []) \<and> (\<forall>c. stage (so_srv ob') c \<in> {Absent, Destroyed})"
proof (induction "work_left (so_srv ob)" arbitrary: ob rule: less_induct)
  case less
  show ?case
  proof (cases "\<forall>l. queues (so_srv ob) l = []")
    case True
    then have "stage (so_srv ob) c \<in> {Absent, Destroyed}" for c by (intro closing_down_idle [OF less.prems(1)]) simp
    with True show ?thesis by blast
  next
    case False
    then obtain l where l: "queues (so_srv ob) l \<noteq> []" by blast
    obtain ob1 where ob1: "obj_run_next l ob = Inr ob1" "closing_down {} (so_srv ob1)" "so_shutting ob1 = {}" "work_left (so_srv ob1) < work_left (so_srv ob)"
      using obj_run_next_closing_down [OF less.prems l] by blast
    from less.hyps [OF ob1(4,2,3)] life_step [OF l ob1(1)] show ?thesis by (meson converse_rtranclp_into_rtranclp)
  qed
qed

lemma destruction_closes_down:
  assumes "reachable srv_init srv_step (so_srv ob)" "\<And>c. stage (so_srv ob) c \<noteq> Closing" "so_shutting ob = {}"
    and "distinct cs" "set cs = {c. srv_live (so_srv ob) c}"
  shows "\<exists>ob1. destroy_TcpServer cs ob = Inr ob1 \<and> connections (so_srv ob1) = Map.empty \<and> so_freed ob1 \<and>
    closing_down {} (so_srv ob1) \<and> so_shutting ob1 = {}"
proof -
  let ?s = "so_srv ob"
  have "closing_down (set cs) ?s" using closing_down_start [OF assms(1,2)] assms(5) by simp
  moreover have "stage ?s c \<in> {Created, Established}" if "c \<in> set cs" for c
    using that assms(2,5) by (auto simp: srv_live_def)
  ultimately obtain t where t: "destroy_conns {} cs ?s = Inr t" "closing_down {} t"
      "connections t = (\<lambda>nm. if nm \<in> conn_name ?s ` set cs then None else connections ?s nm)"
    using destroy_conns_ok assms(4) by blast
  have "table_ok ?s" using reachable_srv_inv [OF assms(1)] by (simp add: srv_inv_def)
  then have "nm \<in> conn_name ?s ` set cs" if "connections ?s nm = Some c" for nm c
    using that assms(5) by (auto simp: table_ok_def)
  then have "connections t = Map.empty" unfolding t(3) by (auto simp: fun_eq_iff) (metis not_None_eq)
  then show ?thesis using t(1,2) assms(3) by (simp add: destroy_TcpServer_def)
qed

section \<open>Properties\<close>


text \<open>A server with two loops that has just accepted a connection, which its loop has not yet established.\<close>

definition two_loops :: TcpServer where
  "two_loops = (new_TcpServer ''ZMQBridge'' ''0.0.0.0:10001'')\<lparr>threadPool :=
     \<lparr>etp_started = True, numThreads = 2, next_loop = 0, loops = [1, 2]\<rparr>\<rparr>"

definition accepted_one :: TcpServer where
  "accepted_one = projr (newConnection two_loops)"

lemma accepted_one:
  "newConnection two_loops = Inr accepted_one" "stage accepted_one = (\<lambda>_. Absent)(1 := Created)"
  "queues accepted_one = (\<lambda>_. [])(1 := [ConnectEstablished 1])" "conn_loop accepted_one = (\<lambda>_. 0)(1 := 1)"
  by (simp_all add: accepted_one_def newConnection_def two_loops_def new_TcpServer_def getNextLoop_def srv_runInLoop_def srv_queue_def
      int_max_def Let_def cpp_assert_def)

lemma accepted_one_reachable: "reachable srv_init srv_step accepted_one"
proof -
  have "srv_init two_loops" unfolding srv_init_def two_loops_def by (intro exI conjI) (auto simp: etp_ok_def)
  then show ?thesis using srv_accept [OF accepted_one(1)] by (blast intro: reachable_init reachable_step)
qed

definition owner_of :: "TcpServer \<Rightarrow> server_obj" where
  "owner_of s = \<lparr>so_srv = s, so_acceptor = \<lparr>listening = True, reading = True, idleFd = 5, has_callback = True, acceptor_calls = []\<rparr>,
     so_shutting = {}, so_freed = False\<rparr>"


text \<open>
  A connection that closed in its own loop has asked the base loop to remove it; when the server is
  destroyed before the base loop gets to it, the functor runs on the freed server.
\<close>

lemma destroy_conns_appends: "\<exists>t ds. destroy_conns {} cs s = Inr t \<and> queues t l = queues s l @ ds"
proof (induction cs arbitrary: s)
  case (Cons c cs)
  let ?s = "s\<lparr>connections := (connections s)(conn_name s c := None)\<rparr>"
  have "\<exists>t ds. srv_runInLoop 0 (conn_loop s c) (ConnectDestroyed c) ?s = Inr t \<and> queues t l = queues s l @ ds"
    by (cases "conn_loop s c = 0") (simp_all add: srv_runInLoop_def run_srv_functor_def set_stage_def srv_queue_def)
  then obtain t ds where "srv_runInLoop 0 (conn_loop s c) (ConnectDestroyed c) ?s = Inr t" "queues t l = queues s l @ ds" by blast
  with Cons.IH [of t] show ?case by (auto simp: removable_def)
qed simp

theorem destroyed_server_used:
  assumes "queues (so_srv ob) 0 = RemoveConnectionInLoop c # fs" "so_shutting ob = {}"
  shows "\<exists>ob1. destroy_TcpServer cs ob = Inr ob1 \<and> obj_run_next 0 ob1 = Inl UndefinedBehaviour"
proof -
  obtain t ds where "destroy_conns {} cs (so_srv ob) = Inr t" "queues t 0 = queues (so_srv ob) 0 @ ds"
    using destroy_conns_appends by blast
  then show ?thesis using assms by (simp add: destroy_TcpServer_def obj_run_next_def)
qed

text \<open>A connection that is shutting down when the server is destroyed fails an assertion in its loop.\<close>

theorem destroying_shutting_connection_asserts:
  assumes "stage (so_srv ob) c = Established" "c \<in> so_shutting ob" "queues (so_srv ob) (conn_loop (so_srv ob) c) = []"
    and "conn_loop (so_srv ob) c \<noteq> 0"
  shows "\<exists>ob1. destroy_TcpServer [c] ob = Inr ob1 \<and> obj_run_next (conn_loop (so_srv ob) c) ob1 = Inl AssertFailed"
  using assms by (simp add: destroy_TcpServer_def srv_runInLoop_def srv_queue_def obj_run_next_def removable_def cpp_assert_def)

text \<open>Unlike its comment says, starting a server twice is not harmless.\<close>

theorem second_start_asserts:
  "TcpServer_start os ob = Inr ob1 \<Longrightarrow> TcpServer_start os' ob1 = Inl AssertFailed"
  by (auto simp: TcpServer_start_def etp_start_def cpp_assert_def split: sum.splits if_splits)

section \<open>The unit manager starts\<close>

definition os_answers :: "server_os \<Rightarrow> bool" where
  "os_answers os \<longleftrightarrow> os_socket os \<and> 0 \<le> os_null_fd os \<and> os_bind os \<and> os_listen os"

lemma address_text:
  assumes "inet_texts_fit api"
  shows "InetAddress_toIpPort api (InetAddress_of_port p False False) =
    Inr (inet_ntop4 api (hostToNetwork32 kInaddrAny) @ '':'' @ to_string (int (unat p)))"
    "length (inet_ntop4 api (hostToNetwork32 kInaddrAny) @ '':'' @ to_string (int (unat p))) \<le> 51"
proof -
  have fit: "length (inet_ntop4 api (hostToNetwork32 kInaddrAny)) < 16" using assms by (simp add: inet_texts_fit_def)
  show "length (inet_ntop4 api (hostToNetwork32 kInaddrAny) @ '':'' @ to_string (int (unat p))) \<le> 51"
    using fit port_text_short [of p] by simp
  show "InetAddress_toIpPort api (InetAddress_of_port p False False) =
    Inr (inet_ntop4 api (hostToNetwork32 kInaddrAny) @ '':'' @ to_string (int (unat p)))"
    using fit port_text_short [of p]
    by (simp add: InetAddress_toIpPort_def toIpPort_def toIp_def ntop_into_def snprintf_into_def InetAddress_of_port_def
        InetAddress_port_def portNetEndian_def)
qed

lemma tcp_work_starts:
  assumes "inet_texts_fit inet" "os_answers os" "read_int um ''config_tcp_server'' = Some port"
  shows "\<exists>ob. tcp_work inet os um = Inr ob \<and> srv_init (so_srv ob) \<and> loops (threadPool (so_srv ob)) = [1, 2] \<and>
    listening (so_acceptor ob) \<and> has_callback (so_acceptor ob) \<and>
    ipPort (so_srv ob) = inet_ntop4 inet (hostToNetwork32 kInaddrAny) @ '':'' @ to_string (port mod 65536)"
proof -
  let ?p = "word_of_int port :: 16 word"
  let ?ip = "inet_ntop4 inet (hostToNetwork32 kInaddrAny) @ '':'' @ to_string (int (unat ?p))"
  let ?pool = "\<lparr>etp_started = True, numThreads = 2, next_loop = 0, loops = [1, 2]\<rparr>"
  let ?s = "(new_TcpServer ''ZMQBridge'' ?ip)\<lparr>threadPool := ?pool\<rparr>"
  have port: "int (unat ?p) = port mod 65536" by (simp add: uint_word_of_int)
  have "etp_ok ?pool" by (simp add: etp_ok_def)
  then have init: "srv_init ?s" unfolding srv_init_def using address_text(2) [OF assms(1), of ?p] by blast
  have loops12: "[Suc 0 ..< 3] = [1, 2]" by (simp add: upt_rec)
  obtain ob where ob: "tcp_work inet os um = Inr ob" "so_srv ob = ?s" "listening (so_acceptor ob)" "has_callback (so_acceptor ob)"
    using assms(2,3) address_text(1) [OF assms(1), of ?p]
    by (simp add: tcp_work_def TcpServer_ctor_def new_Acceptor_def createNonblockingOrDie_def bindOrDie_def TcpServer_setThreadNum_def
        setThreadNum_def TcpServer_start_def etp_start_def Acceptor_listen_def os_answers_def new_TcpServer_def
        new_EventLoopThreadPool_def loops12 cpp_assert_def)
  then show ?thesis using init port by (intro exI [of _ ob]) (simp add: new_TcpServer_def)
qed

lemma register_rpc_action_total: "\<exists>r. register_rpc_action api lst a f files p = Inr r"
  by (cases "api_bind api (rpc_url_head p @ rpc_server p) files") (simp add: register_rpc_action_def creat_def Let_def)

lemma register_all_total: "\<exists>files' p. register_all api lst as fp = Inr (files', p)"
proof (induction as arbitrary: fp)
  case Nil
  then show ?case by (cases fp) simp
next
  case (Cons af as)
  obtain a f where af: "af = (a, f)" by (cases af)
  obtain ret files' p' where "register_rpc_action api lst a f (fst fp) (snd fp) = Inr (ret, files', p')"
    using register_rpc_action_total [of api lst a f "fst fp" "snd fp"] by (metis prod_cases3)
  then show ?case using Cons.IH [of "(files', p')"] af by simp
qed

lemma remote_server_work_starts:
  assumes "read_int um ''config_zmq_min_port'' = Some lo" "read_int um ''config_zmq_max_port'' = Some hi" "0 < lo" "lo \<le> hi" "hi \<le> int_max"
  shows "\<exists>files' p um1. remote_server_work api lst files um = Inr (files', p, um1) \<and> key_sql um1 = key_sql um
    \<and> zmq_s_format um1 = zmq_s_format um"
proof -
  obtain files' p where "register_all api lst um_actions (files, new_pzmq_rpc ''sys'') = Inr (files', p)"
    using register_all_total by blast
  then show ?thesis using assms by (simp add: remote_server_work_def Let_def del: register_all.simps)
qed

text \<open>
  Claim C23. With a configuration that names the TCP port, the range of unit ports and the two address
  formats, and a system that grants the sockets, the unit manager comes up: the RPC service offers its
  actions and the invariant of the unit table holds (so that it serves every request as proved for the
  started service), and the TCP server listens on the configured port (cut to 16 bits) with two loops,
  in an initial state of the server's step relation.
\<close>

theorem unit_manager_starts:
  assumes "load_default_config trunc cfg um0 = Inr um" "inet_texts_fit inet" "os_answers os"
    and "read_string um ''config_zmq_s_format'' = Some sf" "read_string um ''config_zmq_c_format'' = Some cf"
    and "um_fresh (um\<lparr>zmq_s_format := sf, zmq_c_format := cf\<rparr>)"
    and "read_int um ''config_tcp_server'' = Some port"
    and "read_int um ''config_zmq_min_port'' = Some lo" "read_int um ''config_zmq_max_port'' = Some hi" "lo \<le> hi"
  shows "\<exists>files' p um1 ob. um_main trunc cfg api lst inet os files um0 = Inr (files', p, um1, ob)
    \<and> um_inv um1 \<and> zmq_fun p = (''list_action'', lst) # um_actions \<and> zmq_s_format um1 = sf
    \<and> reachable srv_init srv_step (so_srv ob) \<and> loops (threadPool (so_srv ob)) = [1, 2]
    \<and> listening (so_acceptor ob) \<and> has_callback (so_acceptor ob)
    \<and> ipPort (so_srv ob) = inet_ntop4 inet (hostToNetwork32 kInaddrAny) @ '':'' @ to_string (port mod 65536)"
proof -
  let ?um = "um\<lparr>zmq_s_format := sf, zmq_c_format := cf\<rparr>"
  have reads: "read_int ?um = read_int um" by (simp add: read_int_def fun_eq_iff)
  have range: "0 < lo" "hi \<le> int_max" using assms(6,8,9) by (simp_all add: um_fresh_def reads)
  obtain files' p um1 where start: "remote_server_work api lst files ?um = Inr (files', p, um1)" "key_sql um1 = key_sql um" "zmq_s_format um1 = sf"
    using remote_server_work_starts [of ?um lo hi api lst files] assms(8-10) range unfolding reads by auto
  have "read_int um1 ''config_tcp_server'' = Some port" using start(2) assms(7) by (simp add: read_int_def)
  then obtain ob where ob: "tcp_work inet os um1 = Inr ob" "srv_init (so_srv ob)" "loops (threadPool (so_srv ob)) = [1, 2]"
      "listening (so_acceptor ob)" "has_callback (so_acceptor ob)"
      "ipPort (so_srv ob) = inet_ntop4 inet (hostToNetwork32 kInaddrAny) @ '':'' @ to_string (port mod 65536)"
    using tcp_work_starts [OF assms(2,3)] by blast
  have "um_main trunc cfg api lst inet os files um0 = Inr (files', p, um1, ob)"
    using assms(1,4,5) start(1) ob(1) by (simp add: um_main_def all_work_def)
  then show ?thesis using started_inv [OF start(1) assms(6)] start(3) ob(2-6)
    by (intro exI [of _ files'] exI [of _ p] exI [of _ um1] exI [of _ ob] conjI) (simp_all add: reachable_init)
qed

text \<open>The configuration file of the repository, and the state of the globals before \<open>main\<close>.\<close>

definition master_config :: json where
  "master_config = JObject [(''config_tcp_server'', JInt 10001), (''config_zmq_min_port'', JInt 5010), (''config_zmq_max_port'', JInt 5555),
     (''config_zmq_s_format'', JString ''ipc:///tmp/llm/%i.sock''), (''config_zmq_c_format'', JString ''ipc:///tmp/llm/%i.sock'')]"

definition um_globals :: um_state where
  "um_globals = \<lparr>key_sql = (\<lambda>_. None), units = (\<lambda>_. None), next_unit = 0, work_id_number_counter = 0, port_list_start = 0,
     port_list = [], zmq_s_format = [], zmq_c_format = [], published = [], pushed = []\<rparr>"

definition sample_inet :: inet_api where
  "sample_inet = \<lparr>inet_pton4 = (\<lambda>_. None), inet_pton6 = (\<lambda>_. None), inet_ntop4 = (\<lambda>_. ''0.0.0.0''), inet_ntop6 = (\<lambda>_. ''::'')\<rparr>"

definition sample_os :: server_os where
  "sample_os = \<lparr>os_socket = True, os_null_fd = 3, os_bind = True, os_listen = True\<rparr>"

theorem unit_manager_starts_witness:
  "\<exists>files' p um1 ob. um_main (\<lambda>_. 0) (Some master_config) sample_api (\<lambda>d um. (Inr [], um)) sample_inet sample_os [] um_globals
      = Inr (files', p, um1, ob) \<and> um_inv um1 \<and> ipPort (so_srv ob) = ''0.0.0.0:10001''"
proof -
  let ?um = "fold (load_entry (\<lambda>_. 0)) (case master_config of JObject kvs \<Rightarrow> kvs | _ \<Rightarrow> []) um_globals"
  have cfg: "load_default_config (\<lambda>_. 0) (Some master_config) um_globals = Inr ?um" by (simp add: master_config_def)
  have keys: "key_sql ?um = [''config_tcp_server'' \<mapsto> AInt 10001, ''config_zmq_min_port'' \<mapsto> AInt 5010, ''config_zmq_max_port'' \<mapsto> AInt 5555,
      ''config_zmq_s_format'' \<mapsto> AString ''ipc:///tmp/llm/%i.sock'', ''config_zmq_c_format'' \<mapsto> AString ''ipc:///tmp/llm/%i.sock'']"
    by (simp add: master_config_def um_globals_def SAFE_SETTING_def to_int32_def)
  have rest: "units ?um = (\<lambda>_. None)" "port_list ?um = []"
    by (simp_all add: master_config_def um_globals_def SAFE_SETTING_def)
  have reads: "read_int ?um ''config_tcp_server'' = Some 10001" "read_int ?um ''config_zmq_min_port'' = Some 5010"
    "read_int ?um ''config_zmq_max_port'' = Some 5555" "read_string ?um ''config_zmq_s_format'' = Some ''ipc:///tmp/llm/%i.sock''"
    "read_string ?um ''config_zmq_c_format'' = Some ''ipc:///tmp/llm/%i.sock''"
    by (simp_all add: read_int_def read_string_def keys)
  have fresh: "um_fresh (?um\<lparr>zmq_s_format := ''ipc:///tmp/llm/%i.sock'', zmq_c_format := ''ipc:///tmp/llm/%i.sock''\<rparr>)"
    using sample_fmt by (simp add: um_fresh_def read_int_def keys rest int_max_def)
  have env: "inet_texts_fit sample_inet" "os_answers sample_os"
    by (simp_all add: inet_texts_fit_def sample_inet_def os_answers_def sample_os_def)
  have "to_string (10001 mod 65536) = ''10001''" by (simp add: print_number)
  then show ?thesis
    using unit_manager_starts [OF cfg env reads(4,5) fresh reads(1-3), of sample_api "\<lambda>d um. (Inr [], um)" "[]"]
    by (auto simp: sample_inet_def)
qed

text \<open>Without its file the configuration is silently left empty, and the start ends in an exception nobody catches.\<close>

theorem missing_config_aborts:
  "um_main trunc None api lst inet os files um_globals = Inl BadAnyCast"
  by (simp add: um_main_def all_work_def um_globals_def read_string_def)

end
