(* ===== verification/Http_Process.thy ===== *)
theory Http_Process
  imports Http_Main Server_Life
begin

text \<open>
  The HTTP server process as a whole: \<open>main\<close> of \<open>serving/http/http_main.cc\<close> through to the listening server
  (the constructors of \<open>HttpGateway\<close> and \<open>NetworkHttpServer\<close> and \<open>Start\<close>), and the thread the gateway's
  constructor detaches, which calls \<open>gc\<close> on the session manager once a minute beside the calls of the handlers.
  Every call on the manager holds its mutex, so that a history is a sequence of calls.
\<close>

section \<open>Construction\<close>

definition gateway_options :: Options where
  "gateway_options = \<lparr>idle_ttl = 30 * 60, max_sessions = 1024, gc_batch = 64\<rparr>"

text \<open>The number of pool threads, the session manager and the counters of a new gateway.\<close>

definition new_HttpGateway :: "environ \<Rightarrow> nat \<times> 't SessionManager \<times> Counters" where
  "new_HttpGateway e = (get_worker_threads e, new_SessionManager gateway_options, new_Counters)"

definition new_NetworkHttpServer :: "inet_api \<Rightarrow> server_os \<Rightarrow> InetAddress \<Rightarrow> server_obj res" where
  "new_NetworkHttpServer inet os listen_addr = TcpServer_ctor inet os listen_addr ''HttpServer''"

definition NetworkHttpServer_Start :: "server_os \<Rightarrow> server_obj \<Rightarrow> server_obj res" where
  "NetworkHttpServer_Start os ob = TcpServer_start os ob"

record 't http_process =
  hp_env :: environ
  hp_engines :: "string \<rightharpoonup> Engine"
  hp_threads :: nat
  hp_sessions :: "'t SessionManager"
  hp_counters :: Counters
  hp_server :: server_obj

definition http_main :: "(string \<Rightarrow> string option) \<Rightarrow> (string \<Rightarrow> json option) \<Rightarrow> (string \<Rightarrow> bool) \<Rightarrow> inet_api \<Rightarrow> server_os
    \<Rightarrow> environ \<Rightarrow> string list \<Rightarrow> 't http_process res" where
  "http_main files parse model_loads inet os e args =
     rbind (main_start files parse model_loads e args) (\<lambda>(e1, port, engines).
       case new_HttpGateway e1 of
         (threads, sessions, cnt) \<Rightarrow>
           rbind (new_NetworkHttpServer inet os (InetAddress_of_port (word_of_nat port) False False)) (\<lambda>ob.
           rbind (NetworkHttpServer_Start os ob) (\<lambda>ob'.
             Inr \<lparr>hp_env = e1, hp_engines = engines, hp_threads = threads, hp_sessions = sessions, hp_counters = cnt,
                  hp_server = ob'\<rparr>)))"

section \<open>The handlers and the collecting thread\<close>

datatype session_event = Handler sm_op | Collect int

fun serve_sessions :: "session_event list \<Rightarrow> 't SessionManager \<Rightarrow> 't SessionManager res option" where
  "serve_sessions [] m = Some (Inr m)"
| "serve_sessions (Handler op # evs) m =
     (case sm_apply op m of
        None \<Rightarrow> None
      | Some (Inl err) \<Rightarrow> Some (Inl err)
      | Some (Inr m') \<Rightarrow> serve_sessions evs m')"
| "serve_sessions (Collect now # evs) m =
     (case gc now m of Inl err \<Rightarrow> Some (Inl err) | Inr (_, m') \<Rightarrow> serve_sessions evs m')"

text \<open>The calls of the handlers alone, and whether a round of the thread finds an expired session at the back.\<close>

fun handler_ops :: "session_event list \<Rightarrow> sm_op list" where
  "handler_ops [] = []"
| "handler_ops (Handler op # evs) = op # handler_ops evs"
| "handler_ops (Collect now # evs) = handler_ops evs"

definition tail_expired :: "int \<Rightarrow> 't SessionManager \<Rightarrow> bool" where
  "tail_expired now m =
     (gc_batch (opt m) > 0 \<and> (case tail_session m of None \<Rightarrow> False | Some s \<Rightarrow> expired now m s))"

fun meets_expired :: "session_event list \<Rightarrow> 't SessionManager \<Rightarrow> bool" where
  "meets_expired [] m = False"
| "meets_expired (Handler op # evs) m =
     (case sm_apply op m of Some (Inr m') \<Rightarrow> meets_expired evs m' | _ \<Rightarrow> False)"
| "meets_expired (Collect now # evs) m = (tail_expired now m \<or> meets_expired evs m)"

section \<open>Properties\<close>

lemma gc_value: "sm_ok m \<Longrightarrow> gc now m = (if tail_expired now m then Inl UndefinedBehaviour else Inr (0, m))"
  by (simp add: gc_cases tail_expired_def split: option.split)

lemma sm_apply_total: "sm_ok m \<Longrightarrow> \<exists>m'. sm_apply op m = Some (Inr m') \<and> sm_ok m'"
  using sessions.ap_refines [of m op] by blast

text \<open>
  Claim C12. The collecting thread never collects: whatever the handlers call and whenever the thread runs, either
  one of its rounds meets a session at the back of the list that is idle for more than half an hour, and the process
  is undefined from then on, or the session manager ends exactly as if the thread did not exist, with at most its
  limit of sessions.
\<close>

theorem gc_thread_never_collects:
  assumes "sm_ok m" "length (lru_ids m) \<le> max_sessions (opt m)"
  shows "serve_sessions evs m =
      (if meets_expired evs m then Some (Inl UndefinedBehaviour) else run_ops sm_apply (handler_ops evs) m)
    \<and> (\<exists>m'. run_ops sm_apply (handler_ops evs) m = Some (Inr m') \<and> sm_ok m' \<and> length (lru_ids m') \<le> max_sessions (opt m))"
proof
  show "\<exists>m'. run_ops sm_apply (handler_ops evs) m = Some (Inr m') \<and> sm_ok m' \<and> length (lru_ids m') \<le> max_sessions (opt m)"
    using sessions.run_bounded [OF assms] by blast
  show "serve_sessions evs m =
      (if meets_expired evs m then Some (Inl UndefinedBehaviour) else run_ops sm_apply (handler_ops evs) m)"
    using assms(1)
  proof (induction evs arbitrary: m)
    case (Cons ev evs)
    show ?case
    proof (cases ev)
      case (Handler op)
      obtain m' where "sm_apply op m = Some (Inr m')" "sm_ok m'" using sm_apply_total [OF Cons.prems] by blast
      then show ?thesis using Handler Cons.IH by simp
    next
      case (Collect now)
      then show ?thesis using Cons.IH [OF Cons.prems] gc_value [OF Cons.prems, of now] by simp
    qed
  qed simp
qed

lemma unit_session_ok: "sm_ok (new_SessionManager gateway_options :: unit SessionManager)"
  by (rule new_SessionManager_ok)

theorem gc_thread_never_collects_witness:
  "\<exists>m'. serve_sessions [Handler (OpGetOrCreate ''s'' ''llama'' (0, 0))] (new_SessionManager gateway_options :: unit SessionManager) = Some (Inr m')
     \<and> sm_ok m' \<and> length (lru_ids m') \<le> 1024"
proof -
  have *: "length (lru_ids (new_SessionManager gateway_options :: unit SessionManager)) \<le> max_sessions (opt (new_SessionManager gateway_options :: unit SessionManager))"
    by (simp add: new_SessionManager_def lru_ids_def)
  have "max_sessions (opt (new_SessionManager gateway_options :: unit SessionManager)) = 1024"
    by (simp add: new_SessionManager_def gateway_options_def)
  moreover have "\<not> meets_expired [Handler (OpGetOrCreate ''s'' ''llama'' (0, 0))] (new_SessionManager gateway_options :: unit SessionManager)"
    by (simp split: option.split sum.split)
  ultimately show ?thesis
    using gc_thread_never_collects [OF unit_session_ok *, of "[Handler (OpGetOrCreate ''s'' ''llama'' (0, 0))]"]
    by (metis (no_types, lifting))
qed

text \<open>
  Claim C13. The HTTP process comes up: with a readable configuration that names a port and a number of worker
  threads, a model that loads and a system that grants the sockets, \<open>main\<close> listens on that port in an initial state of
  the server's step relation with the base loop alone, the pool has the configured number of threads, the llama engine is
  in the cache, and the session manager is empty with the limits of the gateway.
\<close>

theorem http_process_starts:
  assumes "files (config_path e) = Some text" "parse text = Some cfg"
    and "json_find cfg ''http_port'' = Some (JInt port)" "0 \<le> port" "port < 65536"
    and "json_find cfg ''worker_threads'' = Some (JInt n)" "0 < n" "n \<le> int_max"
    and "json_find cfg ''llama_model_path'' = Some (JString path)" "c_str path \<noteq> []" "model_loads (c_str path)"
    and "inet_texts_fit inet" "os_answers os"
  shows "\<exists>hp. http_main files parse model_loads inet os e [] = Inr hp
    \<and> reachable srv_init srv_step (so_srv (hp_server hp)) \<and> loops (threadPool (so_srv (hp_server hp))) = []
    \<and> listening (so_acceptor (hp_server hp)) \<and> has_callback (so_acceptor (hp_server hp))
    \<and> ipPort (so_srv (hp_server hp)) = inet_ntop4 inet (hostToNetwork32 kInaddrAny) @ '':'' @ to_string port
    \<and> hp_threads hp = nat n \<and> hp_engines hp ''llama'' = Some (Llama 0 (c_str path))
    \<and> sm_ok (hp_sessions hp) \<and> sm_size (hp_sessions hp) = 0 \<and> max_sessions (opt (hp_sessions hp)) = 1024"
proof -
  let ?e = "load_config files parse e" and ?p = "word_of_nat (nat port) :: 16 word"
  let ?ip = "inet_ntop4 inet (hostToNetwork32 kInaddrAny) @ '':'' @ to_string (int (unat ?p))"
  let ?pool = "\<lparr>etp_started = True, numThreads = 0, next_loop = 0, loops = []\<rparr>"
  let ?s = "(new_TcpServer ''HttpServer'' ?ip)\<lparr>threadPool := ?pool\<rparr>"
  have keys: "(''http_port'', ''HTTP_PORT'') \<in> set config_keys" "(''worker_threads'', ''WORKER_THREADS'') \<in> set config_keys"
    "(''llama_model_path'', ''LLAMA_MODEL_PATH'') \<in> set config_keys" by (simp_all add: config_keys_def)
  have vars: "?e ''HTTP_PORT'' = Some (to_string port)" "?e ''WORKER_THREADS'' = Some (to_string n)"
    using load_config_int [of files e "text" parse cfg, OF assms(1,2) keys(1) assms(3)]
      load_config_int [of files e "text" parse cfg, OF assms(1,2) keys(2) assms(6)] assms(4,5,7,8)
    by (simp_all add: int_min_def int_max_def)
  have "?e ''LLAMA_MODEL_PATH'' = Some (c_str path)"
    using load_config_overrides [of files e "text" parse cfg, OF assms(1,2)] keys(3) assms(9) by fastforce
  then have "getenv_nonempty ?e ''LLAMA_MODEL_PATH'' = Some (c_str path)" "getenv_nonempty ?e ''WORKER_THREADS'' = Some (to_string n)"
    using vars(2) assms(10) by (auto simp: getenv_nonempty_def split: list.split)
  then have env: "choose_port ?e [] = Inr (nat port)" "get_worker_threads ?e = nat n"
    "GetEnvOrDefault ?e ''LLAMA_MODEL_PATH'' default_model_path = c_str path"
    using vars(1) assms(4,5,7,8) stoi_to_string [of port] stoi_to_string [of n]
    by (simp_all add: choose_port_def to_uint16_def get_worker_threads_def GetEnvOrDefault_def int_min_def int_max_def del: getenv_nonempty_Some)
  have start: "main_start files parse model_loads e [] = Inr (?e, nat port, [''llama'' \<mapsto> Llama 0 (c_str path)])"
    using env(1,3) assms(11) by (simp add: main_start_def Let_def EngineFactory_Create_def CreateNewEngine_def)
  have port: "int (unat ?p) = port" using assms(4,5) by (simp add: uint_word_of_int)
  have "etp_ok ?pool" by (simp add: etp_ok_def)
  then have "srv_init ?s" unfolding srv_init_def using address_text(2) [OF assms(12), of ?p] by blast
  then have init: "reachable srv_init srv_step ?s" by (rule reachable_init)
  have "\<exists>ob. new_NetworkHttpServer inet os (InetAddress_of_port ?p False False) = Inr ob \<and>
      (\<exists>ob'. NetworkHttpServer_Start os ob = Inr ob' \<and> so_srv ob' = ?s \<and> listening (so_acceptor ob') \<and> has_callback (so_acceptor ob'))"
    using assms(13) address_text(1) [OF assms(12), of ?p]
    by (simp add: new_NetworkHttpServer_def NetworkHttpServer_Start_def TcpServer_ctor_def new_Acceptor_def createNonblockingOrDie_def
        bindOrDie_def TcpServer_start_def etp_start_def Acceptor_listen_def os_answers_def new_TcpServer_def
        new_EventLoopThreadPool_def cpp_assert_def)
  then obtain ob ob' where ob: "new_NetworkHttpServer inet os (InetAddress_of_port ?p False False) = Inr ob"
    "NetworkHttpServer_Start os ob = Inr ob'" "so_srv ob' = ?s" "listening (so_acceptor ob')" "has_callback (so_acceptor ob')" by blast
  have "ipPort ?s = inet_ntop4 inet (hostToNetwork32 kInaddrAny) @ '':'' @ to_string port" using port by (simp add: new_TcpServer_def)
  moreover have "sm_ok (new_SessionManager gateway_options)" "sm_size (new_SessionManager gateway_options) = 0"
    "max_sessions (opt (new_SessionManager gateway_options)) = 1024"
    by (rule new_SessionManager_ok) (simp_all add: new_SessionManager_def sm_size_def gateway_options_def)
  ultimately show ?thesis using start ob env(2) init by (simp add: http_main_def new_HttpGateway_def)
qed

definition http_config :: json where
  "http_config = JObject [(''http_port'', JInt 9090), (''worker_threads'', JInt 8), (''llama_model_path'', JString ''/m.gguf'')]"

theorem http_process_starts_witness:
  "\<exists>hp :: unit http_process. http_main (\<lambda>_. Some ''{}'') (\<lambda>_. Some http_config) (\<lambda>_. True) sample_inet sample_os Map.empty [] = Inr hp
     \<and> hp_threads hp = 8 \<and> listening (so_acceptor (hp_server hp))"
proof -
  have "inet_texts_fit sample_inet" "os_answers sample_os" by (simp_all add: sample_inet_def inet_texts_fit_def os_answers_def sample_os_def)
  then show ?thesis
    using http_process_starts [of "\<lambda>_. Some ''{}''" Map.empty "''{}''" "\<lambda>_. Some http_config" http_config 9090 8 "''/m.gguf''" "\<lambda>_. True" sample_inet sample_os,
        where ?'a = unit]
    by (auto simp: http_config_def int_max_def c_str_def)
qed

text \<open>A session nobody uses for half an hour is enough to make the process undefined.\<close>

theorem idle_session_undefined:
  "serve_sessions [Handler (OpGetOrCreate ''s'' ''llama'' (0, 0)), Collect 1800, Collect 1860]
     (new_SessionManager gateway_options :: unit SessionManager) = Some (Inl UndefinedBehaviour)"
proof -
  let ?none = "new_SessionManager gateway_options :: unit SessionManager"
  let ?m = "created ''s'' ''llama'' (0, 0) ?none"
  have ok: "sm_ok ?m" by (rule created_ok [OF unit_session_ok]) (simp add: new_SessionManager_def)
  have m: "tail_session ?m = Some (new_Session ''s'' ''llama'' 0 0)" "opt ?m = gateway_options" "sm_size ?m = 1"
    by (simp_all add: tail_session_def created_def new_SessionManager_def lru_ids_def sm_size_def)
  have "evictIfNeeded 0 ?m = Some (Inr (0, ?m))" using m(2,3) by (simp add: evictIfNeeded.simps gateway_options_def)
  then have "sm_apply (OpGetOrCreate ''s'' ''llama'' (0, 0)) ?none = Some (Inr ?m)"
    using getOrCreate_miss [of ?none "''s''" "''llama''" "(0, 0)"] by (simp add: new_SessionManager_def)
  moreover have "\<not> tail_expired 1800 ?m" "tail_expired 1860 ?m"
    using m(1,2) by (simp_all add: tail_expired_def expired_def shouldExpire_def gateway_options_def new_Session_def)
  ultimately show ?thesis using gc_value [OF ok] by (simp del: sm_apply.simps)
qed

end
