(* ===== verification/Unit_Router.thy ===== *)
theory Unit_Router
  imports Unit_Manager
begin

text \<open>
  The user's side of the unit manager: the TCP sessions with their addresses
  (\<open>tcp_comm.cpp\<close>, \<open>session.h\<close>, \<open>zmq_bus.cpp\<close>), and the routing of a user's request to a unit or to an
  RPC of another process (\<open>remote_server.cpp\<close>, \<open>remote_action.cpp\<close>).
\<close>

section \<open>The environment\<close>

text \<open>
  What the code asks libraries and the system for: libzmq, the socket files, the string fields of a
  JSON text (\<open>None\<close> for a text that simdjson refuses), the printer, the clock and the log level.
\<close>

record um_env =
  ue_api :: zmq_api
  ue_files :: "string list"
  ue_fields :: "string \<Rightarrow> (string \<Rightarrow> string option) option"
  ue_dump :: "json \<Rightarrow> string"
  ue_now :: int
  ue_log_level :: int

definition SAMPLE_LOG_WARN :: int where "SAMPLE_LOG_WARN = 4"

section \<open>Replies to the user\<close>

definition zmq_com_send :: "um_env \<Rightarrow> int \<Rightarrow> string \<Rightarrow> um_state \<Rightarrow> um_state res" where
  "zmq_com_send env com_id out_str um =
     rbind (sprintf_i 128 (zmq_c_format um) com_id)
       (\<lambda>url. rbind (new_pzmq (ue_api env) url ZMQ_PUSH (ue_files env) :: (string list \<times> unit pzmq) res)
          (\<lambda>_. Inr (um\<lparr>pushed := pushed um @ [(url, out_str @ [CHR 0x0A])]\<rparr>)))"

definition error_body :: "um_env \<Rightarrow> string \<Rightarrow> string \<Rightarrow> int \<Rightarrow> string \<Rightarrow> json" where
  "error_body env request_id work_id code msg =
     JObject [(''created'', JInt (ue_now env)), (''data'', JString ''None''),
       (''error'', JObject [(''code'', JInt code), (''message'', JString msg)]), (''object'', JString ''None''),
       (''request_id'', JString request_id), (''work_id'', JString work_id)]"

definition usr_print_error :: "um_env \<Rightarrow> string \<Rightarrow> string \<Rightarrow> int \<Rightarrow> string \<Rightarrow> int \<Rightarrow> um_state \<Rightarrow> um_state res" where
  "usr_print_error env request_id work_id code msg zmq_out um =
     zmq_com_send env zmq_out (ue_dump env (error_body env request_id work_id code msg)) um"

section \<open>Routing\<close>

text \<open>
  The warning macro expands to an \<open>if\<close>, so the \<open>else\<close> branch with the failure belongs to the test of the
  log level and not to the test of the unit.
\<close>

definition zmq_bus_publisher_push :: "um_env \<Rightarrow> string \<Rightarrow> string \<Rightarrow> um_state \<Rightarrow> (int \<times> um_state) res" where
  "zmq_bus_publisher_push env work_id json_str um =
     (if work_id = [] then Inr (- 1, um)
      else rbind (case read_unit um work_id of
                    None \<Rightarrow> Inr um
                  | Some p \<Rightarrow> if units um p = None then Inl UndefinedBehaviour
                              else Inr (um\<lparr>published := published um @ [(p, json_str)]\<rparr>))
             (\<lambda>um1. Inr (if SAMPLE_LOG_WARN \<le> ue_log_level env then 0 else - 1, um1)))"

definition field_or_empty :: "um_env \<Rightarrow> string \<Rightarrow> string \<Rightarrow> string" where
  "field_or_empty env json_str k =
     (case ue_fields env json_str of None \<Rightarrow> [] | Some f \<Rightarrow> (case f k of None \<Rightarrow> [] | Some v \<Rightarrow> v))"

definition remote_call :: "um_env \<Rightarrow> int \<Rightarrow> string \<Rightarrow> um_state \<Rightarrow> int res" where
  "remote_call env com_id json_str um =
     (let work_id = field_or_empty env json_str ''work_id'';
          work_unit = sample_get_work_id_name work_id;
          action = field_or_empty env json_str ''action''
      in if work_id = [] \<or> action = [] then Inl (RuntimeError ''Invalid JSON: missing work_id or action'')
         else rbind (printf_i (c_str (zmq_c_format um)) [com_id])
           (\<lambda>com_url. rbind (call_rpc_action (ue_api env) action (set_param (take 254 com_url) json_str) (ue_files env)
                               (new_pzmq_rpc work_unit :: unit pzmq))
              (\<lambda>(ret, _). Inr ret)))"

fun fragments :: "string \<Rightarrow> string \<Rightarrow> string list" where
  "fragments fragment [] = (if fragment \<noteq> [] then [fragment] else [])"
| "fragments fragment (c # cs) =
     (if c \<noteq> CHR ''.'' then fragments (fragment @ [c]) cs else fragment # fragments [] cs)"

text \<open>The text a unit is sent: the session's address put in front of the fields of the request.\<close>

definition inference_raw :: "string \<Rightarrow> string \<Rightarrow> string" where
  "inference_raw url json_str = ''{\"zmq_com\":\"'' @ url @ ''\",'' @ tl json_str"

definition run_inference :: "um_env \<Rightarrow> int \<Rightarrow> string \<Rightarrow> string \<Rightarrow> string \<Rightarrow> um_state \<Rightarrow> um_state res" where
  "run_inference env com_id request_id work_id json_str um =
     rbind (sprintf_i 128 (zmq_c_format um) com_id)
       (\<lambda>url. if json_str = [] then Inl UndefinedBehaviour
              else rbind (zmq_bus_publisher_push env work_id (inference_raw url json_str) um)
                (\<lambda>(ret, um1). if ret \<noteq> 0 then usr_print_error env request_id work_id (- 4) ''inference data push false'' com_id um1
                              else Inr um1))"

definition run_remote :: "um_env \<Rightarrow> int \<Rightarrow> string \<Rightarrow> string \<Rightarrow> string \<Rightarrow> um_state \<Rightarrow> um_state res" where
  "run_remote env com_id request_id work_id json_str um =
     (case fragments [] work_id of
        [] \<Rightarrow> Inl UndefinedBehaviour
      | fr # _ \<Rightarrow>
          if fr = [] then Inr um
          else rbind (remote_call env com_id json_str um)
            (\<lambda>ret. if ret \<noteq> 0 then usr_print_error env request_id work_id (- 9) ''unit call false'' com_id um else Inr um))"

definition unit_action_match :: "um_env \<Rightarrow> int \<Rightarrow> string \<Rightarrow> um_state \<Rightarrow> um_state res" where
  "unit_action_match env com_id json_str um =
     (let bad = usr_print_error env ''0'' ''sys'' (- 2) ''json format error'' com_id um
      in case ue_fields env json_str of
           None \<Rightarrow> bad
         | Some f \<Rightarrow>
             (case f ''request_id'' of
                None \<Rightarrow> bad
              | Some request_id \<Rightarrow>
                  (case f ''work_id'' of
                     None \<Rightarrow> bad
                   | Some wid \<Rightarrow>
                       let work_id = (if wid = [] then ''sys'' else wid)
                       in (case f ''action'' of
                             None \<Rightarrow> bad
                           | Some action \<Rightarrow>
                               if action = ''inference'' then run_inference env com_id request_id work_id json_str um
                               else run_remote env com_id request_id work_id json_str um))))"

section \<open>Sessions\<close>

record TcpSession =
  ts_port :: int
  ts_url :: string
  ts_open :: bool

record tcp_state =
  counter_port :: int
  sessions :: "nat \<Rightarrow> TcpSession option"
  tcp_um :: um_state

text \<open>A new connection gets a session that listens on the next address.\<close>

definition session_work :: "um_env \<Rightarrow> int \<Rightarrow> um_state \<Rightarrow> TcpSession res" where
  "session_work env port um =
     rbind (sprintf_i (length (zmq_s_format um) + length (to_string port)) (zmq_s_format um) port)
       (\<lambda>url. rbind (new_pzmq (ue_api env) url ZMQ_PULL (ue_files env) :: (string list \<times> unit pzmq) res)
          (\<lambda>_. Inr \<lparr>ts_port = port, ts_url = url, ts_open = True\<rparr>))"

definition next_port :: "int \<Rightarrow> int" where
  "next_port n = (if n + 1 > 65535 then 8000 else n + 1)"

definition um_onConnection :: "um_env \<Rightarrow> nat \<Rightarrow> bool \<Rightarrow> tcp_state \<Rightarrow> tcp_state res" where
  "um_onConnection env conn connected st =
     (if connected
      then rbind (session_work env (counter_port st) (tcp_um st))
             (\<lambda>ts. Inr (st\<lparr>sessions := (sessions st)(conn := Some ts), counter_port := next_port (counter_port st)\<rparr>))
      else (case sessions st conn of
              None \<Rightarrow> Inl BadAnyCast
            | Some ts \<Rightarrow> Inr (st\<lparr>sessions := (sessions st)(conn := Some (ts\<lparr>ts_open := False\<rparr>))\<rparr>)))"

text \<open>One read is taken for one request; a single newline at its end is dropped.\<close>

definition select_json_str :: "string \<Rightarrow> string" where
  "select_json_str s = (if s \<noteq> [] \<and> last s = CHR 0x0A then butlast s else s)"

definition um_onMessage :: "um_env \<Rightarrow> nat \<Rightarrow> string \<Rightarrow> tcp_state \<Rightarrow> tcp_state res" where
  "um_onMessage env conn msg st =
     (case sessions st conn of
        None \<Rightarrow> Inr st
      | Some ts \<Rightarrow> rbind (unit_action_match env (ts_port ts) (select_json_str msg) (tcp_um st)) (\<lambda>um. Inr (st\<lparr>tcp_um := um\<rparr>)))"

text \<open>What a session's loop hands to its connection: the messages pushed to its address.\<close>

definition session_output :: "TcpSession \<Rightarrow> um_state \<Rightarrow> string list" where
  "session_output ts um = map snd (filter (\<lambda>(url, m). url = ts_url ts \<and> m \<noteq> []) (pushed um))"

section \<open>Lemmas\<close>

lemma fragments_nonempty: "acc \<noteq> [] \<or> w \<noteq> [] \<Longrightarrow> fragments acc w \<noteq> []"
  by (induction w arbitrary: acc) auto

text \<open>The address of a session, for a format whose result fits the buffers.\<close>

definition short_fmt :: "string \<Rightarrow> bool" where
  "short_fmt fmt \<longleftrightarrow> fmt_ok fmt \<and> length fmt \<le> 100 \<and> CHR 0x22 \<notin> set fmt \<and> CHR 0x5C \<notin> set fmt"

lemma fmt_url:
  assumes "short_fmt fmt"
  obtains pre suf where "\<And>sz port. 0 \<le> port \<Longrightarrow> port \<le> int_max \<Longrightarrow> length fmt + length (to_string port) \<le> sz \<or> 128 \<le> sz
      \<Longrightarrow> sprintf_i sz fmt port = Inr (pre @ to_string port @ suf)"
    "CHR 0x22 \<notin> set (pre @ suf)" "CHR 0x5C \<notin> set (pre @ suf)"
proof -
  obtain pre suf where fmt: "fmt = pre @ ''%i'' @ suf" and ps: "\<forall>c \<in> set pre. \<not> is_space c \<and> c \<noteq> CHR 0x25 \<and> c \<noteq> CHR 0x00"
    "CHR 0x25 \<notin> set suf" "CHR 0x00 \<notin> set suf"
    using assms by (auto simp: short_fmt_def fmt_ok_def)
  have A: "sprintf_i sz fmt port = Inr (pre @ to_string port @ suf)"
    if "0 \<le> port" "port \<le> int_max" "length fmt + length (to_string port) \<le> sz \<or> 128 \<le> sz" for sz port
  proof -
    have "length fmt = length pre + length suf + 2" "length fmt \<le> 100" using fmt assms by (simp_all add: short_fmt_def)
    then have "length (pre @ to_string port @ suf) < sz" using that(3) length_to_string [OF that(1,2)] by auto
    moreover have "CHR 0x25 \<notin> set pre" "CHR 0x00 \<notin> set pre" using ps(1) by blast+
    ultimately show ?thesis unfolding fmt using ps(2,3) by (intro sprintf_i_one)
  qed
  have B: "CHR 0x22 \<notin> set (pre @ suf)" "CHR 0x5C \<notin> set (pre @ suf)" using assms fmt by (auto simp: short_fmt_def)
  show ?thesis by (rule that [OF _ B]) (rule A)
qed

lemma url_nonempty: "to_string n \<noteq> []"
  by (simp add: to_string_def)

lemma new_pzmq_total:
  assumes "url \<noteq> []" "md \<noteq> ZMQ_RPC_CALL"
  shows "\<exists>x. (new_pzmq api url md files :: (string list \<times> 'w pzmq) res) = Inr x"
  using assms by (cases url; cases md) (auto simp: new_pzmq_def keeps_head_def creat_def Let_def split: list.splits prod.splits)

lemma zmq_com_send_ok:
  assumes "sprintf_i 128 (zmq_c_format um) port = Inr url" "url \<noteq> []"
  shows "zmq_com_send env port out um = Inr (um\<lparr>pushed := pushed um @ [(url, out @ [CHR 0x0A])]\<rparr>)"
proof -
  obtain x where "(new_pzmq (ue_api env) url ZMQ_PUSH (ue_files env) :: (string list \<times> unit pzmq) res) = Inr x"
    using new_pzmq_total [OF assms(2)] by blast
  then show ?thesis using assms(1) by (simp add: zmq_com_send_def)
qed

lemma session_work_ok:
  assumes "sprintf_i (length (zmq_s_format um) + length (to_string port)) (zmq_s_format um) port = Inr url" "url \<noteq> []"
  shows "session_work env port um = Inr \<lparr>ts_port = port, ts_url = url, ts_open = True\<rparr>"
proof -
  obtain x where "(new_pzmq (ue_api env) url ZMQ_PULL (ue_files env) :: (string list \<times> unit pzmq) res) = Inr x"
    using new_pzmq_total [OF assms(2)] by blast
  then show ?thesis using assms(1) by (simp add: session_work_def)
qed

lemma next_port_iter: "(next_port ^^ n) 8000 = 8000 + int (n mod 57536)"
proof (induction n)
  case (Suc n)
  have "n mod 57536 < 57536" by simp
  moreover have "Suc n mod 57536 = (if Suc (n mod 57536) = 57536 then 0 else Suc (n mod 57536))" by (rule mod_Suc)
  ultimately show ?case using Suc by (simp add: next_port_def) linarith
qed simp

lemma quoted_no_quote: "CHR 0x22 \<notin> set b \<Longrightarrow> CHR 0x5C \<notin> set b \<Longrightarrow> l \<noteq> CHR 0x5C \<Longrightarrow> quoted_ok l b"
proof (induction b arbitrary: l)
  case (Cons c b)
  have "quoted_ok c b" by (rule Cons.IH) (use Cons.prems in auto)
  with Cons.prems show ?case by auto
qed simp

lemma digits_plain: "CHR 0x22 \<notin> set (to_string n)" "CHR 0x5C \<notin> set (to_string n)"
proof -
  have "c \<in> set (to_string n) \<Longrightarrow> is_digit c \<or> c = CHR ''-''" for c
    using nat_to_string_digits by (auto simp: to_string_def list_all_iff split: if_splits)
  then show "CHR 0x22 \<notin> set (to_string n)" "CHR 0x5C \<notin> set (to_string n)" by (force simp: is_digit_def)+
qed

lemma scan_inference_raw:
  assumes "CHR 0x22 \<notin> set url" "CHR 0x5C \<notin> set url"
  shows "sample_json_str_get (inference_raw url json_str) ''zmq_com'' = url"
proof -
  have f: "str_find (find_key ''zmq_com'') (inference_raw url json_str) = Some 1"
    by (simp add: inference_raw_def find_key_def starts_with_def)
  have d: "drop (1 + length (find_key ''zmq_com'')) (inference_raw url json_str) = CHR '':'' # (CHR 0x22 # url @ [CHR 0x22]) @ CHR '','' # tl json_str"
    by (simp add: inference_raw_def find_key_def)
  have "quoted_ok (CHR 0x22) url" using assms by (intro quoted_no_quote) auto
  with scan_string_value [OF f, of 0 0 url "CHR '','' # tl json_str"] d show ?thesis by simp
qed

lemma session_urls:
  assumes "short_fmt (zmq_c_format um)" "zmq_s_format um = zmq_c_format um"
  shows "\<exists>pre suf. (\<forall>env n. 0 \<le> n \<longrightarrow> n \<le> int_max \<longrightarrow>
        session_work env n um = Inr \<lparr>ts_port = n, ts_url = pre @ to_string n @ suf, ts_open = True\<rparr>
        \<and> sprintf_i 128 (zmq_c_format um) n = Inr (pre @ to_string n @ suf))
    \<and> CHR 0x22 \<notin> set (pre @ suf) \<and> CHR 0x5C \<notin> set (pre @ suf)"
proof -
  from fmt_url [OF assms(1)] obtain pre suf where
    url: "\<And>sz port. 0 \<le> port \<Longrightarrow> port \<le> int_max \<Longrightarrow> length (zmq_c_format um) + length (to_string port) \<le> sz \<or> 128 \<le> sz
      \<Longrightarrow> sprintf_i sz (zmq_c_format um) port = Inr (pre @ to_string port @ suf)"
    and plain: "CHR 0x22 \<notin> set (pre @ suf)" "CHR 0x5C \<notin> set (pre @ suf)" by auto
  have work: "session_work e n um = Inr \<lparr>ts_port = n, ts_url = pre @ to_string n @ suf, ts_open = True\<rparr>"
    if "0 \<le> n" "n \<le> int_max" for e n
    using url [OF that, of "length (zmq_c_format um) + length (to_string n)"] assms(2) url_nonempty [of n]
    by (intro session_work_ok) auto
  show ?thesis using work url [of _ 128] plain by - (rule exI [of _ pre], rule exI [of _ suf], auto)
qed

lemma session_exists:
  assumes "short_fmt (zmq_c_format um)" "zmq_s_format um = zmq_c_format um" "0 \<le> n" "n \<le> int_max"
  shows "\<exists>ts. session_work env n um = Inr ts \<and> ts_port ts = n"
  using session_urls [OF assms(1,2)] assms(3,4) by force

lemma session_and_reply:
  assumes "short_fmt (zmq_c_format um)" "zmq_s_format um = zmq_c_format um" "0 \<le> port" "port \<le> int_max"
    and "session_work env port um = Inr ts"
  shows "sprintf_i 128 (zmq_c_format um) port = Inr (ts_url ts)" "ts_url ts \<noteq> []"
    "0 \<le> port' \<Longrightarrow> port' \<le> int_max \<Longrightarrow> session_work env' port' um = Inr ts' \<Longrightarrow> ts_url ts' = ts_url ts \<longleftrightarrow> port' = port"
    "CHR 0x22 \<notin> set (ts_url ts)" "CHR 0x5C \<notin> set (ts_url ts)"
proof -
  obtain pre suf where
    work: "\<And>env n. 0 \<le> n \<Longrightarrow> n \<le> int_max \<Longrightarrow>
      session_work env n um = Inr \<lparr>ts_port = n, ts_url = pre @ to_string n @ suf, ts_open = True\<rparr>
      \<and> sprintf_i 128 (zmq_c_format um) n = Inr (pre @ to_string n @ suf)"
    and plain: "CHR 0x22 \<notin> set (pre @ suf)" "CHR 0x5C \<notin> set (pre @ suf)"
    using session_urls [OF assms(1,2)] by meson
  have ts: "ts_url ts = pre @ to_string port @ suf" using work [OF assms(3,4), of env] assms(5) by auto
  with work [OF assms(3,4)] show "sprintf_i 128 (zmq_c_format um) port = Inr (ts_url ts)" by simp
  show "ts_url ts \<noteq> []" using ts url_nonempty [of port] by simp
  show "CHR 0x22 \<notin> set (ts_url ts)" "CHR 0x5C \<notin> set (ts_url ts)" using ts plain digits_plain by auto
  show "ts_url ts' = ts_url ts \<longleftrightarrow> port' = port"
    if "0 \<le> port'" "port' \<le> int_max" "session_work env' port' um = Inr ts'"
    using work [OF that(1,2), of env'] that(3) ts to_string_inj [of port' port] by auto
qed

definition malformed :: "um_env \<Rightarrow> string \<Rightarrow> bool" where
  "malformed env json_str \<longleftrightarrow>
     (case ue_fields env json_str of
        None \<Rightarrow> True
      | Some f \<Rightarrow> f ''request_id'' = None \<or> f ''work_id'' = None \<or> f ''action'' = None)"

lemma unit_action_match_malformed:
  "malformed env json_str \<Longrightarrow> unit_action_match env com_id json_str um = usr_print_error env ''0'' ''sys'' (- 2) ''json format error'' com_id um"
  by (auto simp: malformed_def unit_action_match_def Let_def split: option.splits)

lemma inference_published:
  assumes "um_inv um" "short_fmt (zmq_c_format um)" "zmq_s_format um = zmq_c_format um" "SAMPLE_LOG_WARN \<le> ue_log_level env"
    and "0 \<le> port" "port \<le> int_max" "session_work env port um = Inr ts" "json_str \<noteq> []"
    and "ue_fields env json_str = Some f" "f ''request_id'' = Some rid" "f ''work_id'' = Some wid" "f ''action'' = Some ''inference''"
    and "read_unit um wid = Some p" "wid \<noteq> []"
  shows "unit_action_match env port json_str um = Inr (um\<lparr>published := published um @ [(p, inference_raw (ts_url ts) json_str)]\<rparr>)"
    "sample_json_str_get (inference_raw (ts_url ts) json_str) ''zmq_com'' = ts_url ts"
proof -
  note url = session_and_reply [OF assms(2,3,5-7)]
  have "key_sql um wid = Some (AUnit p)" using assms(13) by (auto simp: read_unit_def split: option.splits any_val.splits)
  then obtain u where "units um p = Some u" using assms(1) table_of_unitsD(1) [of um wid p] by (auto simp: um_inv_def)
  then show "unit_action_match env port json_str um = Inr (um\<lparr>published := published um @ [(p, inference_raw (ts_url ts) json_str)]\<rparr>)"
    using assms(4,8-14) url(1) by (simp add: unit_action_match_def run_inference_def zmq_bus_publisher_push_def)
  show "sample_json_str_get (inference_raw (ts_url ts) json_str) ''zmq_com'' = ts_url ts" by (rule scan_inference_raw [OF url(4,5)])
qed

section \<open>Properties\<close>

text \<open>
  Claim C40. With one address format for both sides, a malformed request is answered with exactly one error
  message, which reaches the session that sent the request and no session on another port.
\<close>

theorem malformed_request_answered:
  assumes "short_fmt (zmq_c_format um)" "zmq_s_format um = zmq_c_format um" "malformed env json_str"
    and "0 \<le> port" "port \<le> int_max" "session_work env port um = Inr ts"
    and "0 \<le> port'" "port' \<le> int_max" "session_work env' port' um = Inr ts'" "port' \<noteq> port"
  shows "\<exists>um'. unit_action_match env port json_str um = Inr um'
    \<and> session_output ts um' = session_output ts um @ [ue_dump env (error_body env ''0'' ''sys'' (- 2) ''json format error'') @ [CHR 0x0A]]
    \<and> session_output ts' um' = session_output ts' um"
proof -
  note url = session_and_reply [OF assms(1,2,4-6)]
  have "ts_url ts' \<noteq> ts_url ts" using url(3) [OF assms(7-9)] assms(10) by simp
  moreover have "unit_action_match env port json_str um
      = Inr (um\<lparr>pushed := pushed um @ [(ts_url ts, ue_dump env (error_body env ''0'' ''sys'' (- 2) ''json format error'') @ [CHR 0x0A])]\<rparr>)"
    unfolding unit_action_match_malformed [OF assms(3)] usr_print_error_def by (rule zmq_com_send_ok [OF url(1,2)])
  ultimately show ?thesis by (simp add: session_output_def)
qed

definition request_fields :: "string \<Rightarrow> string \<Rightarrow> string \<Rightarrow> string option" where
  "request_fields wid act k = (if k = ''request_id'' then Some ''1'' else if k = ''work_id'' then Some wid
     else if k = ''action'' then Some act else None)"

definition sample_env :: um_env where
  "sample_env = \<lparr>ue_api = sample_api, ue_files = [], ue_fields = (\<lambda>s. if s = ''{}'' then Some (\<lambda>_. None)
       else if s = ''{\"action\":\"inference\"}'' then Some (request_fields ''llm.1000'' ''inference'')
       else if s = ''{\"b\":1}'' then Some (request_fields [] ''setup'') else None),
     ue_dump = (\<lambda>_. ''error''), ue_now = 0, ue_log_level = 6\<rparr>"

lemma sample_short: "short_fmt (zmq_c_format sample_um)" "zmq_s_format sample_um = zmq_c_format sample_um"
  using sample_fmt by (simp_all add: short_fmt_def sample_um_def)

theorem malformed_request_answered_witness:
  "\<exists>ts ts' um'. session_work sample_env 8000 sample_um = Inr ts \<and> session_work sample_env 8001 sample_um = Inr ts'
    \<and> unit_action_match sample_env 8000 ''{}'' sample_um = Inr um' \<and> length (session_output ts um') = Suc (length (session_output ts sample_um))
    \<and> session_output ts' um' = session_output ts' sample_um"
proof -
  obtain ts ts' where ts: "session_work sample_env 8000 sample_um = Inr ts" "session_work sample_env 8001 sample_um = Inr ts'"
    using session_exists [OF sample_short, of 8000 sample_env] session_exists [OF sample_short, of 8001 sample_env] by (auto simp: int_max_def)
  have m: "malformed sample_env ''{}''" by (simp add: malformed_def sample_env_def)
  from malformed_request_answered [OF sample_short m, of 8000 ts 8001 sample_env ts'] ts
  obtain um' where "unit_action_match sample_env 8000 ''{}'' sample_um = Inr um'"
    "length (session_output ts um') = Suc (length (session_output ts sample_um))" "session_output ts' um' = session_output ts' sample_um"
    by (auto simp: int_max_def)
  with ts show ?thesis by blast
qed

text \<open>
  An inference request for a live unit is published exactly once, on that unit's publisher, and the text
  it gets carries the address of the session, which the unit's scanner reads back, in front of the
  fields of the request.
\<close>

theorem inference_reaches_unit:
  assumes "um_inv um" "short_fmt (zmq_c_format um)" "zmq_s_format um = zmq_c_format um" "SAMPLE_LOG_WARN \<le> ue_log_level env"
    and "0 \<le> port" "port \<le> int_max" "session_work env port um = Inr ts" "json_str \<noteq> []"
    and "ue_fields env json_str = Some f" "f ''request_id'' = Some rid" "f ''work_id'' = Some wid" "f ''action'' = Some ''inference''"
    and "read_unit um wid = Some p" "wid \<noteq> []"
  shows "\<exists>raw. unit_action_match env port json_str um = Inr (um\<lparr>published := published um @ [(p, raw)]\<rparr>)
    \<and> sample_json_str_get raw ''zmq_com'' = ts_url ts \<and> (\<exists>pre. raw = pre @ tl json_str)"
  using inference_published [OF assms] by (auto simp: inference_raw_def)

lemma sample_with_unit:
  obtains um p where "um_inv um" "read_unit um ''llm.1000'' = Some p" "zmq_c_format um = zmq_c_format sample_um"
    "zmq_s_format um = zmq_s_format sample_um"
proof -
  let ?um = "snd (snd sample_started)"
  have inv: "um_inv ?um" by (rule started_inv(1) [OF sample_start(1) sample_um_fresh])
  have c: "work_id_number_counter ?um = 1000" "zmq_c_format ?um = zmq_c_format sample_um" "zmq_s_format ?um = zmq_s_format sample_um"
    by (simp_all add: sample_started_def remote_server_work_def sample_um_def read_int_def int_max_def um_actions_def register_rpc_action_def
      new_pzmq_rpc_def creat_def set_action_def sample_api_def Let_def)
  have n: "name_ok ''llm''" "2 \<le> free_ports ?um" using sample_start(2) by (simp_all add: name_ok_def)
  from rpc_allocate_reply [OF inv n] obtain i j u where um: "um_inv (allocated i j u ?um)" "ud_work_id u = ''llm'' @ ''.'' @ to_string 1000"
    using c(1) by metis
  have "to_string 1000 = ''1000''" by (simp add: print_number)
  then have "read_unit (allocated i j u ?um) ''llm.1000'' = Some (next_unit ?um)" using um(2) by (simp add: read_unit_def allocated_def)
  moreover have "zmq_c_format (allocated i j u ?um) = zmq_c_format sample_um" "zmq_s_format (allocated i j u ?um) = zmq_s_format sample_um"
    using c by (simp_all add: allocated_def mark_def)
  ultimately show ?thesis using um(1) that by blast
qed

definition sample_ts :: TcpSession where
  "sample_ts = \<lparr>ts_port = 8000, ts_url = ''ipc:///tmp/llm/8000.sock'', ts_open = True\<rparr>"

lemma sample_ts_works: "zmq_s_format um = zmq_s_format sample_um \<Longrightarrow> session_work sample_env 8000 um = Inr sample_ts"
proof -
  assume f: "zmq_s_format um = zmq_s_format sample_um"
  have n: "to_string 8000 = ''8000''" by (simp add: print_number)
  have "sprintf_i (length (zmq_s_format um) + length (to_string 8000)) (''ipc:///tmp/llm/'' @ ''%i'' @ ''.sock'') 8000
      = Inr (''ipc:///tmp/llm/'' @ to_string 8000 @ ''.sock'')"
    using f n by (intro sprintf_i_one) (simp_all add: sample_um_def)
  then have "session_work sample_env 8000 um = Inr \<lparr>ts_port = 8000, ts_url = ''ipc:///tmp/llm/'' @ to_string 8000 @ ''.sock'', ts_open = True\<rparr>"
    using f by (intro session_work_ok) (simp_all add: sample_um_def)
  then show ?thesis using n by (simp add: sample_ts_def)
qed

theorem inference_reaches_unit_witness:
  "\<exists>um raw p um'. unit_action_match sample_env 8000 ''{\"action\":\"inference\"}'' um = Inr um' \<and> published um' = published um @ [(p, raw)]"
proof -
  obtain um p where um: "um_inv um" "read_unit um ''llm.1000'' = Some p" "zmq_c_format um = zmq_c_format sample_um"
    "zmq_s_format um = zmq_s_format sample_um" by (rule sample_with_unit)
  have "\<exists>raw. unit_action_match sample_env 8000 ''{\"action\":\"inference\"}'' um = Inr (um\<lparr>published := published um @ [(p, raw)]\<rparr>)
    \<and> sample_json_str_get raw ''zmq_com'' = ts_url sample_ts \<and> (\<exists>pre. raw = pre @ tl ''{\"action\":\"inference\"}'')"
    using um sample_short sample_ts_works [OF um(4)]
    by (intro inference_reaches_unit [where f = "request_fields ''llm.1000'' ''inference''" and rid = "''1''" and wid = "''llm.1000''"])
      (simp_all add: request_fields_def SAMPLE_LOG_WARN_def int_max_def, simp_all add: sample_env_def)
  then obtain raw where "unit_action_match sample_env 8000 ''{\"action\":\"inference\"}'' um = Inr (um\<lparr>published := published um @ [(p, raw)]\<rparr>)" by blast
  then show ?thesis by (intro exI conjI) (assumption, simp)
qed

fun accept_all :: "um_env \<Rightarrow> nat list \<Rightarrow> tcp_state \<Rightarrow> tcp_state res" where
  "accept_all env [] st = Inr st"
| "accept_all env (c # cs) st = rbind (um_onConnection env c True st) (accept_all env cs)"

lemma accept_all_ports:
  assumes "short_fmt (zmq_c_format (tcp_um st))" "zmq_s_format (tcp_um st) = zmq_c_format (tcp_um st)"
    and "counter_port st = 8000 + int (k mod 57536)" "distinct cs"
  shows "\<exists>st'. accept_all env cs st = Inr st' \<and> counter_port st' = 8000 + int ((k + length cs) mod 57536)
    \<and> (\<forall>i < length cs. \<exists>ts. sessions st' (cs ! i) = Some ts \<and> ts_port ts = 8000 + int ((k + i) mod 57536))
    \<and> (\<forall>c. c \<notin> set cs \<longrightarrow> sessions st' c = sessions st c)"
  using assms
proof (induction cs arbitrary: st k)
  case (Cons c cs)
  have range: "0 \<le> counter_port st" "counter_port st \<le> int_max"
    using Cons.prems(3) mod_less_divisor [of 57536 k] unfolding int_max_def by linarith+
  obtain ts where ts: "session_work env (counter_port st) (tcp_um st) = Inr ts" "ts_port ts = counter_port st"
    using session_exists [OF Cons.prems(1,2) range] by blast
  let ?st = "st\<lparr>sessions := (sessions st)(c := Some ts), counter_port := next_port (counter_port st)\<rparr>"
  have "next_port (counter_port st) = 8000 + int (Suc k mod 57536)"
    using next_port_iter [of k] next_port_iter [of "Suc k"] Cons.prems(3) by simp
  with Cons.IH [of ?st "Suc k"] Cons.prems obtain st' where st': "accept_all env cs ?st = Inr st'"
    "counter_port st' = 8000 + int ((Suc k + length cs) mod 57536)"
    "\<forall>i < length cs. \<exists>ts. sessions st' (cs ! i) = Some ts \<and> ts_port ts = 8000 + int ((Suc k + i) mod 57536)"
    "\<forall>d. d \<notin> set cs \<longrightarrow> sessions st' d = sessions ?st d" by auto
  have "\<exists>ts. sessions st' ((c # cs) ! i) = Some ts \<and> ts_port ts = 8000 + int ((k + i) mod 57536)" if "i < length (c # cs)" for i
  proof (cases i)
    case 0
    then show ?thesis using st'(4) Cons.prems(3,4) ts(2) by simp
  next
    case (Suc j)
    then show ?thesis using st'(3) that by simp
  qed
  then show ?case using st' ts by (auto simp: um_onConnection_def)
qed simp

text \<open>
  The sessions of up to 57536 connections in a row listen on ports between 8000 and 65535, and no two of
  them on the same.
\<close>

theorem session_ports_distinct:
  assumes "short_fmt (zmq_c_format (tcp_um st))" "zmq_s_format (tcp_um st) = zmq_c_format (tcp_um st)"
    and "counter_port st = 8000" "distinct cs" "length cs \<le> 57536"
  shows "\<exists>st'. accept_all env cs st = Inr st'
    \<and> (\<forall>c \<in> set cs. \<exists>ts. sessions st' c = Some ts \<and> 8000 \<le> ts_port ts \<and> ts_port ts \<le> 65535)
    \<and> (\<forall>c \<in> set cs. \<forall>d \<in> set cs. \<forall>ts us. sessions st' c = Some ts \<longrightarrow> sessions st' d = Some us \<longrightarrow> ts_port ts = ts_port us \<longrightarrow> c = d)"
proof -
  from accept_all_ports [OF assms(1,2), of 0 cs env] assms(3,4) obtain st' where st': "accept_all env cs st = Inr st'"
    "\<forall>i < length cs. \<exists>ts. sessions st' (cs ! i) = Some ts \<and> ts_port ts = 8000 + int (i mod 57536)" by auto
  have nth: "\<exists>i ts. i < length cs \<and> c = cs ! i \<and> sessions st' c = Some ts \<and> ts_port ts = 8000 + int i" if "c \<in> set cs" for c
    using that st'(2) assms(5) by (metis in_set_conv_nth less_le_trans mod_less)
  have "\<exists>ts. sessions st' c = Some ts \<and> 8000 \<le> ts_port ts \<and> ts_port ts \<le> 65535" if "c \<in> set cs" for c
    using nth [OF that] assms(5) by force
  moreover have "c = d" if "c \<in> set cs" "d \<in> set cs" "sessions st' c = Some ts" "sessions st' d = Some us" "ts_port ts = ts_port us" for c d ts us
    using nth [OF that(1)] nth [OF that(2)] that(3-5) by auto
  ultimately show ?thesis using st'(1) by blast
qed

theorem session_ports_distinct_witness:
  "\<exists>st'. accept_all sample_env [3, 4] \<lparr>counter_port = 8000, sessions = (\<lambda>_. None), tcp_um = sample_um\<rparr> = Inr st'
    \<and> (\<exists>ts us. sessions st' 3 = Some ts \<and> sessions st' 4 = Some us \<and> ts_port ts \<noteq> ts_port us)"
proof -
  let ?st = "\<lparr>counter_port = 8000, sessions = (\<lambda>_. None), tcp_um = sample_um\<rparr>"
  have "short_fmt (zmq_c_format (tcp_um ?st))" "zmq_s_format (tcp_um ?st) = zmq_c_format (tcp_um ?st)" "counter_port ?st = 8000"
    "distinct [3 :: nat, 4]" "length [3 :: nat, 4] \<le> 57536" using sample_short by simp_all
  from session_ports_distinct [OF this, of sample_env] obtain st' where st': "accept_all sample_env [3, 4] ?st = Inr st'"
    "\<forall>c \<in> set [3, 4]. \<exists>ts. sessions st' c = Some ts \<and> 8000 \<le> ts_port ts \<and> ts_port ts \<le> 65535"
    "\<forall>c \<in> set [3, 4]. \<forall>d \<in> set [3, 4]. \<forall>ts us. sessions st' c = Some ts \<longrightarrow> sessions st' d = Some us \<longrightarrow> ts_port ts = ts_port us \<longrightarrow> c = d"
    by meson
  obtain ts us where tu: "sessions st' 3 = Some ts" "sessions st' 4 = Some us" using st'(2) by auto
  have "ts_port ts \<noteq> ts_port us" using st'(3) tu by fastforce
  with st'(1) tu show ?thesis by blast
qed

text \<open>
  A request with an empty work id is treated as one for the unit manager itself, but the call then
  reads the field again and throws, outside of any handler of the session: no reply is sent.
\<close>

theorem empty_work_id_escapes:
  assumes "ue_fields env json_str = Some f" "f ''request_id'' = Some rid" "f ''work_id'' = Some []" "f ''action'' = Some act"
    and "act \<noteq> ''inference''" "sessions st c = Some ts" "select_json_str msg = json_str"
  shows "um_onMessage env c msg st = Inl (RuntimeError ''Invalid JSON: missing work_id or action'')"
  using assms
  by (simp add: um_onMessage_def unit_action_match_def run_remote_def remote_call_def field_or_empty_def Let_def)

theorem empty_work_id_escapes_witness:
  "um_onMessage sample_env 0 ''{\"b\":1}'' \<lparr>counter_port = 8001, sessions = (\<lambda>_. Some \<lparr>ts_port = 8000, ts_url = ''u'', ts_open = True\<rparr>),
       tcp_um = sample_um\<rparr> = Inl (RuntimeError ''Invalid JSON: missing work_id or action'')"
  using empty_work_id_escapes [of sample_env "''{\"b\":1}''" "request_fields [] ''setup''" "''1''" "''setup''"
      "\<lparr>counter_port = 8001, sessions = (\<lambda>_. Some \<lparr>ts_port = 8000, ts_url = ''u'', ts_open = True\<rparr>), tcp_um = sample_um\<rparr>" 0
      "\<lparr>ts_port = 8000, ts_url = ''u'', ts_open = True\<rparr>" "''{\"b\":1}''"]
  by (simp add: request_fields_def select_json_str_def sample_env_def)

text \<open>
  At the default log level an inference request for a unit that does not exist is dropped without an
  error reply: the branch that reports the failure belongs to the test of the log level.
\<close>

theorem unknown_unit_dropped:
  assumes "short_fmt (zmq_c_format um)" "0 \<le> port" "port \<le> int_max" "SAMPLE_LOG_WARN \<le> ue_log_level env" "json_str \<noteq> []"
    and "ue_fields env json_str = Some f" "f ''request_id'' = Some rid" "f ''work_id'' = Some wid" "f ''action'' = Some ''inference''"
    and "read_unit um wid = None" "wid \<noteq> []"
  shows "unit_action_match env port json_str um = Inr um"
proof -
  from fmt_url [OF assms(1)] obtain pre suf where
    "\<And>sz port. 0 \<le> port \<Longrightarrow> port \<le> int_max \<Longrightarrow> length (zmq_c_format um) + length (to_string port) \<le> sz \<or> 128 \<le> sz
      \<Longrightarrow> sprintf_i sz (zmq_c_format um) port = Inr (pre @ to_string port @ suf)"
    and "CHR 0x22 \<notin> set (pre @ suf)" "CHR 0x5C \<notin> set (pre @ suf)" by auto
  from this(1) [OF assms(2,3), of 128] show ?thesis using assms(4-11)
    by (simp add: unit_action_match_def run_inference_def zmq_bus_publisher_push_def)
qed

theorem unknown_unit_dropped_witness: "unit_action_match sample_env 8000 ''{\"action\":\"inference\"}'' sample_um = Inr sample_um"
  using unknown_unit_dropped [OF sample_short(1), of 8000 sample_env "''{\"action\":\"inference\"}''" "request_fields ''llm.1000'' ''inference''" "''1''" "''llm.1000''"]
  by (simp add: int_max_def SAMPLE_LOG_WARN_def request_fields_def sample_env_def read_unit_def sample_um_def)

end
