(* ===== verification/Unit_Sessions.thy ===== *)
theory Unit_Sessions
  imports Unit_Router Server_Life
begin

text \<open>
  The unit manager as a process: the callbacks of its TCP connections in the order in which connections
  make them (\<open>unit-manager/src/tcp_comm.cpp\<close>), the counter of session ports that two I/O threads share,
  and the end of the process on a signal (\<open>unit-manager/src/main.cpp\<close>, \<open>zmq_bus.cpp\<close>).
\<close>

section \<open>The contexts of connections\<close>

datatype um_event = Up nat | Msg nat string | Down nat

fun serve_event :: "um_env \<Rightarrow> um_event \<Rightarrow> tcp_state \<Rightarrow> tcp_state res" where
  "serve_event env (Up c) st = um_onConnection env c True st"
| "serve_event env (Msg c m) st = um_onMessage env c m st"
| "serve_event env (Down c) st = um_onConnection env c False st"

fun serve_events :: "um_env \<Rightarrow> um_event list \<Rightarrow> tcp_state \<Rightarrow> tcp_state res" where
  "serve_events env [] st = Inr st"
| "serve_events env (e # es) st = rbind (serve_event env e st) (serve_events env es)"

text \<open>
  A connection comes up once, then delivers messages, then goes down once: \<open>used\<close> are the connections that
  came up, \<open>opn\<close> those that have not gone down.
\<close>

fun opened :: "um_event \<Rightarrow> nat set \<Rightarrow> nat set" where
  "opened (Up c) opn = insert c opn"
| "opened (Msg c m) opn = opn"
| "opened (Down c) opn = opn - {c}"

fun events_ok :: "nat set \<Rightarrow> nat set \<Rightarrow> um_event list \<Rightarrow> bool" where
  "events_ok used opn [] \<longleftrightarrow> True"
| "events_ok used opn (Up c # es) \<longleftrightarrow> c \<notin> used \<and> events_ok (insert c used) (insert c opn) es"
| "events_ok used opn (Msg c m # es) \<longleftrightarrow> c \<in> opn \<and> events_ok used opn es"
| "events_ok used opn (Down c # es) \<longleftrightarrow> c \<in> opn \<and> events_ok used (opn - {c}) es"

text \<open>The type of a context: an open connection holds a session that listens, on a port of the range.\<close>

definition session_typed :: "TcpSession \<Rightarrow> bool" where
  "session_typed ts \<longleftrightarrow> ts_open ts \<and> 8000 \<le> ts_port ts \<and> ts_port ts \<le> 65535"

definition contexts_typed :: "nat set \<Rightarrow> tcp_state \<Rightarrow> bool" where
  "contexts_typed opn st \<longleftrightarrow> 8000 \<le> counter_port st \<and> counter_port st \<le> 65535 \<and>
     (\<forall>c \<in> opn. \<exists>ts. sessions st c = Some ts \<and> session_typed ts)"

lemma session_work_port: "session_work env port um = Inr ts \<Longrightarrow> ts_port ts = port \<and> ts_open ts"
  by (auto simp: session_work_def)

lemma context_preservation:
  assumes "contexts_typed opn st" "serve_event env e st = Inr st'"
  shows "contexts_typed (opened e opn) st'"
proof (cases e)
  case (Up c)
  then obtain ts where ts: "session_work env (counter_port st) (tcp_um st) = Inr ts"
      "st' = st\<lparr>sessions := (sessions st)(c := Some ts), counter_port := next_port (counter_port st)\<rparr>"
    using assms(2) by (auto simp: um_onConnection_def)
  have "session_typed ts" using session_work_port [OF ts(1)] assms(1) by (simp add: session_typed_def contexts_typed_def)
  then show ?thesis using assms(1) ts(2) Up by (auto simp: contexts_typed_def next_port_def)
next
  case (Msg c m)
  then show ?thesis using assms by (auto simp: um_onMessage_def contexts_typed_def split: option.splits)
next
  case (Down c)
  then obtain ts where "st' = st\<lparr>sessions := (sessions st)(c := Some (ts\<lparr>ts_open := False\<rparr>))\<rparr>"
    using assms(2) by (auto simp: um_onConnection_def split: option.splits)
  then show ?thesis using assms(1) Down by (auto simp: contexts_typed_def)
qed

lemma contexts_typed_run:
  "serve_events env evs st = Inr st' \<Longrightarrow> contexts_typed opn st \<Longrightarrow> events_ok used opn (evs @ es) \<Longrightarrow>
   \<exists>opn' used'. contexts_typed opn' st' \<and> events_ok used' opn' es"
proof (induction evs arbitrary: st opn used)
  case (Cons e evs)
  obtain st1 where st1: "serve_event env e st = Inr st1" "serve_events env evs st1 = Inr st'" using Cons.prems(1) by auto
  have "\<exists>used1. events_ok used1 (opened e opn) (evs @ es)" using Cons.prems(3) by (cases e) auto
  then show ?case using Cons.IH [OF st1(2) context_preservation [OF Cons.prems(2) st1(1)]] by blast
qed auto



section \<open>The counter of ports\<close>

text \<open>
  Two I/O threads take ports from one atomic counter, but the test for its end and the reset are separate
  operations: a connection fetches its port in one step, tests the counter in another, and resets it in a third.
\<close>

datatype port_pc = Fetching | Testing int | Resetting int | HasPort int

record port_state =
  ps_counter :: int
  ps_conns :: "port_pc list"

definition port_step :: "nat \<Rightarrow> port_state \<Rightarrow> port_state" where
  "port_step i s =
     (case ps_conns s ! i of
        Fetching \<Rightarrow> s\<lparr>ps_counter := ps_counter s + 1, ps_conns := (ps_conns s)[i := Testing (ps_counter s)]\<rparr>
      | Testing p \<Rightarrow> s\<lparr>ps_conns := (ps_conns s)[i := (if ps_counter s > 65535 then Resetting p else HasPort p)]\<rparr>
      | Resetting p \<Rightarrow> s\<lparr>ps_counter := 8000, ps_conns := (ps_conns s)[i := HasPort p]\<rparr>
      | HasPort p \<Rightarrow> s)"

fun port_run :: "nat list \<Rightarrow> port_state \<Rightarrow> port_state" where
  "port_run [] s = s"
| "port_run (i # is) s = port_run is (if i < length (ps_conns s) then port_step i s else s)"

fun port_of :: "port_pc \<Rightarrow> int option" where
  "port_of Fetching = None"
| "port_of (Testing p) = Some p"
| "port_of (Resetting p) = Some p"
| "port_of (HasPort p) = Some p"

text \<open>While the counter cannot reach its end, the ports handed out are different, in every interleaving.\<close>

definition ports_fresh :: "int \<Rightarrow> port_state \<Rightarrow> bool" where
  "ports_fresh lo s \<longleftrightarrow> ps_counter s = lo + int (length (filter (\<lambda>c. c \<noteq> Fetching) (ps_conns s))) \<and> (\<forall>p. Resetting p \<notin> set (ps_conns s)) \<and>
     (\<forall>i p. i < length (ps_conns s) \<longrightarrow> port_of (ps_conns s ! i) = Some p \<longrightarrow> lo \<le> p \<and> p < ps_counter s) \<and>
     (\<forall>i j p. i < length (ps_conns s) \<longrightarrow> j < length (ps_conns s) \<longrightarrow> port_of (ps_conns s ! i) = Some p \<longrightarrow> port_of (ps_conns s ! j) = Some p \<longrightarrow> i = j)"

lemma filter_list_update:
  "i < length xs \<Longrightarrow> \<not> P (xs ! i) \<Longrightarrow> P y \<Longrightarrow> length (filter P (xs[i := y])) = Suc (length (filter P xs))"
  "i < length xs \<Longrightarrow> P (xs ! i) \<Longrightarrow> P y \<Longrightarrow> length (filter P (xs[i := y])) = length (filter P xs)"
proof (induction xs arbitrary: i)
  case (Cons x xs)
  { case 1 then show ?case using Cons(1) [of "i - 1"] by (cases i) auto
  next case 2 then show ?case using Cons(2) [of "i - 1"] by (cases i) auto }
qed simp_all

lemma port_step_fresh:
  assumes "ports_fresh lo s" "i < length (ps_conns s)" "lo + int (length (ps_conns s)) \<le> 65535"
  shows "ports_fresh lo (port_step i s)"
proof -
  let ?cs = "ps_conns s" and ?busy = "\<lambda>c. c \<noteq> Fetching"
  have s: "ps_counter s = lo + int (length (filter ?busy ?cs))" "\<And>i p. i < length ?cs \<Longrightarrow> port_of (?cs ! i) = Some p \<Longrightarrow> lo \<le> p \<and> p < ps_counter s"
      "\<And>i j p. i < length ?cs \<Longrightarrow> j < length ?cs \<Longrightarrow> port_of (?cs ! i) = Some p \<Longrightarrow> port_of (?cs ! j) = Some p \<Longrightarrow> i = j"
    and nr: "\<And>p. Resetting p \<notin> set ?cs"
    using assms(1) unfolding ports_fresh_def by blast+
  have upd: "Resetting p \<notin> set (?cs[i := y])" if "\<And>q. y \<noteq> Resetting q" for p y
    using that nr set_update_subset_insert [of ?cs i y] by fastforce
  show ?thesis
  proof (cases "?cs ! i")
    case Fetching
    let ?c = "ps_counter s"
    have lo: "lo \<le> ?c" using s(1) by simp
    have step: "port_step i s = s\<lparr>ps_counter := ?c + 1, ps_conns := ?cs[i := Testing ?c]\<rparr>" using Fetching by (simp add: port_step_def)
    have "length (filter ?busy (?cs[i := Testing ?c])) = Suc (length (filter ?busy ?cs))"
      using assms(2) Fetching by (intro filter_list_update(1)) simp_all
    moreover have new: "port_of (?cs[i := Testing ?c] ! j) = (if j = i then Some ?c else port_of (?cs ! j))" for j
      using assms(2) by (simp add: nth_list_update)
    moreover have "lo \<le> p \<and> p < ?c + 1" if "j < length ?cs" "port_of (?cs[i := Testing ?c] ! j) = Some p" for j p
      using that s(2) [of j p] lo by (auto simp: new split: if_splits)
    moreover have "j = k" if "j < length ?cs" "k < length ?cs" "port_of (?cs[i := Testing ?c] ! j) = Some p" "port_of (?cs[i := Testing ?c] ! k) = Some p" for j k p
      using that s(3) [of j k p] s(2) [of j p] s(2) [of k p] by (auto simp: new split: if_splits)
    ultimately show ?thesis unfolding step ports_fresh_def using s(1) upd by simp
  next
    case (Testing p)
    have "length (filter ?busy ?cs) \<le> length ?cs" by (rule length_filter_le)
    then have "\<not> 65535 < ps_counter s" using s(1) assms(3) by linarith
    then have step: "port_step i s = s\<lparr>ps_conns := ?cs[i := HasPort p]\<rparr>" using Testing by (simp add: port_step_def)
    have "length (filter ?busy (?cs[i := HasPort p])) = length (filter ?busy ?cs)"
      using assms(2) Testing by (intro filter_list_update(2)) simp_all
    moreover have "port_of (?cs[i := HasPort p] ! j) = port_of (?cs ! j)" for j
      using assms(2) Testing by (cases "j = i") simp_all
    ultimately show ?thesis unfolding step ports_fresh_def using s upd by simp
  next
    case (Resetting p)
    then show ?thesis using nr [of p] assms(2) nth_mem by metis
  next
    case (HasPort p)
    then show ?thesis using assms(1) by (simp add: port_step_def)
  qed
qed

lemma port_step_length [simp]: "length (ps_conns (port_step i s)) = length (ps_conns s)"
  by (simp add: port_step_def split: port_pc.splits)

lemma port_run_fresh:
  "ports_fresh lo s \<Longrightarrow> lo + int (length (ps_conns s)) \<le> 65535 \<Longrightarrow> ports_fresh lo (port_run sched s) \<and> length (ps_conns (port_run sched s)) = length (ps_conns s)"
proof (induction sched arbitrary: s)
  case (Cons i sched)
  then show ?case using Cons.IH [of "port_step i s"] port_step_fresh [of lo s i] by auto
qed simp

theorem concurrent_ports_distinct:
  assumes "lo + int n \<le> 65535" "t = port_run sched \<lparr>ps_counter = lo, ps_conns = replicate n Fetching\<rparr>"
    and "i < n" "j < n" "port_of (ps_conns t ! i) = Some p" "port_of (ps_conns t ! j) = Some p"
  shows "i = j \<and> lo \<le> p \<and> p < 65535"
proof -
  let ?s = "\<lparr>ps_counter = lo, ps_conns = replicate n Fetching\<rparr>"
  have "ports_fresh lo ?s" by (simp add: ports_fresh_def)
  then have t: "ports_fresh lo t" "length (ps_conns t) = n" using port_run_fresh [of lo ?s sched] assms(1,2) by simp_all
  have "length (filter (\<lambda>c. c \<noteq> Fetching) (ps_conns t)) \<le> n" using t(2) length_filter_le by metis
  then have "ps_counter t \<le> 65535" using t(1) assms(1) by (simp add: ports_fresh_def)
  then show ?thesis using t assms(3-6) unfolding ports_fresh_def by fastforce
qed

text \<open>
  At the end of the range the reset of one thread can undo the increments of another: a port beyond the range
  is handed out, and two connections get the same one.
\<close>

theorem port_counter_race:
  "ps_conns (port_run [0, 1, 0, 1, 0, 2, 1, 3] \<lparr>ps_counter = 65535, ps_conns = replicate 4 Fetching\<rparr>)
     = [HasPort 65535, HasPort 65536, Testing 8000, Testing 8000]"
  by (simp add: port_step_def numeral_eq_Suc)

section \<open>The end of the process\<close>

text \<open>
  \<open>zmq_bus_com\<close>: stopping a session closes its channel, and its destructor stops it unless it was stopped.
\<close>

definition zmq_bus_com_stop :: "TcpSession \<Rightarrow> TcpSession" where
  "zmq_bus_com_stop ts = ts\<lparr>ts_open := False\<rparr>"

definition destroy_zmq_bus_com :: "TcpSession \<Rightarrow> TcpSession" where
  "destroy_zmq_bus_com ts = (if ts_open ts then zmq_bus_com_stop ts else ts)"

record um_process =
  up_quit :: bool
  up_exit :: bool
  up_lock :: bool
  up_server :: "server_obj option"
  up_freed :: "server_obj option"
  up_rpc :: "um_state pzmq option"
  up_files :: "string list"

text \<open>\<open>cs\<close> are the connections of the server in the order of its table.\<close>

definition tcp_stop_work :: "nat list \<Rightarrow> um_process \<Rightarrow> um_process res" where
  "tcp_stop_work cs p =
     (case up_server p of
        None \<Rightarrow> Inr (p\<lparr>up_quit := True\<rparr>)
      | Some ob \<Rightarrow> rbind (destroy_TcpServer cs ob) (\<lambda>ob'. Inr (p\<lparr>up_quit := True, up_server := None, up_freed := Some ob'\<rparr>)))"

definition remote_server_stop_work :: "um_process \<Rightarrow> um_process res" where
  "remote_server_stop_work p =
     (case up_rpc p of
        None \<Rightarrow> Inr p
      | Some z \<Rightarrow> rbind (destroy_pzmq (up_files p) z) (\<lambda>files. Inr (p\<lparr>up_rpc := None, up_files := files\<rparr>)))"

definition all_stop_work :: "nat list \<Rightarrow> um_process \<Rightarrow> um_process res" where
  "all_stop_work cs p = rbind (tcp_stop_work cs p) remote_server_stop_work"

text \<open>The signal handler; destroying the spin lock twice is undefined.\<close>

definition sigint :: "nat list \<Rightarrow> um_process \<Rightarrow> um_process res" where
  "sigint cs p =
     rbind (all_stop_work cs (p\<lparr>up_exit := True\<rparr>)) (\<lambda>p1. if up_lock p1 then Inr (p1\<lparr>up_lock := False\<rparr>) else Inl UndefinedBehaviour)"

lemma sigint_effect:
  assumes "sigint cs p = Inr p'"
  shows "up_exit p' \<and> up_quit p' \<and> up_server p' = None \<and> up_rpc p' = None \<and> \<not> up_lock p'"
proof -
  obtain p1 p2 where "tcp_stop_work cs (p\<lparr>up_exit := True\<rparr>) = Inr p1" "remote_server_stop_work p1 = Inr p2" "p' = p2\<lparr>up_lock := False\<rparr>"
    using assms by (auto simp: sigint_def all_stop_work_def split: if_splits)
  moreover from this(1) have "up_exit p1" "up_quit p1" "up_server p1 = None"
    by (cases "up_server p", auto simp: tcp_stop_work_def)+
  ultimately show ?thesis by (cases "up_rpc p1") (auto simp: remote_server_stop_work_def)
qed

text \<open>A second signal, while the process is still going down, destroys the lock again.\<close>

theorem second_signal_undefined:
  assumes "sigint cs p = Inr p'"
  shows "sigint cs' p' = Inl UndefinedBehaviour"
  using sigint_effect [OF assms] by (simp add: sigint_def all_stop_work_def tcp_stop_work_def remote_server_stop_work_def)


definition running_process :: um_process where
  "running_process = \<lparr>up_quit = False, up_exit = False, up_lock = True, up_server = Some (owner_of accepted_one), up_freed = None,
     up_rpc = None, up_files = []\<rparr>"


end
