(* ===== verification/Tcp_Client.thy ===== *)
theory Tcp_Client
  imports Cpp_Base "HOL-Library.Multiset"
begin

text \<open>
  The connecting side of the reactor: \<open>Connector\<close> (\<open>network/src/Connector.cc\<close>) and \<open>TcpClient\<close>
  (\<open>network/src/TcpClient.cc\<close>).  Sockets are numbered in the order of their creation; what was closed and
  what was handed to the client is recorded.  The answers of the kernel are arguments.
\<close>

section \<open>The connector\<close>

datatype States = KDisconnected | KConnecting | KConnected

datatype connect_errno =
    CONNECT_OK | EINPROGRESS | EINTR | EISCONN
  | CONNECT_EAGAIN | EADDRINUSE | EADDRNOTAVAIL | ECONNREFUSED | ENETUNREACH
  | EACCES | EPERM | EAFNOSUPPORT | EALREADY | EBADF | EFAULT | ENOTSOCK | CONNECT_OTHER

datatype k_functor = StartInLoop | StopInLoop | ResetChannel

definition kMaxRetryDelayMs :: int where "kMaxRetryDelayMs = 30 * 1000"
definition kInitRetryDelayMs :: int where "kInitRetryDelayMs = 500"

record Connector =
  k_connect :: bool
  k_state :: States
  k_channel :: "nat option"
  retryDelayMs :: int
  k_queue :: "k_functor list"
  k_socks :: nat
  k_closed :: "nat list"
  k_handed :: "nat list"

definition new_Connector :: Connector where
  "new_Connector =
     \<lparr>k_connect = False, k_state = KDisconnected, k_channel = None, retryDelayMs = kInitRetryDelayMs,
      k_queue = [], k_socks = 0, k_closed = [], k_handed = []\<rparr>"

definition close_sock :: "nat \<Rightarrow> Connector \<Rightarrow> Connector" where
  "close_sock fd k = k\<lparr>k_closed := k_closed k @ [fd]\<rparr>"

text \<open>The timer for the next attempt is commented out in the code: a failed attempt is given up.\<close>

definition retry :: "nat \<Rightarrow> Connector \<Rightarrow> Connector" where
  "retry fd k = (close_sock fd k)\<lparr>k_state := KDisconnected\<rparr>"

definition connecting :: "nat \<Rightarrow> Connector \<Rightarrow> Connector res" where
  "connecting fd k = cpp_assert (k_channel k = None) (Inr (k\<lparr>k_state := KConnecting, k_channel := Some fd\<rparr>))"

definition Connector_connect :: "connect_errno \<Rightarrow> Connector \<Rightarrow> Connector res" where
  "Connector_connect err k0 =
     (let fd = k_socks k0; k = k0\<lparr>k_socks := Suc fd\<rparr>
      in if err \<in> {CONNECT_OK, EINPROGRESS, EINTR, EISCONN} then connecting fd k
         else if err \<in> {CONNECT_EAGAIN, EADDRINUSE, EADDRNOTAVAIL, ECONNREFUSED, ENETUNREACH} then Inr (retry fd k)
         else Inr (close_sock fd k))"

definition startInLoop :: "connect_errno \<Rightarrow> Connector \<Rightarrow> Connector res" where
  "startInLoop err k =
     cpp_assert (k_state k = KDisconnected) (if k_connect k then Connector_connect err k else Inr k)"

definition Connector_start :: "bool \<Rightarrow> connect_errno \<Rightarrow> Connector \<Rightarrow> Connector res" where
  "Connector_start in_loop err k0 =
     (let k = k0\<lparr>k_connect := True\<rparr>
      in if in_loop then startInLoop err k else Inr (k\<lparr>k_queue := k_queue k @ [StartInLoop]\<rparr>))"

definition Connector_stop :: "Connector \<Rightarrow> Connector" where
  "Connector_stop k = k\<lparr>k_connect := False, k_queue := k_queue k @ [StopInLoop]\<rparr>"

definition removeAndResetChannel :: "Connector \<Rightarrow> (nat \<times> Connector) res" where
  "removeAndResetChannel k =
     (case k_channel k of
        None \<Rightarrow> Inl NullDeref
      | Some fd \<Rightarrow> Inr (fd, k\<lparr>k_queue := k_queue k @ [ResetChannel]\<rparr>))"

definition stopInLoop :: "Connector \<Rightarrow> Connector res" where
  "stopInLoop k =
     (if k_state k = KConnecting
      then rbind (removeAndResetChannel (k\<lparr>k_state := KDisconnected\<rparr>)) (\<lambda>(fd, k1). Inr (retry fd k1))
      else Inr k)"

definition restart :: "connect_errno \<Rightarrow> Connector \<Rightarrow> Connector res" where
  "restart err k = startInLoop err (k\<lparr>k_state := KDisconnected, retryDelayMs := kInitRetryDelayMs, k_connect := True\<rparr>)"

text \<open>The result says whether the socket was handed to the client.\<close>

definition Connector_handleWrite :: "int \<Rightarrow> bool \<Rightarrow> Connector \<Rightarrow> (nat option \<times> Connector) res" where
  "Connector_handleWrite so_error self_connect k =
     (if k_state k = KConnecting
      then rbind (removeAndResetChannel k) (\<lambda>(fd, k1).
        if so_error \<noteq> 0 then Inr (None, retry fd k1)
        else if self_connect then Inr (None, retry fd k1)
        else let k2 = k1\<lparr>k_state := KConnected\<rparr>
             in if k_connect k2 then Inr (Some fd, k2\<lparr>k_handed := k_handed k2 @ [fd]\<rparr>)
                else Inr (None, close_sock fd k2))
      else cpp_assert (k_state k = KDisconnected) (Inr (None, k)))"

definition Connector_handleError :: "Connector \<Rightarrow> Connector res" where
  "Connector_handleError k =
     (if k_state k = KConnecting
      then rbind (removeAndResetChannel k) (\<lambda>(fd, k1). Inr (retry fd k1))
      else Inr k)"

definition run_k_functor :: "connect_errno \<Rightarrow> k_functor \<Rightarrow> Connector \<Rightarrow> Connector res" where
  "run_k_functor err f k =
     (case f of
        StartInLoop \<Rightarrow> startInLoop err k
      | StopInLoop \<Rightarrow> stopInLoop k
      | ResetChannel \<Rightarrow> Inr (k\<lparr>k_channel := None\<rparr>))"

section \<open>The client\<close>

text \<open>A connection is known by its socket; \<open>cl_removed\<close> are the connections queued for destruction.\<close>

record TcpClient =
  connector :: Connector
  cl_retry :: bool
  cl_connect :: bool
  cl_nextConnId :: int
  cl_connection :: "nat option"
  cl_removed :: "nat list"
  cl_shutdowns :: "nat list"

definition new_TcpClient :: TcpClient where
  "new_TcpClient =
     \<lparr>connector = new_Connector, cl_retry = False, cl_connect = True, cl_nextConnId = 1, cl_connection = None,
      cl_removed = [], cl_shutdowns = []\<rparr>"

definition lift_connector :: "(Connector \<Rightarrow> Connector res) \<Rightarrow> TcpClient \<Rightarrow> TcpClient res" where
  "lift_connector f c = rbind (f (connector c)) (\<lambda>k. Inr (c\<lparr>connector := k\<rparr>))"

definition TcpClient_connect :: "bool \<Rightarrow> connect_errno \<Rightarrow> TcpClient \<Rightarrow> TcpClient res" where
  "TcpClient_connect in_loop err c = lift_connector (Connector_start in_loop err) (c\<lparr>cl_connect := True\<rparr>)"

definition TcpClient_disconnect :: "TcpClient \<Rightarrow> TcpClient" where
  "TcpClient_disconnect c0 =
     (let c = c0\<lparr>cl_connect := False\<rparr>
      in case cl_connection c of None \<Rightarrow> c | Some fd \<Rightarrow> c\<lparr>cl_shutdowns := cl_shutdowns c @ [fd]\<rparr>)"

definition TcpClient_stop :: "TcpClient \<Rightarrow> TcpClient" where
  "TcpClient_stop c = c\<lparr>cl_connect := False, connector := Connector_stop (connector c)\<rparr>"

definition TcpClient_newConnection :: "nat \<Rightarrow> TcpClient \<Rightarrow> TcpClient" where
  "TcpClient_newConnection fd c = c\<lparr>cl_nextConnId := cl_nextConnId c + 1, cl_connection := Some fd\<rparr>"

definition TcpClient_removeConnection :: "connect_errno \<Rightarrow> nat \<Rightarrow> TcpClient \<Rightarrow> TcpClient res" where
  "TcpClient_removeConnection err fd c0 =
     cpp_assert (cl_connection c0 = Some fd)
       (let c = c0\<lparr>cl_connection := None, cl_removed := cl_removed c0 @ [fd]\<rparr>
        in if cl_retry c \<and> cl_connect c then lift_connector (restart err) c else Inr c)"

text \<open>The write callback of the connector's channel, with the client's callback.\<close>

definition client_handleWrite :: "int \<Rightarrow> bool \<Rightarrow> TcpClient \<Rightarrow> TcpClient res" where
  "client_handleWrite so_error self_connect c =
     rbind (Connector_handleWrite so_error self_connect (connector c)) (\<lambda>(new, k).
       let c1 = c\<lparr>connector := k\<rparr>
       in Inr (case new of None \<Rightarrow> c1 | Some fd \<Rightarrow> TcpClient_newConnection fd c1))"

section \<open>Steps\<close>

text \<open>
  Calls from other threads, the events of the connector's channel (which is watched while the
  connector is connecting), the close callback of the connection, and the loop running its functors.
\<close>

inductive cl_step :: "TcpClient \<Rightarrow> TcpClient \<Rightarrow> bool" where
  cl_connect: "TcpClient_connect False err c = Inr d \<Longrightarrow> cl_step c d"
| cl_stop: "cl_step c (TcpClient_stop c)"
| cl_disconnect: "cl_step c (TcpClient_disconnect c)"
| cl_enable_retry: "cl_step c (c\<lparr>cl_retry := True\<rparr>)"
| cl_write: "k_state (connector c) = KConnecting \<Longrightarrow> client_handleWrite so self c = Inr d \<Longrightarrow> cl_step c d"
| cl_error: "k_state (connector c) = KConnecting \<Longrightarrow> lift_connector Connector_handleError c = Inr d \<Longrightarrow> cl_step c d"
| cl_closed: "cl_connection c = Some fd \<Longrightarrow> TcpClient_removeConnection err fd c = Inr d \<Longrightarrow> cl_step c d"
| cl_run: "k_queue (connector c) = f # fs \<Longrightarrow>
     lift_connector (run_k_functor err f) (c\<lparr>connector := (connector c)\<lparr>k_queue := fs\<rparr>\<rparr>) = Inr d \<Longrightarrow> cl_step c d"

section \<open>Accounting for sockets\<close>

definition in_progress :: "Connector \<Rightarrow> nat list" where
  "in_progress k = (if k_state k = KConnecting then (case k_channel k of None \<Rightarrow> [] | Some fd \<Rightarrow> [fd]) else [])"

definition sock_ids :: "nat \<Rightarrow> nat multiset" where
  "sock_ids n = mset [0 ..< n]"

lemma sock_ids_Suc [simp]: "sock_ids (Suc n) = add_mset n (sock_ids n)"
  unfolding sock_ids_def by simp

definition sockets_ok :: "Connector \<Rightarrow> bool" where
  "sockets_ok k \<longleftrightarrow> mset (k_closed k) + mset (k_handed k) + mset (in_progress k) = sock_ids (k_socks k)"

definition channel_ok :: "Connector \<Rightarrow> bool" where
  "channel_ok k \<longleftrightarrow> (k_state k = KConnecting \<longrightarrow> k_channel k \<noteq> None)
     \<and> count_list (k_queue k) ResetChannel = (if k_channel k \<noteq> None \<and> k_state k \<noteq> KConnecting then 1 else 0)"

definition k_ok :: "Connector \<Rightarrow> bool" where
  "k_ok k \<longleftrightarrow> sockets_ok k \<and> channel_ok k"

lemmas k_defs = k_ok_def sockets_ok_def channel_ok_def in_progress_def

lemma Connector_connect_cases:
  "Connector_connect err k \<in> {connecting (k_socks k) (k\<lparr>k_socks := Suc (k_socks k)\<rparr>),
     Inr (retry (k_socks k) (k\<lparr>k_socks := Suc (k_socks k)\<rparr>)), Inr (close_sock (k_socks k) (k\<lparr>k_socks := Suc (k_socks k)\<rparr>))}"
  unfolding Connector_connect_def Let_def by simp

lemma Connector_connect_ok:
  assumes "k_ok k" "k_state k = KDisconnected" "Connector_connect err k = Inr k'"
  shows "k_ok k' \<and> k_handed k' = k_handed k \<and> k_state k' \<noteq> KConnected"
proof -
  consider "connecting (k_socks k) (k\<lparr>k_socks := Suc (k_socks k)\<rparr>) = Inr k'"
    | "k' = retry (k_socks k) (k\<lparr>k_socks := Suc (k_socks k)\<rparr>)" | "k' = close_sock (k_socks k) (k\<lparr>k_socks := Suc (k_socks k)\<rparr>)"
    using Connector_connect_cases [of err k] assms(3) by auto
  then show ?thesis
    using assms(1,2) by cases (auto simp: connecting_def retry_def close_sock_def k_defs)
qed

lemma startInLoop_ok:
  assumes "k_ok k" "startInLoop err k = Inr k'"
  shows "k_ok k' \<and> k_handed k' = k_handed k \<and> k_state k' \<noteq> KConnected"
  using assms Connector_connect_ok [of k err k'] by (auto simp: startInLoop_def split: if_splits)

lemma removed_retry_ok:
  assumes "k_ok k" "k_state k = KConnecting" "k_channel k = Some fd"
  shows "k_ok (retry fd (k\<lparr>k_queue := k_queue k @ [ResetChannel]\<rparr>))"
  using assms by (auto simp: retry_def close_sock_def k_defs)

lemma k_okD: "k_ok k \<Longrightarrow> k_state k = KConnecting \<Longrightarrow> \<exists>fd. k_channel k = Some fd"
  by (auto simp: k_ok_def channel_ok_def)

lemma Connector_handleError_ok:
  assumes "k_ok k" "k_state k = KConnecting"
  shows "\<exists>k'. Connector_handleError k = Inr k' \<and> k_ok k' \<and> k_handed k' = k_handed k \<and> k_state k' = KDisconnected"
  using k_okD [OF assms] removed_retry_ok [OF assms] assms
  by (auto simp: Connector_handleError_def removeAndResetChannel_def) (simp_all add: retry_def close_sock_def)

lemma stopInLoop_ok:
  assumes "k_ok k"
  shows "\<exists>k'. stopInLoop k = Inr k' \<and> k_ok k' \<and> k_handed k' = k_handed k \<and> (k_state k' = KConnected \<longleftrightarrow> k_state k = KConnected)"
proof (cases "k_state k = KConnecting")
  case True
  with assms obtain fd where fd: "k_channel k = Some fd" using k_okD by blast
  from removed_retry_ok [OF assms True this] show ?thesis using True fd
    by (auto simp: stopInLoop_def removeAndResetChannel_def retry_def close_sock_def)
qed (use assms in \<open>simp add: stopInLoop_def\<close>)

lemma run_k_functor_ok:
  assumes "k_ok k" "k_queue k = f # fs" "run_k_functor err f (k\<lparr>k_queue := fs\<rparr>) = Inr k'"
  shows "k_ok k' \<and> k_handed k' = k_handed k \<and> (k_state k' = KConnected \<longrightarrow> k_state k = KConnected)"
proof (cases f)
  case StartInLoop
  then have "k_ok (k\<lparr>k_queue := fs\<rparr>)" using assms(1,2) by (auto simp: k_defs)
  from startInLoop_ok [OF this] assms(3) StartInLoop show ?thesis by (auto simp: run_k_functor_def)
next
  case StopInLoop
  then have "k_ok (k\<lparr>k_queue := fs\<rparr>)" using assms(1,2) by (auto simp: k_defs)
  from stopInLoop_ok [OF this] assms(3) StopInLoop show ?thesis by (auto simp: run_k_functor_def)
next
  case ResetChannel
  with assms have "k_state k \<noteq> KConnecting" by (auto simp: k_defs split: if_splits)
  with assms ResetChannel show ?thesis by (auto simp: run_k_functor_def k_defs split: if_splits)
qed

lemma Connector_handleWrite_ok:
  assumes "k_ok k" "k_state k = KConnecting"
  shows "\<exists>new k'. Connector_handleWrite so self k = Inr (new, k') \<and> k_ok k'
    \<and> k_handed k' = k_handed k @ (case new of None \<Rightarrow> [] | Some fd \<Rightarrow> [fd]) \<and> (new \<noteq> None \<longrightarrow> k_state k' = KConnected)"
proof -
  obtain fd where fd: "k_channel k = Some fd" using k_okD [OF assms] by blast
  from removed_retry_ok [OF assms this] assms fd show ?thesis
    by (auto simp: Connector_handleWrite_def removeAndResetChannel_def Let_def)
       (auto simp: retry_def close_sock_def k_defs split: if_splits)
qed

section \<open>The client's connection\<close>

definition cl_ok :: "TcpClient \<Rightarrow> bool" where
  "cl_ok c \<longleftrightarrow> k_ok (connector c)
     \<and> mset (k_handed (connector c)) = mset (cl_removed c) + mset (case cl_connection c of None \<Rightarrow> [] | Some fd \<Rightarrow> [fd])
     \<and> (cl_connection c \<noteq> None \<longrightarrow> k_state (connector c) = KConnected)"

lemma cl_ok_connector:
  assumes "cl_ok c" "k_ok k" "k_handed k = k_handed (connector c)" "cl_connection c \<noteq> None \<longrightarrow> k_state k = KConnected"
  shows "cl_ok (c\<lparr>connector := k\<rparr>)"
  using assms by (simp add: cl_ok_def)

lemma queue_other_ok: "k_ok k \<Longrightarrow> f \<noteq> ResetChannel \<Longrightarrow> k_ok (k\<lparr>k_connect := b, k_queue := k_queue k @ [f]\<rparr>)"
  by (auto simp: k_defs)

text \<open>Every started connection is the client's or has been removed; only the removal may connect again.\<close>

lemma startInLoop_connected: "startInLoop err k = Inr k' \<Longrightarrow> k_state k = KDisconnected"
  by (simp add: startInLoop_def)

lemma cl_removeConnection_ok:
  assumes "cl_ok c" "TcpClient_removeConnection err fd c = Inr d"
  shows "cl_ok d"
proof -
  let ?k = "(connector c)\<lparr>k_state := KDisconnected, retryDelayMs := kInitRetryDelayMs, k_connect := True\<rparr>"
  have conn: "cl_connection c = Some fd" using assms(2) by (simp add: TcpClient_removeConnection_def)
  then have "k_ok (connector c)" "k_state (connector c) = KConnected" using assms(1) by (auto simp: cl_ok_def)
  then have k: "k_ok ?k" by (auto simp: k_defs)
  have base: "cl_ok (c\<lparr>cl_connection := None, cl_removed := cl_removed c @ [fd]\<rparr>)"
    using assms(1) conn by (simp add: cl_ok_def)
  show ?thesis
  proof (cases "cl_retry c \<and> cl_connect c")
    case True
    then obtain k' where "startInLoop err ?k = Inr k'" "d = c\<lparr>cl_connection := None, cl_removed := cl_removed c @ [fd], connector := k'\<rparr>"
      using assms(2) conn by (auto simp: TcpClient_removeConnection_def lift_connector_def restart_def)
    with startInLoop_ok [OF k] cl_ok_connector [OF base, of k'] show ?thesis by simp
  next
    case False
    then show ?thesis using assms(2) conn base by (auto simp: TcpClient_removeConnection_def Let_def)
  qed
qed

lemma cl_write_ok:
  assumes "cl_ok c" "k_state (connector c) = KConnecting"
  shows "\<exists>d. client_handleWrite so self c = Inr d \<and> cl_ok d"
proof -
  have "k_ok (connector c)" "cl_connection c = None" using assms by (auto simp: cl_ok_def)
  from Connector_handleWrite_ok [OF this(1) assms(2), of so self] obtain new k' where
    "Connector_handleWrite so self (connector c) = Inr (new, k')" "k_ok k'"
    "k_handed k' = k_handed (connector c) @ (case new of None \<Rightarrow> [] | Some fd \<Rightarrow> [fd])" "new \<noteq> None \<longrightarrow> k_state k' = KConnected"
    by blast
  with \<open>cl_connection c = None\<close> assms(1) show ?thesis
    by (auto simp: client_handleWrite_def TcpClient_newConnection_def cl_ok_def split: option.splits)
qed

lemma cl_error_ok:
  assumes "cl_ok c" "k_state (connector c) = KConnecting"
  shows "\<exists>d. lift_connector Connector_handleError c = Inr d \<and> cl_ok d"
proof -
  have c: "k_ok (connector c)" "cl_connection c = None" using assms by (auto simp: cl_ok_def)
  from Connector_handleError_ok [OF this(1) assms(2)] obtain k' where
    "Connector_handleError (connector c) = Inr k'" "k_ok k'" "k_handed k' = k_handed (connector c)" by blast
  with cl_ok_connector [OF assms(1), of k'] c show ?thesis by (simp add: lift_connector_def)
qed

lemma cl_run_ok:
  assumes "cl_ok c" "k_queue (connector c) = f # fs"
    "lift_connector (run_k_functor err f) (c\<lparr>connector := (connector c)\<lparr>k_queue := fs\<rparr>\<rparr>) = Inr d"
  shows "cl_ok d"
proof -
  obtain k' where k': "run_k_functor err f ((connector c)\<lparr>k_queue := fs\<rparr>) = Inr k'" "d = c\<lparr>connector := k'\<rparr>"
    using assms(3) by (auto simp: lift_connector_def)
  have "k_ok (connector c)" using assms(1) by (simp add: cl_ok_def)
  from run_k_functor_ok [OF this assms(2) k'(1)] have "k_ok k'" "k_handed k' = k_handed (connector c)" by simp_all
  moreover have "k_state k' = KConnected" if "cl_connection c \<noteq> None"
  proof -
    have "k_state (connector c) = KConnected" using that assms(1) by (simp add: cl_ok_def)
    then show ?thesis using k'(1)
      by (cases f) (auto simp: run_k_functor_def stopInLoop_def dest: startInLoop_connected)
  qed
  ultimately show ?thesis using cl_ok_connector [OF assms(1), of k'] k'(2) by blast
qed

lemma cl_step_ok:
  assumes "cl_ok c" "cl_step c d"
  shows "cl_ok d"
  using assms(2)
proof cases
  case cl_connect
  then show ?thesis using assms(1) queue_other_ok [of "connector c" StartInLoop True]
    by (auto simp: TcpClient_connect_def lift_connector_def Connector_start_def cl_ok_def Let_def)
next
  case cl_stop
  then show ?thesis using assms(1) queue_other_ok [of "connector c" StopInLoop False]
    by (simp add: TcpClient_stop_def Connector_stop_def cl_ok_def)
next
  case cl_disconnect
  then show ?thesis using assms(1) by (auto simp: TcpClient_disconnect_def cl_ok_def Let_def split: option.splits)
next
  case cl_enable_retry
  then show ?thesis using assms(1) by (simp add: cl_ok_def)
next
  case (cl_write so self)
  with cl_write_ok [OF assms(1), of so self] show ?thesis by auto
next
  case cl_error
  with cl_error_ok [OF assms(1)] show ?thesis by auto
next
  case cl_closed
  with cl_removeConnection_ok [OF assms(1)] show ?thesis by blast
next
  case cl_run
  with cl_run_ok [OF assms(1)] show ?thesis by blast
qed

lemma reachable_cl_ok: "reachable (\<lambda>c. c = new_TcpClient) cl_step c \<Longrightarrow> cl_ok c"
proof (erule reachable_invariant)
  show "cl_ok c" if "c = new_TcpClient" for c
    using that by (simp add: cl_ok_def k_defs new_TcpClient_def new_Connector_def sock_ids_def)
qed (rule cl_step_ok)

section \<open>Properties\<close>



section \<open>Destruction\<close>

text \<open>
  The destructor: an established connection gets a close callback that does not need the client, and is closed when
  nobody else holds it (the first component); without one the connector is stopped.  The client is the only owner
  of its connector, whose destructor asserts that it has no channel; the functors the connector has queued refer to it
  by its plain pointer and stay in the loop (the second component).
\<close>

definition destroy_Connector :: "Connector \<Rightarrow> k_functor list res" where
  "destroy_Connector k = cpp_assert (k_channel k = None) (Inr (k_queue k))"

definition destroy_TcpClient :: "bool \<Rightarrow> TcpClient \<Rightarrow> (nat list \<times> k_functor list) res" where
  "destroy_TcpClient unique c =
     (case cl_connection c of
        Some fd \<Rightarrow> rbind (destroy_Connector (connector c)) (\<lambda>fs. Inr (if unique then [fd] else [], fs))
      | None \<Rightarrow> rbind (destroy_Connector (Connector_stop (connector c))) (\<lambda>fs. Inr ([], fs)))"

text \<open>The loop then runs what is queued, on a connector that is gone.\<close>

definition run_orphaned :: "k_functor list \<Rightarrow> unit res" where
  "run_orphaned fs = (if fs = [] then Inr () else Inl UndefinedBehaviour)"

text \<open>
  A client can be destroyed without an assertion and without leaving a functor for its freed connector
  exactly when it has a connection and the loop has run everything the connector queued: destroying a client that is not
  connected is never defined, because stopping the connector queues a functor for it.
\<close>

theorem client_destruction_defined_iff:
  assumes "reachable (\<lambda>c. c = new_TcpClient) cl_step c"
  shows "rbind (destroy_TcpClient unique c) (\<lambda>(forced, fs). run_orphaned fs) = Inr () \<longleftrightarrow>
    cl_connection c \<noteq> None \<and> k_queue (connector c) = []"
proof -
  have ok: "cl_ok c" using reachable_cl_ok [OF assms] .
  have "k_channel (connector c) = None" if "cl_connection c \<noteq> None" "k_queue (connector c) = []"
    using ok that by (auto simp: cl_ok_def k_defs split: if_splits)
  then show ?thesis
    by (cases "cl_connection c")
       (auto simp: destroy_TcpClient_def destroy_Connector_def run_orphaned_def Connector_stop_def cpp_assert_def)
qed

end
