(* ===== verification/Llm_Channel.thy ===== *)
theory Llm_Channel
  imports Stack_Flow_Util
begin

text \<open>
  The channel of a unit's task (\<open>infra-controller/src/channel.cpp\<close>, \<open>channel.h\<close>): its publisher, its
  subscriptions and the push socket to the user, and the messages it sends.

  A socket is its mode and its address; \<open>sent\<close> records what was handed to a socket of which address.
  The two output flags are not initialised by the constructor.
\<close>

section \<open>State\<close>

type_synonym sock = "zmq_mode \<times> string"

record llm_channel_obj =
  zmqs :: "int \<Rightarrow> sock option option"
  zmq_url_index :: int
  zmq_url_map :: "string \<Rightarrow> int option"
  ch_unit_name :: string
  enoutput :: "bool option"
  enstream :: "bool option"
  ch_request_id :: string
  ch_work_id :: string
  ch_inference_url :: string
  publisher_url :: string
  ch_output_url :: string
  ch_sent :: "(string \<times> string) list"

text \<open>Opening a socket; the constructor of \<open>pzmq\<close> is undefined on an empty address.\<close>

definition open_sock :: "zmq_mode \<Rightarrow> string \<Rightarrow> sock res" where
  "open_sock md url = rbind (keeps_head url) (\<lambda>_. Inr (md, url))"

definition put_sock :: "int \<Rightarrow> sock option \<Rightarrow> llm_channel_obj \<Rightarrow> llm_channel_obj" where
  "put_sock i s ch = ch\<lparr>zmqs := (zmqs ch)(i := Some s)\<rparr>"

definition new_llm_channel :: "string \<Rightarrow> string \<Rightarrow> string \<Rightarrow> llm_channel_obj res" where
  "new_llm_channel pub infer unit_name =
     rbind (open_sock ZMQ_PUB pub)
       (\<lambda>s. Inr \<lparr>zmqs = (\<lambda>_. None)(- 1 := Some (Some s), - 2 := Some None), zmq_url_index = - 1000, zmq_url_map = (\<lambda>_. None),
                 ch_unit_name = unit_name, enoutput = None, enstream = None, ch_request_id = [], ch_work_id = [],
                 ch_inference_url = infer, publisher_url = pub, ch_output_url = [], ch_sent = []\<rparr>)"

definition set_output :: "bool \<Rightarrow> llm_channel_obj \<Rightarrow> llm_channel_obj" where
  "set_output b ch = ch\<lparr>enoutput := Some b\<rparr>"

definition set_stream :: "bool \<Rightarrow> llm_channel_obj \<Rightarrow> llm_channel_obj" where
  "set_stream b ch = ch\<lparr>enstream := Some b\<rparr>"

section \<open>The push socket and the publisher\<close>

definition set_push_url :: "string \<Rightarrow> llm_channel_obj \<Rightarrow> llm_channel_obj res" where
  "set_push_url url ch =
     (if ch_output_url ch \<noteq> url
      then rbind (open_sock ZMQ_PUSH url) (\<lambda>s. Inr (put_sock (- 2) (Some s) (ch\<lparr>ch_output_url := url\<rparr>)))
      else Inr ch)"

definition cear_push_url :: "llm_channel_obj \<Rightarrow> llm_channel_obj" where
  "cear_push_url ch = put_sock (- 2) None ch"

text \<open>\<open>zmq_[i]\<close> creates an empty pointer for a missing key.\<close>

definition sock_at :: "int \<Rightarrow> llm_channel_obj \<Rightarrow> sock option" where
  "sock_at i ch = (case zmqs ch i of None \<Rightarrow> None | Some s \<Rightarrow> s)"

definition send_on :: "sock \<Rightarrow> string \<Rightarrow> llm_channel_obj \<Rightarrow> llm_channel_obj" where
  "send_on s raw ch = ch\<lparr>ch_sent := ch_sent ch @ [(snd s, raw)]\<rparr>"

definition send_raw_to_pub :: "string \<Rightarrow> llm_channel_obj \<Rightarrow> llm_channel_obj res" where
  "send_raw_to_pub raw ch = (case sock_at (- 1) ch of None \<Rightarrow> Inl NullDeref | Some s \<Rightarrow> Inr (send_on s raw ch))"

definition send_raw_to_usr :: "string \<Rightarrow> llm_channel_obj \<Rightarrow> int \<times> llm_channel_obj" where
  "send_raw_to_usr raw ch =
     (case sock_at (- 2) ch of
        None \<Rightarrow> (- 1, put_sock (- 2) None ch)
      | Some s \<Rightarrow> (int (length raw), send_on s raw ch))"

text \<open>The message that channels and flows send: an empty error text stands for success.\<close>

definition out_body :: "int \<Rightarrow> string \<Rightarrow> string \<Rightarrow> string \<Rightarrow> json \<Rightarrow> string \<Rightarrow> json" where
  "out_body now request_id work_id object data error_msg =
     JObject [(''created'', JInt now), (''data'', data),
       (''error'', if error_msg = [] then JObject [(''code'', JInt 0), (''message'', JString [])] else JString error_msg),
       (''object'', JString object), (''request_id'', JString request_id), (''work_id'', JString work_id)]"

definition channel_send :: "(json \<Rightarrow> string) \<Rightarrow> int \<Rightarrow> string \<Rightarrow> json \<Rightarrow> string \<Rightarrow> string \<Rightarrow> llm_channel_obj \<Rightarrow> (int \<times> llm_channel_obj) res" where
  "channel_send dump now object data error_msg work_id ch =
     (let wid = (if work_id = [] then ch_work_id ch else work_id);
          out = dump (out_body now (ch_request_id ch) wid object data error_msg) @ [CHR 0x0A]
      in rbind (send_raw_to_pub out ch)
           (\<lambda>ch1. case enoutput ch1 of
                    None \<Rightarrow> Inl UndefinedBehaviour
                  | Some True \<Rightarrow> Inr (send_raw_to_usr out ch1)
                  | Some False \<Rightarrow> Inr (0, ch1)))"

section \<open>Subscriptions\<close>

text \<open>The pattern \<open>(\w+)\.(\d+)\<close> on a whole work identifier.\<close>

definition word_char :: "char \<Rightarrow> bool" where
  "word_char c = (let n = (of_char c :: nat) in is_digit c \<or> (65 \<le> n \<and> n \<le> 90) \<or> (97 \<le> n \<and> n \<le> 122) \<or> c = CHR ''_'')"

definition work_id_match :: "string \<Rightarrow> (string \<times> string) option" where
  "work_id_match w =
     (case str_find ''.'' w of
        None \<Rightarrow> None
      | Some i \<Rightarrow>
          (let a = take i w; b = drop (i + 1) w
           in if a \<noteq> [] \<and> list_all word_char a \<and> b \<noteq> [] \<and> list_all is_digit b then Some (a, b) else None))"

text \<open>A subscription; \<open>select\<close> is the call of the unit manager's \<open>sql_select\<close>.\<close>

definition subscriber_work_id :: "(string \<Rightarrow> string res) \<Rightarrow> string \<Rightarrow> llm_channel_obj \<Rightarrow> (int \<times> llm_channel_obj) res" where
  "subscriber_work_id select work_id ch =
     (let sub = (\<lambda>id url. rbind (open_sock ZMQ_SUB url) (\<lambda>s. Inr (0, put_sock id (Some s) ch)))
      in case work_id_match work_id of
           Some (_, num) \<Rightarrow>
             rbind (stoi num) (\<lambda>id_num. rbind (select (work_id @ ''.out_port''))
               (\<lambda>input_url. if input_url = [] then Inr (- 1, ch) else sub id_num input_url))
         | None \<Rightarrow> sub 0 (ch_inference_url ch))"

definition erase_sock :: "int \<Rightarrow> llm_channel_obj \<Rightarrow> llm_channel_obj" where
  "erase_sock i ch = ch\<lparr>zmqs := (zmqs ch)(i := None)\<rparr>"

definition stop_subscriber_work_id :: "string \<Rightarrow> llm_channel_obj \<Rightarrow> llm_channel_obj res" where
  "stop_subscriber_work_id work_id ch =
     (case work_id_match work_id of
        Some (_, num) \<Rightarrow> rbind (stoi num) (\<lambda>id_num. Inr (erase_sock id_num ch))
      | None \<Rightarrow> Inr (erase_sock 0 ch))"

definition subscriber :: "string \<Rightarrow> llm_channel_obj \<Rightarrow> llm_channel_obj res" where
  "subscriber url ch =
     (let i = zmq_url_index ch;
          ch1 = ch\<lparr>zmq_url_map := (zmq_url_map ch)(url := Some i), zmq_url_index := to_int32 (i - 1)\<rparr>
      in rbind (open_sock ZMQ_SUB url) (\<lambda>s. Inr (put_sock i (Some s) ch1)))"

definition stop_subscriber :: "string \<Rightarrow> llm_channel_obj \<Rightarrow> llm_channel_obj" where
  "stop_subscriber url ch =
     (if url = [] then ch\<lparr>zmqs := (\<lambda>_. None), zmq_url_map := (\<lambda>_. None)\<rparr>
      else (case zmq_url_map ch url of
              None \<Rightarrow> ch
            | Some i \<Rightarrow> (erase_sock i ch)\<lparr>zmq_url_map := (zmq_url_map ch)(url := None)\<rparr>))"

section \<open>Incoming messages\<close>

abbreviation action_key :: string where "action_key \<equiv> [CHR 0x22] @ ''action'' @ [CHR 0x22]"

text \<open>
  The search for an unescaped \<open>"action"\<close>: a hit at the start or after a backslash is skipped.  The step
  is the size of a pointer, which is also the length of the key.
\<close>

function action_found :: "string \<Rightarrow> nat option \<Rightarrow> bool" where
  "action_found raw None = False"
| "action_found raw (Some pos) =
     (if 0 < pos \<and> raw ! (pos - 1) \<noteq> CHR 0x5C then True
      else action_found raw (str_find_from action_key raw (pos + 8)))"
  by pat_completeness auto
termination
proof (relation "measure (\<lambda>(raw, p). case p of None \<Rightarrow> 0 | Some pos \<Rightarrow> Suc (Suc (length raw) - pos))", goal_cases)
  case (2 raw pos)
  show ?case
  proof (cases "str_find_from action_key raw (pos + 8)")
    case (Some p)
    then have "pos + 8 \<le> p" "p \<le> length raw" by (auto simp: str_find_from_def split: if_splits dest!: str_find_Some)
    with Some show ?thesis by simp
  qed simp
qed simp

text \<open>The update of the channel by a message, and the arguments of the callback.\<close>

definition subscriber_event_call :: "string \<Rightarrow> llm_channel_obj \<Rightarrow> (llm_channel_obj \<times> string \<times> string) res" where
  "subscriber_event_call raw ch =
     (let zmq_com = sample_json_str_get raw ''zmq_com'';
          args = (sample_json_str_get raw ''object'', sample_json_str_get raw ''data'')
      in if action_found raw (str_find action_key raw)
         then rbind (if zmq_com \<noteq> [] then set_push_url zmq_com ch else Inr ch)
           (\<lambda>ch1. Inr (ch1\<lparr>ch_request_id := sample_json_str_get raw ''request_id'', ch_work_id := sample_json_str_get raw ''work_id''\<rparr>, args))
         else Inr (ch, args))"

section \<open>Sequences of operations\<close>

datatype ch_op =
    Subscribe string
  | Unsubscribe string
  | SubscribeUrl string
  | UnsubscribeUrl string
  | Incoming string
  | SetPush string
  | SetOutput bool

fun ch_apply :: "(string \<Rightarrow> string res) \<Rightarrow> ch_op \<Rightarrow> llm_channel_obj \<Rightarrow> llm_channel_obj res" where
  "ch_apply select (Subscribe w) ch = rbind (subscriber_work_id select w ch) (\<lambda>(_, ch'). Inr ch')"
| "ch_apply select (Unsubscribe w) ch = stop_subscriber_work_id w ch"
| "ch_apply select (SubscribeUrl u) ch = subscriber u ch"
| "ch_apply select (UnsubscribeUrl u) ch = Inr (stop_subscriber u ch)"
| "ch_apply select (Incoming raw) ch = rbind (subscriber_event_call raw ch) (\<lambda>(ch', _). Inr ch')"
| "ch_apply select (SetPush u) ch = set_push_url u ch"
| "ch_apply select (SetOutput b) ch = Inr (set_output b ch)"

fun ch_run :: "(string \<Rightarrow> string res) \<Rightarrow> ch_op list \<Rightarrow> llm_channel_obj \<Rightarrow> llm_channel_obj res" where
  "ch_run select [] ch = Inr ch"
| "ch_run select (op # ops) ch = rbind (ch_apply select op ch) (ch_run select ops)"

text \<open>
  The publisher stays in its slot, the push socket matches the stored address, and subscriptions by
  address use the slots from \<open>-1000\<close> down, with room for \<open>r\<close> more.
\<close>

definition ch_ok :: "nat \<Rightarrow> llm_channel_obj \<Rightarrow> bool" where
  "ch_ok r ch \<longleftrightarrow> sock_at (- 1) ch = Some (ZMQ_PUB, publisher_url ch)
     \<and> (ch_output_url ch \<noteq> [] \<longrightarrow> sock_at (- 2) ch = Some (ZMQ_PUSH, ch_output_url ch))
     \<and> zmq_url_index ch \<le> - 1000 \<and> int_min + int r \<le> zmq_url_index ch
     \<and> (\<forall>u i. zmq_url_map ch u = Some i \<longrightarrow> i \<le> - 1000)"

lemma sock_at_put: "sock_at i (put_sock j s ch) = (if i = j then s else sock_at i ch)"
  by (simp add: sock_at_def put_sock_def)

lemma sock_at_erase: "sock_at i (erase_sock j ch) = (if i = j then None else sock_at i ch)"
  by (simp add: sock_at_def erase_sock_def)

lemma put_sock_fields [simp]:
  "publisher_url (put_sock j s ch) = publisher_url ch" "ch_output_url (put_sock j s ch) = ch_output_url ch"
  "zmq_url_index (put_sock j s ch) = zmq_url_index ch" "zmq_url_map (put_sock j s ch) = zmq_url_map ch"
  "publisher_url (erase_sock j ch) = publisher_url ch" "ch_output_url (erase_sock j ch) = ch_output_url ch"
  "zmq_url_index (erase_sock j ch) = zmq_url_index ch" "zmq_url_map (erase_sock j ch) = zmq_url_map ch"
  by (simp_all add: put_sock_def erase_sock_def)

lemma sock_at_fields [simp]:
  "sock_at i (ch\<lparr>ch_output_url := u\<rparr>) = sock_at i ch" "sock_at i (ch\<lparr>ch_request_id := a, ch_work_id := b\<rparr>) = sock_at i ch"
  "sock_at i (ch\<lparr>enoutput := e\<rparr>) = sock_at i ch" "sock_at i (ch\<lparr>zmq_url_map := m\<rparr>) = sock_at i ch"
  "sock_at i (ch\<lparr>zmq_url_map := m, zmq_url_index := n\<rparr>) = sock_at i ch" "sock_at i (ch\<lparr>ch_sent := t\<rparr>) = sock_at i ch"
  by (simp_all add: sock_at_def)

lemma ch_ok_put: "ch_ok r ch \<Longrightarrow> 0 \<le> i \<or> i \<le> - 1000 \<Longrightarrow> ch_ok r (put_sock i s ch)"
  by (auto simp: ch_ok_def sock_at_put)

lemma ch_ok_erase: "ch_ok r ch \<Longrightarrow> 0 \<le> i \<or> i \<le> - 1000 \<Longrightarrow> ch_ok r (erase_sock i ch)"
  by (auto simp: ch_ok_def sock_at_erase)

lemma ch_ok_mono: "ch_ok (Suc r) ch \<Longrightarrow> ch_ok r ch"
  by (auto simp: ch_ok_def)

lemma open_sock_Inr [simp]: "open_sock md url = Inr s \<longleftrightarrow> s = (md, url) \<and> url \<noteq> []"
  by (auto simp: open_sock_def keeps_head_def split: list.splits)

lemma set_push_url_ok: "ch_ok r ch \<Longrightarrow> set_push_url u ch = Inr ch' \<Longrightarrow> ch_ok r ch' \<and> ch_output_url ch' = u"
  by (auto simp: set_push_url_def ch_ok_def sock_at_put split: if_splits)

lemma match_nonneg: "work_id_match w = Some (a, b) \<Longrightarrow> stoi b = Inr n \<Longrightarrow> 0 \<le> n"
proof -
  assume m: "work_id_match w = Some (a, b)" and n: "stoi b = Inr n"
  then have b: "b \<noteq> []" "list_all is_digit b" by (auto simp: work_id_match_def Let_def split: option.splits if_splits)
  then obtain c t where ct: "b = c # t" "is_digit c" by (cases b) auto
  then have "stoi b = stoi_range (int (read_digits 0 b))"
    using is_digit_not_special [of c] by (simp add: stoi_def stoi_digits_def)
  with n show ?thesis by (auto simp: stoi_range_def split: if_splits)
qed

lemma subscriber_event_ok: "ch_ok r ch \<Longrightarrow> subscriber_event_call raw ch = Inr (ch', x) \<Longrightarrow> ch_ok r ch'"
proof -
  have keep: "ch_ok r (c\<lparr>ch_request_id := a, ch_work_id := b\<rparr>)" if "ch_ok r c" for c a b
    using that by (simp add: ch_ok_def)
  show "ch_ok r ch \<Longrightarrow> subscriber_event_call raw ch = Inr (ch', x) \<Longrightarrow> ch_ok r ch'"
    by (auto simp: subscriber_event_call_def Let_def keep dest: set_push_url_ok split: if_splits)
qed

lemma ch_apply_ok:
  assumes "ch_ok (Suc r) ch" "ch_apply select op ch = Inr ch'" "op \<noteq> UnsubscribeUrl []"
  shows "ch_ok r ch'"
proof (cases op)
  case (Subscribe w)
  have "ch' = ch \<or> (\<exists>i s. 0 \<le> i \<and> ch' = put_sock i (Some s) ch)"
    using assms(2) Subscribe match_nonneg [of w]
    by (auto simp: subscriber_work_id_def Let_def split: option.splits if_splits) blast
  then show ?thesis using ch_ok_put [OF assms(1)] assms(1) by (auto intro: ch_ok_mono)
next
  case (Unsubscribe w)
  have "\<exists>i. 0 \<le> i \<and> ch' = erase_sock i ch"
    using assms(2) Unsubscribe match_nonneg [of w] by (auto simp: stop_subscriber_work_id_def split: option.splits) blast
  then show ?thesis using ch_ok_erase [OF assms(1)] by (auto intro: ch_ok_mono)
next
  case (SubscribeUrl u)
  let ?c = "ch\<lparr>zmq_url_map := (zmq_url_map ch)(u := Some (zmq_url_index ch)), zmq_url_index := to_int32 (zmq_url_index ch - 1)\<rparr>"
  have "int_min \<le> zmq_url_index ch - 1" "zmq_url_index ch \<le> - 1000" using assms(1) by (auto simp: ch_ok_def)
  then have "to_int32 (zmq_url_index ch - 1) = zmq_url_index ch - 1" by (simp add: to_int32_def int_min_def)
  then have "ch_ok r ?c" using assms(1) by (auto simp: ch_ok_def)
  moreover have "\<exists>s. ch' = put_sock (zmq_url_index ch) (Some s) ?c"
    using assms(2) SubscribeUrl by (auto simp: subscriber_def Let_def)
  ultimately show ?thesis using ch_ok_put [of r ?c] assms(1) by (auto simp: ch_ok_def)
next
  case (UnsubscribeUrl u)
  then have "ch' = ch \<or> (\<exists>i. i \<le> - 1000 \<and> ch' = (erase_sock i ch)\<lparr>zmq_url_map := (zmq_url_map ch)(u := None)\<rparr>)"
    using assms by (auto simp: stop_subscriber_def ch_ok_def split: option.splits if_splits)
  then show ?thesis using ch_ok_erase [OF assms(1)] assms(1) by (auto simp: ch_ok_def split: if_splits)
next
  case (Incoming raw)
  then show ?thesis using assms subscriber_event_ok [OF ch_ok_mono [OF assms(1)]] by auto
next
  case (SetPush u)
  then show ?thesis using assms set_push_url_ok [OF ch_ok_mono [OF assms(1)]] by auto
next
  case (SetOutput b)
  then show ?thesis using assms by (auto simp: set_output_def ch_ok_def)
qed

lemma ch_run_ok:
  "ch_ok (r + length ops) ch \<Longrightarrow> ch_run select ops ch = Inr ch' \<Longrightarrow> UnsubscribeUrl [] \<notin> set ops \<Longrightarrow> ch_ok r ch'"
proof (induction ops arbitrary: ch)
  case (Cons op ops)
  then obtain ch1 where ch1: "ch_apply select op ch = Inr ch1" "ch_run select ops ch1 = Inr ch'" by auto
  have "ch_ok (r + length ops) ch1" using Cons.prems ch1 by (intro ch_apply_ok [of "r + length ops" ch select op ch1]) auto
  with Cons ch1 show ?case by simp
qed simp

lemma new_channel_ok: "new_llm_channel pub infer nm = Inr ch \<Longrightarrow> n \<le> 2000000000 \<Longrightarrow> ch_ok n ch"
  by (auto simp: new_llm_channel_def ch_ok_def sock_at_def int_min_def)

section \<open>Properties\<close>


definition sample_raw :: string where
  "sample_raw = ''{\"zmq_com\":\"ipc:///tmp/llm/8000.sock\",\"request_id\":\"7\",\"work_id\":\"llm.1\",\"action\":\"inference\",\"object\":\"o\",\"data\":\"hi\"}''"


text \<open>
  Clearing the push address keeps the stored address, so setting the same address again opens no socket
  and the next message to the user is refused with \<open>-1\<close>.
\<close>

theorem cleared_push_url_stays_closed:
  assumes "ch_output_url ch = url" "url \<noteq> []"
  shows "\<exists>ch'. set_push_url url (cear_push_url ch) = Inr ch' \<and> fst (send_raw_to_usr raw ch') = - 1"
  using assms by (simp add: set_push_url_def cear_push_url_def send_raw_to_usr_def sock_at_put)

theorem cleared_push_url_stays_closed_witness:
  "\<exists>ch ch'. set_push_url ''ipc://u'' (cear_push_url ch) = Inr ch' \<and> fst (send_raw_to_usr ''m'' ch') = - 1"
proof -
  obtain ch where "new_llm_channel ''ipc://pub'' ''ipc://inf'' ''llm'' = Inr ch"
    by (simp add: new_llm_channel_def open_sock_def keeps_head_def)
  then show ?thesis using cleared_push_url_stays_closed [of "ch\<lparr>ch_output_url := ''ipc://u''\<rparr>" "''ipc://u''" "''m''"] by auto
qed

text \<open>Ending all subscriptions also closes the publisher: the next message dereferences a null pointer.\<close>

theorem stop_all_closes_publisher:
  "channel_send dump now object data error_msg work_id (stop_subscriber [] ch) = Inl NullDeref"
  by (simp add: channel_send_def stop_subscriber_def send_raw_to_pub_def sock_at_def Let_def)

end
