(* ===== verification/Stack_Flow.thy ===== *)
theory Stack_Flow
  imports Llm_Channel Unit_Router
begin

text \<open>
  A unit of the controller (\<open>infra-controller/src/StackFlow.cpp\<close>, \<open>StackFlow.h\<close>): the RPC actions that turn
  requests into events, the event loop, the registration of units with the unit manager, and the four
  handlers.  The library's event queue hands out events in the order of their arrival.

  The handlers a derived class overrides are an argument (\<open>hooks\<close>); their versions in the base class are
  given.  The state records the calls made to the unit manager and the messages pushed to users.
\<close>

section \<open>State\<close>

datatype local_event = EVENT_NONE | EVENT_SETUP | EVENT_EXIT | EVENT_PAUSE | EVENT_TASKINFO

record StackFlow =
  sf_unit_name :: string
  sf_request_id :: string
  out_zmq_url :: string
  exit_flage :: bool
  sf_status :: int
  event_queue :: "(local_event \<times> string) list"
  thread_joined :: bool
  llm_task_channel :: "(int \<times> llm_channel_obj) list"
  sys_calls :: "(string \<times> string) list"
  sf_pushed :: "(string \<times> string) list"

record sf_env =
  se_api :: zmq_api
  se_files :: "string list"
  se_dump :: "json \<Rightarrow> string"
  se_now :: int

type_synonym 'a hook = "string \<Rightarrow> string \<Rightarrow> string \<Rightarrow> 'a StackFlow_scheme \<Rightarrow> (int \<times> 'a StackFlow_scheme) res"

record 'a hooks =
  on_setup :: "'a hook"
  on_exit :: "'a hook"
  on_pause :: "'a hook"
  on_taskinfo :: "'a hook"

definition new_StackFlow :: "string \<Rightarrow> StackFlow" where
  "new_StackFlow unit_name =
     \<lparr>sf_unit_name = unit_name, sf_request_id = [], out_zmq_url = [], exit_flage = False, sf_status = 1, event_queue = [],
      thread_joined = False, llm_task_channel = [], sys_calls = [], sf_pushed = []\<rparr>"

section \<open>RPC actions and the event queue\<close>

definition enqueue_event :: "local_event \<Rightarrow> 'a StackFlow_scheme rpc_action" where
  "enqueue_event ev data sf = (Inr ''None'', sf\<lparr>event_queue := event_queue sf @ [(ev, data)]\<rparr>)"

definition sf_actions :: "(string \<times> 'a StackFlow_scheme rpc_action) list" where
  "sf_actions = [(''setup'', enqueue_event EVENT_SETUP), (''pause'', enqueue_event EVENT_PAUSE),
     (''exit'', enqueue_event EVENT_EXIT), (''taskinfo'', enqueue_event EVENT_TASKINFO)]"

section \<open>Messages to the user\<close>

definition sf_send :: "sf_env \<Rightarrow> string \<Rightarrow> json \<Rightarrow> string \<Rightarrow> string \<Rightarrow> string \<Rightarrow> 'a StackFlow_scheme \<Rightarrow> 'a StackFlow_scheme res" where
  "sf_send env object data error_msg work_id push_url sf =
     (let url = (if push_url = [] then out_zmq_url sf else push_url);
          out = se_dump env (out_body (se_now env) (sf_request_id sf) work_id object data error_msg) @ [CHR 0x0A]
      in rbind (open_sock ZMQ_PUSH url) (\<lambda>_. Inr (sf\<lparr>sf_pushed := sf_pushed sf @ [(url, out)]\<rparr>)))"

text \<open>
  The handlers of the base class pass a JSON object where \<open>send\<close> takes a string; the conversion of an
  object to a string throws.
\<close>

definition default_hook :: "'a hook" where
  "default_hook work_id object data sf = Inl type_error"

section \<open>The unit manager's services\<close>

definition sys_call :: "sf_env \<Rightarrow> string \<Rightarrow> string \<Rightarrow> 'a StackFlow_scheme \<Rightarrow> (string option \<times> 'a StackFlow_scheme) res" where
  "sys_call env action data sf =
     rbind (call_rpc_action (se_api env) action data (se_files env) (new_pzmq_rpc ''sys'' :: unit pzmq))
       (\<lambda>(ret, answer, _). Inr (answer, sf\<lparr>sys_calls := sys_calls sf @ [(action, data)]\<rparr>))"

text \<open>The parameters of the reply; without a reply the number stays empty and cannot be parsed.\<close>

definition sys_register_unit :: "sf_env \<Rightarrow> string \<Rightarrow> 'a StackFlow_scheme \<Rightarrow> (int \<times> 'a StackFlow_scheme) res" where
  "sys_register_unit env unit_name sf =
     rbind (sys_call env ''register_unit'' unit_name sf) (\<lambda>(answer, sf1).
     rbind (case answer of
              None \<Rightarrow> Inr ([], [], [])
            | Some msg \<Rightarrow>
                rbind (get_param 1 [] msg) (\<lambda>str_port.
                rbind (get_param 0 str_port msg) (\<lambda>out_port.
                rbind (get_param 1 str_port msg) (\<lambda>inference_port.
                rbind (get_param 0 [] msg) (\<lambda>num. Inr (num, out_port, inference_port))))))
       (\<lambda>(num, out_port, inference_port).
          rbind (stoi num) (\<lambda>work_id_number.
          rbind (new_llm_channel out_port inference_port (sf_unit_name sf1)) (\<lambda>ch.
            Inr (work_id_number, sf1\<lparr>llm_task_channel := AList.update work_id_number ch (llm_task_channel sf1)\<rparr>)))))"

definition sf_release_unit :: "sf_env \<Rightarrow> int \<Rightarrow> string \<Rightarrow> 'a StackFlow_scheme \<Rightarrow> 'a StackFlow_scheme res" where
  "sf_release_unit env work_id_num work_id sf =
     rbind (if work_id = [] then Inr (sample_get_work_id work_id_num (sf_unit_name sf), work_id_num)
            else rbind (sample_get_work_id_num work_id) (\<lambda>n. Inr (work_id, n)))
       (\<lambda>(wid, num). rbind (sys_call env ''release_unit'' wid sf)
          (\<lambda>(_, sf1). Inr (sf1\<lparr>llm_task_channel := AList.delete num (llm_task_channel sf1)\<rparr>)))"

definition sf_sql_set :: "sf_env \<Rightarrow> string \<Rightarrow> string \<Rightarrow> 'a StackFlow_scheme \<Rightarrow> 'a StackFlow_scheme res" where
  "sf_sql_set env key val sf =
     rbind (sys_call env ''sql_set'' (se_dump env (JObject [(''key'', JString key), (''val'', JString val)])) sf) (\<lambda>(_, sf1). Inr sf1)"

definition sf_sql_unset :: "sf_env \<Rightarrow> string \<Rightarrow> 'a StackFlow_scheme \<Rightarrow> 'a StackFlow_scheme res" where
  "sf_sql_unset env key sf = rbind (sys_call env ''sql_unset'' key sf) (\<lambda>(_, sf1). Inr sf1)"

section \<open>Handlers\<close>

definition get_channel :: "int \<Rightarrow> 'a StackFlow_scheme \<Rightarrow> llm_channel_obj res" where
  "get_channel num sf = (case map_of (llm_task_channel sf) num of None \<Rightarrow> Inl OutOfRange | Some ch \<Rightarrow> Inr ch)"

definition put_channel :: "int \<Rightarrow> llm_channel_obj \<Rightarrow> 'a StackFlow_scheme \<Rightarrow> 'a StackFlow_scheme" where
  "put_channel num ch sf = sf\<lparr>llm_task_channel := AList.update num ch (llm_task_channel sf)\<rparr>"

definition sf_setup :: "sf_env \<Rightarrow> 'a hooks \<Rightarrow> string \<Rightarrow> string \<Rightarrow> 'a StackFlow_scheme \<Rightarrow> 'a StackFlow_scheme res" where
  "sf_setup env h push_url raw sf =
     rbind (sys_register_unit env (sf_unit_name sf) sf) (\<lambda>(num, sf1).
     let work_id = sf_unit_name sf1 @ ''.'' @ to_string num
     in rbind (get_channel num sf1) (\<lambda>ch.
        rbind (set_push_url push_url ch) (\<lambda>ch1.
        let sf2 = put_channel num (ch1\<lparr>ch_request_id := sample_json_str_get raw ''request_id'', ch_work_id := work_id\<rparr>) sf1
        in rbind (on_setup h work_id (sample_json_str_get raw ''object'') (sample_json_str_get raw ''data'') sf2) (\<lambda>(ret, sf3).
           if ret \<noteq> 0 then sf_release_unit env num work_id sf3 else Inr sf3))))"

text \<open>The push address of the addressed channel is updated; any exception of this part is swallowed.\<close>

definition try_set_push :: "string \<Rightarrow> string \<Rightarrow> 'a StackFlow_scheme \<Rightarrow> 'a StackFlow_scheme res" where
  "try_set_push push_url work_id sf =
     (case rbind (sample_get_work_id_num work_id) (\<lambda>num. rbind (get_channel num sf) (\<lambda>ch.
             rbind (set_push_url push_url ch) (\<lambda>ch1. Inr (put_channel num ch1 sf)))) of
        Inr sf1 \<Rightarrow> Inr sf1
      | Inl e \<Rightarrow> if catchable e then Inr sf else Inl e)"

definition run_hook :: "'a hook \<Rightarrow> string \<Rightarrow> string \<Rightarrow> 'a StackFlow_scheme \<Rightarrow> (int \<times> 'a StackFlow_scheme) res" where
  "run_hook h work_id raw sf = h work_id (sample_json_str_get raw ''object'') (sample_json_str_get raw ''data'') sf"

definition sf_exit :: "sf_env \<Rightarrow> 'a hooks \<Rightarrow> string \<Rightarrow> string \<Rightarrow> 'a StackFlow_scheme \<Rightarrow> 'a StackFlow_scheme res" where
  "sf_exit env h push_url raw sf =
     (let work_id = sample_json_str_get raw ''work_id''
      in rbind (try_set_push push_url work_id sf) (\<lambda>sf1.
         rbind (run_hook (on_exit h) work_id raw sf1) (\<lambda>(ret, sf2).
         if ret = 0 then sf_release_unit env (- 1) work_id sf2 else Inr sf2)))"

definition sf_pause :: "'a hooks \<Rightarrow> string \<Rightarrow> string \<Rightarrow> 'a StackFlow_scheme \<Rightarrow> 'a StackFlow_scheme res" where
  "sf_pause h push_url raw sf =
     (let work_id = sample_json_str_get raw ''work_id''
      in rbind (try_set_push push_url work_id sf) (\<lambda>sf1. rbind (run_hook (on_pause h) work_id raw sf1) (\<lambda>(_, sf2). Inr sf2)))"

definition sf_taskinfo :: "'a hooks \<Rightarrow> string \<Rightarrow> string \<Rightarrow> 'a StackFlow_scheme \<Rightarrow> 'a StackFlow_scheme res" where
  "sf_taskinfo h push_url raw sf =
     (let work_id = sample_json_str_get raw ''work_id''
      in rbind (try_set_push push_url work_id sf) (\<lambda>sf1. rbind (run_hook (on_taskinfo h) work_id raw sf1) (\<lambda>(_, sf2). Inr sf2)))"

text \<open>The listeners; \<open>_pause\<close> takes the first parameter for the data too.\<close>

definition with_params :: "int \<Rightarrow> (string \<Rightarrow> string \<Rightarrow> 'a StackFlow_scheme \<Rightarrow> 'a StackFlow_scheme res) \<Rightarrow> string \<Rightarrow> 'a StackFlow_scheme \<Rightarrow> 'a StackFlow_scheme res" where
  "with_params i f msg sf =
     rbind (get_param 0 [] msg) (\<lambda>push_url. rbind (get_param i [] msg) (\<lambda>data.
       let sf1 = sf\<lparr>sf_request_id := sample_json_str_get data ''request_id'', out_zmq_url := push_url\<rparr>
       in if sf_status sf1 \<noteq> 0 then f push_url data sf1 else Inr sf1))"

fun handle_event :: "sf_env \<Rightarrow> 'a hooks \<Rightarrow> local_event \<times> string \<Rightarrow> 'a StackFlow_scheme \<Rightarrow> 'a StackFlow_scheme res" where
  "handle_event env h (EVENT_NONE, msg) sf = Inr sf"
| "handle_event env h (EVENT_SETUP, msg) sf = with_params 1 (sf_setup env h) msg sf"
| "handle_event env h (EVENT_EXIT, msg) sf = with_params 1 (sf_exit env h) msg sf"
| "handle_event env h (EVENT_PAUSE, msg) sf = with_params 0 (sf_pause h) msg sf"
| "handle_event env h (EVENT_TASKINFO, msg) sf = with_params 1 (sf_taskinfo h) msg sf"

text \<open>One turn of the event loop: the events queued at its start, in order.\<close>

fun handle_all :: "sf_env \<Rightarrow> 'a hooks \<Rightarrow> (local_event \<times> string) list \<Rightarrow> 'a StackFlow_scheme \<Rightarrow> 'a StackFlow_scheme res" where
  "handle_all env h [] sf = Inr sf"
| "handle_all env h (e # es) sf = rbind (handle_event env h e sf) (handle_all env h es)"

definition even_loop_turn :: "sf_env \<Rightarrow> 'a hooks \<Rightarrow> 'a StackFlow_scheme \<Rightarrow> 'a StackFlow_scheme res" where
  "even_loop_turn env h sf = (if exit_flage sf then Inr sf else handle_all env h (event_queue sf) (sf\<lparr>event_queue := []\<rparr>))"

text \<open>
  The destructor joins the event thread at the start of every iteration; joining a thread twice throws,
  in a destructor, and ends the process.
\<close>

fun destroy_StackFlow :: "nat \<Rightarrow> sf_env \<Rightarrow> 'a StackFlow_scheme \<Rightarrow> 'a StackFlow_scheme res option" where
  "destroy_StackFlow 0 env sf = None"
| "destroy_StackFlow (Suc n) env sf =
     (if thread_joined sf then Some (Inl (RuntimeError ''system_error''))
      else let sf1 = sf\<lparr>exit_flage := True, event_queue := event_queue sf @ [(EVENT_NONE, [])], thread_joined := True\<rparr>
           in (case llm_task_channel sf1 of
                 [] \<Rightarrow> Some (Inr sf1)
               | (num, _) # _ \<Rightarrow>
                   (case sf_release_unit env num [] sf1 of
                      Inl e \<Rightarrow> Some (Inl e)
                    | Inr sf2 \<Rightarrow> destroy_StackFlow n env sf2)))"

section \<open>Lemmas\<close>

lemma sscanf_i_empty: "sscanf_i fmt [] = None"
  by (induction fmt "[] :: string" rule: sscanf_i.induct) (auto simp: scan_i_def split: list.splits)

lemma unit_url_length:
  assumes "unit_url um unit kind port = Inr url"
  shows "length url < length (zmq_s_format um) + length unit + length kind + length (to_string port) + 1"
proof -
  from assms obtain r where "url = c_str r" "length r < length (zmq_s_format um) + length unit + length kind + length (to_string port) + 1"
    by (auto simp: unit_url_def sprintf_i_def Let_def split: if_splits)
  then show ?thesis by (simp add: c_str_def le_less_trans [OF length_takeWhile_le])
qed

lemma take_port_fields:
  "take_port um = Inr (p, um') \<Longrightarrow> zmq_s_format um' = zmq_s_format um \<and> port_list_start um' = port_list_start um
    \<and> length (port_list um') = length (port_list um) \<and> port_list_start um \<le> p \<and> p < port_list_start um + int (length (port_list um))
    \<and> units um' = units um"
  by (auto simp: take_port_def split: option.splits dest: first_free_Some)

lemma allocate_urls:
  assumes "sys_allocate_unit unit um = Inr (q, um')" "units um' q = Some u" "config_ok um"
  shows "length (output_url u) < length (zmq_s_format um) + length unit + 26"
    "length (inference_url u) < length (zmq_s_format um) + length unit + 26"
proof -
  let ?um1 = "um\<lparr>work_id_number_counter := to_int32 (work_id_number_counter um + 1)\<rparr>"
  obtain p1 um2 out p2 um3 inf where a: "take_port ?um1 = Inr (p1, um2)" "unit_url um2 unit ''.output_url'' p1 = Inr out"
    "take_port um2 = Inr (p2, um3)" "unit_url um3 unit ''.inference_url'' p2 = Inr inf" "output_url u = out" "inference_url u = inf"
    using assms(1,2) by (auto simp: sys_allocate_unit_def Let_def SAFE_SETTING_def)
  have f: "zmq_s_format um2 = zmq_s_format um" "zmq_s_format um3 = zmq_s_format um" "0 \<le> p1" "p1 \<le> int_max" "0 \<le> p2" "p2 \<le> int_max"
    using take_port_fields [OF a(1)] take_port_fields [OF a(3)] assms(3) by (auto simp: config_ok_def)
  show "length (output_url u) < length (zmq_s_format um) + length unit + 26"
    using unit_url_length [OF a(2)] a(5) f length_to_string [OF f(3,4)] by simp
  show "length (inference_url u) < length (zmq_s_format um) + length unit + 26"
    using unit_url_length [OF a(4)] a(6) f length_to_string [OF f(5,6)] by simp
qed

text \<open>The bus between a unit and the unit manager: the manager's socket exists, and it answers.\<close>

definition sys_answers :: "sf_env \<Rightarrow> string \<Rightarrow> string \<Rightarrow> string option \<Rightarrow> bool" where
  "sys_answers env action data reply \<longleftrightarrow>
     ''/tmp/rpc.sys'' \<in> set (se_files env) \<and> api_connect (se_api env) (default_rpc_head @ ''sys'') = 0
     \<and> api_request (se_api env) (default_rpc_head @ ''sys'') (action, data) = reply"

lemma call_sys:
  assumes "sys_answers env action data (Some r)"
  shows "sys_call env action data sf = Inr (Some r, sf\<lparr>sys_calls := sys_calls sf @ [(action, data)]\<rparr>)"
proof -
  have f: "socket_file (default_rpc_head @ ''sys'') = Inr ''/tmp/rpc.sys''"
    by (simp add: socket_file_def substr_def rpc_url_head_length_def default_rpc_head_def)
  have h: "default_rpc_head \<noteq> []" "\<not> str_contains ''://'' ''sys''"
    by (simp_all add: default_rpc_head_def str_contains_def starts_with_def)
  show ?thesis using assms f h
    by (simp add: sys_answers_def sys_call_def call_rpc_action_def new_pzmq_rpc_def creat_def creat_req_def close_zmq_def is_bind_def Let_def)
qed

lemma length_to_string_any:
  assumes "int_min \<le> i" "i \<le> int_max"
  shows "length (to_string i) \<le> 11"
proof -
  have "nat i < 10 ^ Suc 9" "nat (- i) < 10 ^ Suc 9" using assms by (simp_all add: int_min_def int_max_def)
  from this [THEN length_nat_to_string] show ?thesis by (simp add: to_string_def)
qed

lemma register_decodes:
  assumes "length out < 128" "length infer < 128" "out \<noteq> []" "int_min \<le> n" "n \<le> int_max"
    and "sys_answers env ''register_unit'' nm (Some (set_param (to_string n) (set_param out infer)))"
  shows "\<exists>ch. sys_register_unit env nm sf = Inr (n, sf\<lparr>sys_calls := sys_calls sf @ [(''register_unit'', nm)],
        llm_task_channel := AList.update n ch (llm_task_channel sf)\<rparr>)
    \<and> new_llm_channel out infer (sf_unit_name sf) = Inr ch"
proof -
  let ?sp = "set_param out infer" and ?msg = "set_param (to_string n) (set_param out infer)"
  have l: "length (to_string n) \<le> 11" by (rule length_to_string_any [OF assms(4,5)])
  have i1: "length (to_string n) < 128" "int (length (to_string n) + length ?sp) < int_max"
    using l assms(1,2) by (simp_all add: set_param_def int_max_def)
  have i2: "int (length out + length infer) < int_max" using assms(1,2) by (simp add: int_max_def)
  have p: "get_param 1 [] ?msg = Inr ?sp" "get_param 0 [] ?msg = Inr (to_string n)"
    "get_param 0 ?sp ?msg = Inr out" "get_param 1 ?sp ?msg = Inr infer"
    using get_param_set_param [OF i1] get_param_set_param [OF assms(1) i2] by simp_all
  obtain ch where ch: "new_llm_channel out infer (sf_unit_name sf) = Inr ch"
    using assms(3) by (cases out) (simp_all add: new_llm_channel_def open_sock_def keeps_head_def)
  then show ?thesis using call_sys [OF assms(6), of sf] p stoi_to_string [OF assms(4,5)]
    by (simp add: sys_register_unit_def)
qed

lemma release_by_name:
  assumes "CHR ''.'' \<notin> set nm" "int_min \<le> n" "n \<le> int_max" "sys_answers env ''release_unit'' (sample_get_work_id n nm) (Some r)"
  shows "sf_release_unit env k (sample_get_work_id n nm) sf
    = Inr (sf\<lparr>sys_calls := sys_calls sf @ [(''release_unit'', sample_get_work_id n nm)],
              llm_task_channel := AList.delete n (llm_task_channel sf)\<rparr>)"
proof -
  have "sample_get_work_id_num (sample_get_work_id n nm) = Inr n" by (rule work_id_parts(1) [OF assms(1-3)])
  moreover have "sample_get_work_id n nm \<noteq> []" by (simp add: sample_get_work_id_def)
  ultimately show ?thesis using call_sys [OF assms(4), of sf] by (simp add: sf_release_unit_def)
qed

lemma delete_update_same: "AList.delete k (AList.update k v al) = AList.delete k al"
  by (induction al) (auto simp: AList.delete_eq)

lemma set_push_total: "url \<noteq> [] \<Longrightarrow> \<exists>ch'. set_push_url url ch = Inr ch'"
  by (cases url) (auto simp: set_push_url_def open_sock_def keeps_head_def)

section \<open>Properties\<close>


definition sample_manager :: um_state where "sample_manager = snd (snd sample_started)"

definition sample_reply :: string where "sample_reply = projr (fst (rpc_allocate_unit ''llm'' sample_manager))"

definition answering :: "string \<Rightarrow> sf_env" where
  "answering r = \<lparr>se_api = sample_api\<lparr>api_request := \<lambda>_ _. Some r\<rparr>, se_files = [''/tmp/rpc.sys''], se_dump = (\<lambda>_. ''out''), se_now = 0\<rparr>"

lemma answering_sys: "sys_answers (answering r) action data (Some r)"
  by (simp add: sys_answers_def answering_def sample_api_def)


text \<open>
  The RPC actions only queue: every request for a known action is answered with \<open>None\<close> at once and in
  order, and its event is appended to the queue with the message as it came.
\<close>

fun event_of :: "string \<Rightarrow> local_event option" where
  "event_of a = (if a = ''setup'' then Some EVENT_SETUP else if a = ''pause'' then Some EVENT_PAUSE
     else if a = ''exit'' then Some EVENT_EXIT else if a = ''taskinfo'' then Some EVENT_TASKINFO else None)"

lemma sf_dispatch: "event_of a = Some ev \<Longrightarrow> dispatch (map_of sf_actions) a d sf = Inr (''None'', sf\<lparr>event_queue := event_queue sf @ [(ev, d)]\<rparr>)"
  by (auto simp: dispatch_def sf_actions_def enqueue_event_def split: if_splits)

lemma sf_answers:
  "\<forall>(c, a, d) \<in> set reqs. event_of a \<noteq> None \<Longrightarrow>
     answers (map_of sf_actions) reqs sf = Inr (map (\<lambda>(c, a, d). (c, ''None'')) reqs,
       sf\<lparr>event_queue := event_queue sf @ map (\<lambda>(c, a, d). (the (event_of a), d)) reqs\<rparr>)"
proof (induction reqs arbitrary: sf)
  case (Cons req reqs)
  obtain c a d where req: "req = (c, a, d)" by (cases req)
  then obtain ev where ev: "event_of a = Some ev" using Cons.prems by auto
  have "\<forall>(c, a, d) \<in> set reqs. event_of a \<noteq> None" using Cons.prems by simp
  from Cons.IH [OF this] show ?case using req ev by (simp add: sf_dispatch [OF ev])
qed simp

theorem rpc_queues_events:
  assumes "\<forall>(c, a, d) \<in> set reqs. event_of a \<noteq> None" "rs_cur s = None" "rs_queue s = map frames reqs"
  shows "rpc_loop (map_of sf_actions) (length reqs) (s, sf)
    = Inr (s\<lparr>rs_queue := [], rs_sent := rs_sent s @ map (\<lambda>(c, a, d). (c, ''None'')) reqs\<rparr>,
           sf\<lparr>event_queue := event_queue sf @ map (\<lambda>(c, a, d). (the (event_of a), d)) reqs\<rparr>)"
proof -
  have "\<forall>(c, a, d) \<in> set reqs. a \<noteq> []" using assms(1) by (auto split: if_splits)
  from rpc_loop_answers [OF this assms(2,3), of "map_of sf_actions" sf] sf_answers [OF assms(1), of sf] show ?thesis by simp
qed

theorem rpc_queues_events_witness:
  "rpc_loop (map_of sf_actions) 1 (\<lparr>rs_queue = [(1, [''setup'', ''m''])], rs_cur = None, rs_sent = []\<rparr>, new_StackFlow ''llm'')
    = Inr (\<lparr>rs_queue = [], rs_cur = None, rs_sent = [(1, ''None'')]\<rparr>, (new_StackFlow ''llm'')\<lparr>event_queue := [(EVENT_SETUP, ''m'')]\<rparr>)"
  using rpc_queues_events [of "[(1, ''setup'', ''m'')]" "\<lparr>rs_queue = [(1, [''setup'', ''m''])], rs_cur = None, rs_sent = []\<rparr>" "new_StackFlow ''llm''"]
  by (simp add: frames_def new_StackFlow_def del: rpc_loop.simps)

text \<open>
  A set-up that the derived class refuses leaves nothing behind: the unit is released again under the
  identifier it was registered with, and its channel is gone.
\<close>

theorem failed_setup_releases:
  assumes "CHR ''.'' \<notin> set (sf_unit_name sf)" "push_url \<noteq> []" "int_min \<le> n" "n \<le> int_max"
    and "length out < 128" "length infer < 128" "out \<noteq> []" "wid = sample_get_work_id n (sf_unit_name sf)"
    and "sys_answers env ''register_unit'' (sf_unit_name sf) (Some (set_param (to_string n) (set_param out infer)))"
    and "sys_answers env ''release_unit'' wid (Some r)"
    and refuse: "\<And>o' d x. \<exists>ret. ret \<noteq> 0 \<and> on_setup h wid o' d x = Inr (ret, x)"
  shows "\<exists>sf'. sf_setup env h push_url raw sf = Inr sf'
    \<and> sys_calls sf' = sys_calls sf @ [(''register_unit'', sf_unit_name sf), (''release_unit'', wid)]
    \<and> llm_task_channel sf' = AList.delete n (llm_task_channel sf)"
proof -
  from register_decodes [OF assms(5-7,3,4,9), of sf] obtain ch where
    reg: "sys_register_unit env (sf_unit_name sf) sf = Inr (n, sf\<lparr>sys_calls := sys_calls sf @ [(''register_unit'', sf_unit_name sf)],
        llm_task_channel := AList.update n ch (llm_task_channel sf)\<rparr>)" by blast
  let ?sf1 = "sf\<lparr>sys_calls := sys_calls sf @ [(''register_unit'', sf_unit_name sf)], llm_task_channel := AList.update n ch (llm_task_channel sf)\<rparr>"
  have wid: "wid = sf_unit_name sf @ ''.'' @ to_string n" using assms(8) by (simp add: sample_get_work_id_def)
  have get: "get_channel n ?sf1 = Inr ch" by (simp add: get_channel_def update_conv)
  obtain ch1 where push: "set_push_url push_url ch = Inr ch1" using set_push_total [OF assms(2)] by blast
  let ?sf2 = "put_channel n (ch1\<lparr>ch_request_id := sample_json_str_get raw ''request_id'', ch_work_id := wid\<rparr>) ?sf1"
  obtain ret where hook: "ret \<noteq> 0" "on_setup h wid (sample_json_str_get raw ''object'') (sample_json_str_get raw ''data'') ?sf2 = Inr (ret, ?sf2)"
    using refuse by blast
  have rel: "sf_release_unit env n wid ?sf2 = Inr (?sf2\<lparr>sys_calls := sys_calls ?sf2 @ [(''release_unit'', wid)],
      llm_task_channel := AList.delete n (llm_task_channel ?sf2)\<rparr>)"
    unfolding assms(8) by (rule release_by_name [OF assms(1,3,4)]) (use assms(8,10) in simp)
  have "sf_setup env h push_url raw sf = sf_release_unit env n wid ?sf2"
    using reg get push hook by (simp add: sf_setup_def wid Let_def)
  then show ?thesis using rel by (simp add: put_channel_def delete_update_same)
qed

theorem failed_setup_releases_witness:
  "\<exists>sf'. sf_setup (answering (set_param (to_string 7) (set_param ''ipc://o'' ''ipc://i'')))
        \<lparr>on_setup = (\<lambda>w o' d x. Inr (- 1, x)), on_exit = default_hook, on_pause = default_hook, on_taskinfo = default_hook\<rparr>
        ''ipc://u'' ''{}'' (new_StackFlow ''llm'') = Inr sf'
    \<and> sys_calls sf' = [(''register_unit'', ''llm''), (''release_unit'', sample_get_work_id 7 ''llm'')]"
proof -
  let ?sf = "new_StackFlow ''llm''" and ?r = "set_param (to_string 7) (set_param ''ipc://o'' ''ipc://i'')"
  let ?h = "\<lparr>on_setup = (\<lambda>w o' d x. Inr (- 1, x)), on_exit = default_hook, on_pause = default_hook, on_taskinfo = default_hook\<rparr>"
  have "\<exists>sf'. sf_setup (answering ?r) ?h ''ipc://u'' ''{}'' ?sf = Inr sf'
    \<and> sys_calls sf' = sys_calls ?sf @ [(''register_unit'', sf_unit_name ?sf), (''release_unit'', sample_get_work_id 7 (sf_unit_name ?sf))]
    \<and> llm_task_channel sf' = AList.delete 7 (llm_task_channel ?sf)"
    by (rule failed_setup_releases [of _ _ _ "''ipc://o''" "''ipc://i''" _ _ ?r])
      (simp_all add: new_StackFlow_def int_min_def int_max_def answering_sys)
  then show ?thesis by (auto simp: new_StackFlow_def)
qed

text \<open>
  An exit request for a live channel, which the derived class accepts, releases the unit at the unit
  manager and removes exactly that channel.
\<close>

theorem exit_releases_channel:
  assumes "CHR ''.'' \<notin> set nm" "push_url \<noteq> []" "int_min \<le> n" "n \<le> int_max" "wid = sample_get_work_id n nm"
    and "sample_json_str_get raw ''work_id'' = wid" "sys_answers env ''release_unit'' wid (Some r)"
    and accept: "\<And>o' d x. on_exit h wid o' d x = Inr (0, x)"
  shows "\<exists>sf'. sf_exit env h push_url raw sf = Inr sf' \<and> sys_calls sf' = sys_calls sf @ [(''release_unit'', wid)]
    \<and> map_of (llm_task_channel sf') n = None \<and> (\<forall>m. m \<noteq> n \<longrightarrow> map_of (llm_task_channel sf') m = map_of (llm_task_channel sf) m)"
proof -
  have num: "sample_get_work_id_num wid = Inr n" unfolding assms(5) by (rule work_id_parts(1) [OF assms(1,3,4)])
  have "\<exists>sf1. try_set_push push_url wid sf = Inr sf1 \<and> sys_calls sf1 = sys_calls sf
      \<and> (\<forall>m. m \<noteq> n \<longrightarrow> map_of (llm_task_channel sf1) m = map_of (llm_task_channel sf) m)"
  proof (cases "map_of (llm_task_channel sf) n")
    case None
    then show ?thesis using num by (simp add: try_set_push_def get_channel_def catchable_def)
  next
    case (Some ch)
    obtain ch1 where "set_push_url push_url ch = Inr ch1" using set_push_total [OF assms(2)] by blast
    then show ?thesis using num Some by (simp add: try_set_push_def get_channel_def put_channel_def update_conv)
  qed
  then obtain sf1 where sf1: "try_set_push push_url wid sf = Inr sf1" "sys_calls sf1 = sys_calls sf"
    "\<forall>m. m \<noteq> n \<longrightarrow> map_of (llm_task_channel sf1) m = map_of (llm_task_channel sf) m" by blast
  have "sf_release_unit env (- 1) wid sf1 = Inr (sf1\<lparr>sys_calls := sys_calls sf1 @ [(''release_unit'', wid)],
      llm_task_channel := AList.delete n (llm_task_channel sf1)\<rparr>)"
    unfolding assms(5) by (rule release_by_name [OF assms(1,3,4)]) (use assms(5,7) in simp)
  then show ?thesis using sf1 accept assms(6)
    by (simp add: sf_exit_def run_hook_def delete_conv)
qed

theorem exit_releases_channel_witness:
  "\<exists>sf'. sf_exit (answering ''Success'') \<lparr>on_setup = default_hook, on_exit = (\<lambda>w o' d x. Inr (0, x)), on_pause = default_hook, on_taskinfo = default_hook\<rparr>
      ''ipc://u'' ''{\"work_id\":\"llm.7\"}'' (new_StackFlow ''llm'') = Inr sf'
    \<and> sys_calls sf' = [(''release_unit'', sample_get_work_id 7 ''llm'')]"
proof -
  let ?sf = "new_StackFlow ''llm''"
  let ?h = "\<lparr>on_setup = default_hook, on_exit = (\<lambda>w o' d x. Inr (0, x)), on_pause = default_hook, on_taskinfo = default_hook\<rparr>"
  have "sample_json_str_get ''{\"work_id\":\"llm.7\"}'' ''work_id'' = sample_get_work_id 7 ''llm''" by code_simp
  then have "\<exists>sf'. sf_exit (answering ''Success'') ?h ''ipc://u'' ''{\"work_id\":\"llm.7\"}'' ?sf = Inr sf'
    \<and> sys_calls sf' = sys_calls ?sf @ [(''release_unit'', sample_get_work_id 7 ''llm'')] \<and> map_of (llm_task_channel sf') 7 = None
    \<and> (\<forall>m. m \<noteq> 7 \<longrightarrow> map_of (llm_task_channel sf') m = map_of (llm_task_channel ?sf) m)"
    by (intro exit_releases_channel [of "''llm''" _ _ _ _ _ "''Success''"]) (simp_all add: answering_sys int_min_def int_max_def)
  then show ?thesis by (auto simp: new_StackFlow_def)
qed

text \<open>
  A flow that still has channels cannot be destroyed: after the first channel was released the second
  round joins the thread again, which throws.
\<close>

theorem destructor_joins_twice:
  assumes "\<not> thread_joined sf" "llm_task_channel sf \<noteq> []" "\<And>wid. sys_answers env ''release_unit'' wid (Some r)"
  shows "destroy_StackFlow (Suc (Suc n)) env sf = Some (Inl (RuntimeError ''system_error''))"
proof -
  obtain num ch cs where "llm_task_channel sf = (num, ch) # cs" using assms(2) by (cases "llm_task_channel sf") auto
  then show ?thesis using assms(1) by (simp add: sf_release_unit_def Let_def call_sys [OF assms(3)])
qed

theorem destructor_joins_twice_witness:
  "\<exists>ch. destroy_StackFlow (Suc (Suc 0)) (answering ''Success'') ((new_StackFlow ''llm'')\<lparr>llm_task_channel := [(7, ch)]\<rparr>)
    = Some (Inl (RuntimeError ''system_error''))"
  using destructor_joins_twice [of "(new_StackFlow ''llm'')\<lparr>llm_task_channel := [(7, ch)]\<rparr>" "answering ''Success''" "''Success''" 0 for ch]
  by (simp add: answering_sys new_StackFlow_def)



end
