(* ===== verification/Llm_Node.thy ===== *)
theory Llm_Node
  imports Stack_Flow
begin

text \<open>
  The unit \<open>llm\<close> (\<open>node/test/src/main.cpp\<close>), a flow that overrides the handlers for set-up, exit and task
  information: its tasks with their configuration, the answer to user data and the messages of a
  streamed answer.  The model itself is a stand-in of the source that repeats the input and says hello.

  The state extends that of the flow by the tasks and by the two static variables of the source, the
  index of the next streamed message and the buffer of streamed input.  Error messages pass a JSON
  object where \<open>send\<close> takes a string, so that every error path throws \<open>type_error\<close>; on the threads of the
  event queue and of the subscriptions nothing catches it.  The JSON parser is an argument.
\<close>

section \<open>Tasks\<close>

record llm_task =
  t_model :: string
  t_response_format :: string
  t_inputs :: "string list"
  t_enoutput :: bool
  t_enstream :: bool

record llm_llm = StackFlow +
  llm_tasks :: "(int \<times> llm_task) list"
  out_count :: int
  in_stream :: stream_buff

definition new_llm_llm :: llm_llm where
  "new_llm_llm = StackFlow.extend (new_StackFlow ''llm'') \<lparr>llm_tasks = [], out_count = 0, in_stream = []\<rparr>"

definition task_count :: nat where "task_count = 3"

definition json_at :: "json \<Rightarrow> string \<Rightarrow> json res" where
  "json_at j k = (case j of JObject kvs \<Rightarrow> (case map_of kvs k of None \<Rightarrow> Inl OutOfRange | Some v \<Rightarrow> Inr v) | _ \<Rightarrow> Inl type_error)"

fun get_bool :: "json \<Rightarrow> bool res" where
  "get_bool (JBool b) = Inr b" | "get_bool _ = Inl type_error"

fun get_strings :: "json list \<Rightarrow> string list res" where
  "get_strings [] = Inr []"
| "get_strings (j # js) = rbind (get_string j) (\<lambda>s. rbind (get_strings js) (\<lambda>ss. Inr (s # ss)))"

definition read_inputs :: "json \<Rightarrow> string list res" where
  "read_inputs cfg =
     (case json_find cfg ''input'' of
        Some (JString s) \<Rightarrow> Inr [s]
      | Some (JArray js) \<Rightarrow> get_strings js
      | _ \<Rightarrow> Inr [])"

text \<open>\<open>load_model\<close>: every exception of \<open>parse_config\<close> becomes the result \<open>-1\<close>, here \<open>None\<close>.\<close>

definition parse_config :: "json \<Rightarrow> llm_task res" where
  "parse_config cfg =
     rbind (rbind (json_at cfg ''model'') get_string) (\<lambda>model.
     rbind (rbind (json_at cfg ''response_format'') get_string) (\<lambda>fmt.
     rbind (rbind (json_at cfg ''enoutput'') get_bool) (\<lambda>eno.
     rbind (read_inputs cfg) (\<lambda>ins.
       Inr \<lparr>t_model = model, t_response_format = fmt, t_inputs = ins, t_enoutput = eno, t_enstream = str_contains ''stream'' fmt\<rparr>))))"

definition load_model :: "json \<Rightarrow> llm_task option" where
  "load_model cfg = (case parse_config cfg of Inr t \<Rightarrow> Some t | Inl _ \<Rightarrow> None)"

section \<open>Answers\<close>

text \<open>\<open>task_output\<close> on the channel \<open>num\<close>; both weak pointers are locked.\<close>

definition task_output :: "sf_env \<Rightarrow> int \<Rightarrow> string \<Rightarrow> bool \<Rightarrow> llm_llm \<Rightarrow> llm_llm res" where
  "task_output env num data finish sf =
     (case (map_of (llm_tasks sf) num, map_of (llm_task_channel sf) num) of
        (Some t, Some ch) \<Rightarrow>
          (case enstream ch of
             None \<Rightarrow> Inl UndefinedBehaviour
           | Some True \<Rightarrow>
               (let body = JObject [(''delta'', JString (if finish then [] else data)), (''finish'', JBool finish), (''index'', JInt (out_count sf))];
                    sf1 = sf\<lparr>out_count := (if finish then 0 else to_int32 (out_count sf + 1))\<rparr>
                in rbind (channel_send (se_dump env) (se_now env) (t_response_format t) body [] [] ch)
                     (\<lambda>(_, ch1). Inr (put_channel num ch1 sf1)))
           | Some False \<Rightarrow>
               if finish
               then rbind (channel_send (se_dump env) (se_now env) (t_response_format t) (JString data) [] [] ch)
                      (\<lambda>(_, ch1). Inr (put_channel num ch1 sf))
               else Inr sf)
      | _ \<Rightarrow> Inr sf)"

definition inference :: "sf_env \<Rightarrow> int \<Rightarrow> string \<Rightarrow> llm_llm \<Rightarrow> llm_llm res" where
  "inference env num msg sf =
     rbind (task_output env num msg False sf) (\<lambda>sf1.
     rbind (task_output env num ''hello'' False sf1) (\<lambda>sf2.
     task_output env num [] True sf2))"

definition task_user_data :: "sf_env \<Rightarrow> int \<Rightarrow> string \<Rightarrow> string \<Rightarrow> llm_llm \<Rightarrow> llm_llm res" where
  "task_user_data env num object data sf =
     (if map_of (llm_tasks sf) num = None \<or> map_of (llm_task_channel sf) num = None then Inl type_error
      else if data = [] \<or> data = ''None'' then Inl type_error
      else if str_contains ''stream'' object
      then (case decode_stream data [] (in_stream sf) of
              (Inr True, _, buff) \<Rightarrow> Inr (sf\<lparr>in_stream := buff\<rparr>)
            | (Inr False, msg, buff) \<Rightarrow> inference env num msg (sf\<lparr>in_stream := buff\<rparr>)
            | (Inl _, _, _) \<Rightarrow> Inl type_error)
      else inference env num data sf)"

text \<open>A message on the task's subscription: the channel first takes its addresses from it.\<close>

definition node_message :: "sf_env \<Rightarrow> int \<Rightarrow> string \<Rightarrow> llm_llm \<Rightarrow> llm_llm res" where
  "node_message env num raw sf =
     (case map_of (llm_task_channel sf) num of
        None \<Rightarrow> Inr sf
      | Some ch \<Rightarrow>
          rbind (subscriber_event_call raw ch) (\<lambda>(ch1, object, data). task_user_data env num object data (put_channel num ch1 sf)))"

section \<open>The overridden handlers\<close>

definition node_setup :: "sf_env \<Rightarrow> (string \<Rightarrow> json option) \<Rightarrow> string \<Rightarrow> string \<Rightarrow> string \<Rightarrow> llm_llm \<Rightarrow> (int \<times> llm_llm) res" where
  "node_setup env parse work_id object data sf =
     (if length (llm_task_channel sf) = Suc task_count then Inl type_error
      else rbind (sample_get_work_id_num work_id) (\<lambda>num.
           rbind (get_channel num sf) (\<lambda>ch.
             case parse data of
               None \<Rightarrow> Inl type_error
             | Some cfg \<Rightarrow>
                 (case load_model cfg of
                    None \<Rightarrow> Inl type_error
                  | Some t \<Rightarrow>
                      rbind (subscriber_work_id (\<lambda>_. Inr []) [] (set_stream (t_enstream t) (set_output True ch))) (\<lambda>(_, ch1).
                        let sf1 = (put_channel num ch1 sf)\<lparr>llm_tasks := AList.update num t (llm_tasks sf)\<rparr>
                        in rbind (sf_send env ''None'' (JString ''None'') [] work_id [] sf1) (\<lambda>sf2. Inr (0, sf2)))))))"

definition node_taskinfo :: "sf_env \<Rightarrow> string \<Rightarrow> string \<Rightarrow> string \<Rightarrow> llm_llm \<Rightarrow> (int \<times> llm_llm) res" where
  "node_taskinfo env work_id object data sf =
     rbind (sample_get_work_id_num work_id) (\<lambda>num.
       if num = WORK_ID_NONE
       then rbind (sf_send env ''llm.tasklist'' (JArray (map (\<lambda>(_, ch). JString (ch_work_id ch)) (llm_task_channel sf))) [] work_id [] sf)
              (\<lambda>sf1. Inr (0, sf1))
       else (case map_of (llm_tasks sf) num of
               None \<Rightarrow> Inl type_error
             | Some t \<Rightarrow>
                 rbind (sf_send env ''llm.taskinfo''
                   (JObject [(''enoutput'', JBool (t_enoutput t)), (''inputs'', JArray (map JString (t_inputs t))),
                      (''model'', JString (t_model t)), (''response_format'', JString (t_response_format t))]) [] work_id [] sf)
                   (\<lambda>sf1. Inr (0, sf1))))"

definition node_exit :: "sf_env \<Rightarrow> string \<Rightarrow> string \<Rightarrow> string \<Rightarrow> llm_llm \<Rightarrow> (int \<times> llm_llm) res" where
  "node_exit env work_id object data sf =
     rbind (sample_get_work_id_num work_id) (\<lambda>num.
       case map_of (llm_tasks sf) num of
         None \<Rightarrow> Inl type_error
       | Some t \<Rightarrow>
           rbind (get_channel num sf) (\<lambda>ch.
             let sf1 = (put_channel num (stop_subscriber [] ch) sf)\<lparr>llm_tasks := AList.delete num (llm_tasks sf)\<rparr>
             in rbind (sf_send env ''None'' (JString ''None'') [] work_id [] sf1) (\<lambda>sf2. Inr (0, sf2))))"

definition llm_hooks :: "sf_env \<Rightarrow> (string \<Rightarrow> json option) \<Rightarrow> \<lparr>llm_tasks :: (int \<times> llm_task) list, out_count :: int, in_stream :: stream_buff\<rparr> hooks" where
  "llm_hooks env parse =
     \<lparr>on_setup = node_setup env parse, on_exit = node_exit env, on_pause = default_hook, on_taskinfo = node_taskinfo env\<rparr>"

text \<open>The destructor of the unit: one task after the other; that of the flow follows.\<close>

lemma length_delete_less: "length (AList.delete k ((k, v) # al)) < Suc (length al)"
  by (simp add: AList.delete_eq le_imp_less_Suc)

function destroy_tasks :: "llm_llm \<Rightarrow> llm_llm res" where
  "destroy_tasks sf =
     (case llm_tasks sf of
        [] \<Rightarrow> Inr sf
      | (num, t) # ts \<Rightarrow>
          (case get_channel num sf of
             Inl e \<Rightarrow> Inl e
           | Inr ch \<Rightarrow>
               destroy_tasks ((put_channel num (stop_subscriber [] ch) sf)\<lparr>llm_tasks := AList.delete num (llm_tasks sf)\<rparr>)))"
  by pat_completeness auto
termination
proof (relation "measure (\<lambda>sf. length (llm_tasks sf))", goal_cases)
  case (2 sf x xs num t ch)
  then show ?case using length_delete_less [of num t xs] by simp
qed simp

declare destroy_tasks.simps [simp del]

definition destroy_llm_llm :: "nat \<Rightarrow> sf_env \<Rightarrow> llm_llm \<Rightarrow> llm_llm res option" where
  "destroy_llm_llm n env sf = (case destroy_tasks sf of Inl e \<Rightarrow> Some (Inl e) | Inr sf1 \<Rightarrow> destroy_StackFlow n env sf1)"

section \<open>Channels that can answer\<close>

definition chan_ready :: "llm_task \<Rightarrow> llm_channel_obj \<Rightarrow> bool" where
  "chan_ready t ch \<longleftrightarrow> enoutput ch = Some True \<and> enstream ch = Some (t_enstream t) \<and> sock_at (- 1) ch = Some (ZMQ_PUB, publisher_url ch)"

definition node_inv :: "llm_llm \<Rightarrow> bool" where
  "node_inv sf \<longleftrightarrow>
     (\<forall>num t. map_of (llm_tasks sf) num = Some t \<longrightarrow> (\<exists>ch. map_of (llm_task_channel sf) num = Some ch \<and> chan_ready t ch))"

text \<open>What a channel does with a message when its publisher is open and its output is on.\<close>

definition sent_to :: "llm_channel_obj \<Rightarrow> string \<Rightarrow> llm_channel_obj" where
  "sent_to ch out = ch\<lparr>ch_sent := ch_sent ch @ (publisher_url ch, out) # (case sock_at (- 2) ch of None \<Rightarrow> [] | Some s \<Rightarrow> [(snd s, out)]),
     zmqs := (case sock_at (- 2) ch of None \<Rightarrow> (zmqs ch)(- 2 := Some None) | Some s \<Rightarrow> zmqs ch)\<rparr>"

lemma sock_at_sent_to [simp]: "sock_at i (sent_to ch out) = sock_at i ch"
  by (simp add: sock_at_def sent_to_def split: option.splits)

lemma sent_to_fields [simp]:
  "enoutput (sent_to ch out) = enoutput ch" "enstream (sent_to ch out) = enstream ch" "publisher_url (sent_to ch out) = publisher_url ch"
  "ch_work_id (sent_to ch out) = ch_work_id ch" "ch_request_id (sent_to ch out) = ch_request_id ch"
  by (simp_all add: sent_to_def)

lemma chan_ready_sent [simp]: "chan_ready t (sent_to ch out) = chan_ready t ch"
  by (simp add: chan_ready_def)

lemma channel_send_ready:
  assumes "chan_ready t ch"
  shows "\<exists>r. channel_send dump now object data err [] ch =
     Inr (r, sent_to ch (dump (out_body now (ch_request_id ch) (ch_work_id ch) object data err) @ [CHR 0x0A]))"
  using assms
  by (auto simp: chan_ready_def channel_send_def send_raw_to_pub_def send_raw_to_usr_def send_on_def sent_to_def put_sock_def
      Let_def sock_at_def split: option.splits)

lemma node_inv_ready:
  "node_inv sf \<Longrightarrow> map_of (llm_tasks sf) num = Some t \<Longrightarrow> map_of (llm_task_channel sf) num = Some ch \<Longrightarrow> chan_ready t ch"
  unfolding node_inv_def by (metis option.inject)

lemma node_inv_put:
  assumes "node_inv sf" and "map_of (llm_tasks sf) num = Some t" and "chan_ready t ch"
  shows "node_inv (put_channel num ch sf)"
  using assms by (auto simp: node_inv_def put_channel_def update_conv')

lemma node_inv_count [simp]: "node_inv (sf\<lparr>out_count := c\<rparr>) = node_inv sf" "node_inv (sf\<lparr>in_stream := b\<rparr>) = node_inv sf"
  by (simp_all add: node_inv_def)

lemma put_channel_tasks [simp]: "llm_tasks (put_channel num ch sf) = llm_tasks sf"
  by (simp add: put_channel_def)

section \<open>One message of an answer\<close>

abbreviation out_message :: "sf_env \<Rightarrow> llm_task \<Rightarrow> llm_channel_obj \<Rightarrow> json \<Rightarrow> string" where
  "out_message env t ch body \<equiv>
     se_dump env (out_body (se_now env) (ch_request_id ch) (ch_work_id ch) (t_response_format t) body []) @ [CHR 0x0A]"

definition delta_body :: "int \<Rightarrow> string \<Rightarrow> bool \<Rightarrow> json" where
  "delta_body i d fin = JObject [(''delta'', JString d), (''finish'', JBool fin), (''index'', JInt i)]"

lemma task_output_stream:
  assumes "map_of (llm_tasks sf) num = Some t" "map_of (llm_task_channel sf) num = Some ch" "chan_ready t ch" "t_enstream t"
  shows "task_output env num data finish sf =
    Inr (put_channel num (sent_to ch (out_message env t ch (delta_body (out_count sf) (if finish then [] else data) finish)))
          (sf\<lparr>out_count := (if finish then 0 else to_int32 (out_count sf + 1))\<rparr>))"
proof -
  let ?body = "delta_body (out_count sf) (if finish then [] else data) finish"
  obtain r where "channel_send (se_dump env) (se_now env) (t_response_format t) ?body [] [] ch = Inr (r, sent_to ch (out_message env t ch ?body))"
    using channel_send_ready [OF assms(3)] by blast
  then show ?thesis using assms by (simp add: task_output_def chan_ready_def Let_def delta_body_def)
qed

lemma task_output_plain:
  assumes "map_of (llm_tasks sf) num = Some t" "map_of (llm_task_channel sf) num = Some ch" "chan_ready t ch" "\<not> t_enstream t"
  shows "task_output env num data finish sf =
    Inr (if finish then put_channel num (sent_to ch (out_message env t ch (JString data))) sf else sf)"
proof -
  obtain r where "channel_send (se_dump env) (se_now env) (t_response_format t) (JString data) [] [] ch =
      Inr (r, sent_to ch (out_message env t ch (JString data)))"
    using channel_send_ready [OF assms(3)] by blast
  then show ?thesis using assms by (simp add: task_output_def chan_ready_def)
qed

lemma task_output_inv:
  assumes "node_inv sf" and "map_of (llm_tasks sf) num = Some t"
  shows "\<exists>sf1. task_output env num data finish sf = Inr sf1 \<and> node_inv sf1 \<and> llm_tasks sf1 = llm_tasks sf"
proof -
  obtain ch where ch: "map_of (llm_task_channel sf) num = Some ch" "chan_ready t ch"
    using assms by (auto simp: node_inv_def)
  show ?thesis
  proof (cases "t_enstream t")
    case True
    then show ?thesis using task_output_stream [OF assms(2) ch] assms ch(2) by (simp add: node_inv_put)
  next
    case False
    then show ?thesis using task_output_plain [OF assms(2) ch] assms ch(2) by (simp add: node_inv_put)
  qed
qed

lemma inference_inv:
  assumes "node_inv sf" and "map_of (llm_tasks sf) num = Some t"
  shows "\<exists>sf1. inference env num msg sf = Inr sf1 \<and> node_inv sf1 \<and> llm_tasks sf1 = llm_tasks sf"
proof -
  obtain sf1 where 1: "task_output env num msg False sf = Inr sf1" "node_inv sf1" "llm_tasks sf1 = llm_tasks sf"
    using task_output_inv [OF assms] by blast
  obtain sf2 where 2: "task_output env num ''hello'' False sf1 = Inr sf2" "node_inv sf2" "llm_tasks sf2 = llm_tasks sf"
    using task_output_inv [OF 1(2), of num t] 1(3) assms(2) by metis
  obtain sf3 where 3: "task_output env num [] True sf2 = Inr sf3" "node_inv sf3" "llm_tasks sf3 = llm_tasks sf"
    using task_output_inv [OF 2(2), of num t] 2(3) assms(2) by metis
  show ?thesis using 1 2 3 by (simp add: inference_def)
qed


text \<open>Without streaming the answer is a single empty message: the texts of the model are dropped.\<close>

lemma node_plain_answer_empty:
  assumes "map_of (llm_tasks sf) num = Some t" "map_of (llm_task_channel sf) num = Some ch" "chan_ready t ch" "\<not> t_enstream t"
  shows "inference env num msg sf = Inr (put_channel num (sent_to ch (out_message env t ch (JString []))) sf)"
  using task_output_plain [OF assms] by (simp add: inference_def)

text \<open>A unit that is full, a malformed configuration and unknown tasks all end in the exception of the error message.\<close>

lemma node_errors_throw:
  "length (llm_task_channel sf) = Suc task_count \<Longrightarrow> node_setup env parse wid ob d sf = Inl type_error"
  "sample_get_work_id_num wid = Inr num \<Longrightarrow> map_of (llm_tasks sf) num = None \<Longrightarrow> node_exit env wid ob d sf = Inl type_error"
  "map_of (llm_tasks sf) num = None \<Longrightarrow> task_user_data env num ob d sf = Inl type_error"
  by (simp_all add: node_setup_def node_exit_def task_user_data_def)

section \<open>The life of a task\<close>

lemma length_update: "length (AList.update k v al) = (if k \<in> fst ` set al then length al else Suc (length al))"
  by (induction al) auto

lemma node_setup_ready:
  assumes "length (llm_task_channel sf) \<noteq> Suc task_count" "sample_get_work_id_num wid = Inr n"
    and "map_of (llm_task_channel sf) n = Some ch" "ch_inference_url ch \<noteq> []" "sock_at (- 1) ch = Some (ZMQ_PUB, publisher_url ch)"
    and "parse data = Some cfg" "load_model cfg = Some t" "out_zmq_url sf \<noteq> []"
  shows "\<exists>ch1 msgs. node_setup env parse wid ob data sf =
           Inr (0, (put_channel n ch1 sf)\<lparr>llm_tasks := AList.update n t (llm_tasks sf), sf_pushed := msgs\<rparr>) \<and> chan_ready t ch1"
proof -
  let ?ch = "set_stream (t_enstream t) (set_output True ch)"
  let ?ch1 = "put_sock 0 (Some (ZMQ_SUB, ch_inference_url ch)) ?ch"
  have "open_sock ZMQ_SUB (ch_inference_url ch) = Inr (ZMQ_SUB, ch_inference_url ch)" using assms(4) by simp
  then have sub: "subscriber_work_id (\<lambda>_. Inr []) [] ?ch = Inr (0, ?ch1)"
    by (simp add: subscriber_work_id_def work_id_match_def set_stream_def set_output_def)
  have ready: "chan_ready t ?ch1"
    using assms(5) by (simp add: chan_ready_def sock_at_def put_sock_def set_stream_def set_output_def)
  have op: "open_sock ZMQ_PUSH (out_zmq_url sf) = Inr (ZMQ_PUSH, out_zmq_url sf)" using assms(8) by simp
  show ?thesis using assms(1-3,6,7) sub ready op
    by (intro exI [of _ ?ch1] exI) (simp add: node_setup_def get_channel_def sf_send_def put_channel_def Let_def)
qed

lemma node_inv_add:
  assumes "node_inv sf" and "chan_ready t ch"
  shows "node_inv ((put_channel n ch sf)\<lparr>llm_tasks := AList.update n t (llm_tasks sf), sf_pushed := msgs\<rparr>)"
  using assms by (auto simp: node_inv_def put_channel_def update_conv')

text \<open>
  Claim C19. A set-up request to a unit with room makes the task: the unit is registered and not released,
  the task has the configuration of the request, its channel can answer, and the unit stays ready for
  all its tasks.
\<close>

theorem node_setup_serves:
  assumes "node_inv sf" "sf_unit_name sf = ''llm''" "map_of (llm_task_channel sf) n = None" "length (llm_task_channel sf) < task_count"
    and "push_url \<noteq> []" "out_zmq_url sf \<noteq> []" "int_min \<le> n" "n \<le> int_max"
    and "length out < 128" "length infer < 128" "out \<noteq> []" "infer \<noteq> []"
    and "sys_answers env ''register_unit'' ''llm'' (Some (set_param (to_string n) (set_param out infer)))"
    and "parse (sample_json_str_get raw ''data'') = Some cfg" "load_model cfg = Some t"
  shows "\<exists>sf1. sf_setup env (llm_hooks env parse) push_url raw sf = Inr sf1 \<and> node_inv sf1 \<and>
           map_of (llm_tasks sf1) n = Some t \<and> sys_calls sf1 = sys_calls sf @ [(''register_unit'', ''llm'')] \<and>
           (\<forall>other. other \<noteq> n \<longrightarrow> map_of (llm_tasks sf1) other = map_of (llm_tasks sf) other)"
proof -
  from register_decodes [OF assms(9-11,7,8,13), of sf] obtain ch where
    reg: "sys_register_unit env ''llm'' sf = Inr (n, sf\<lparr>sys_calls := sys_calls sf @ [(''register_unit'', ''llm'')],
        llm_task_channel := AList.update n ch (llm_task_channel sf)\<rparr>)" and ch: "new_llm_channel out infer ''llm'' = Inr ch"
    using assms(2) by auto
  let ?sf1 = "sf\<lparr>sys_calls := sys_calls sf @ [(''register_unit'', ''llm'')], llm_task_channel := AList.update n ch (llm_task_channel sf)\<rparr>"
  let ?wid = "sample_get_work_id n ''llm''"
  have get: "get_channel n ?sf1 = Inr ch" by (simp add: get_channel_def update_conv)
  obtain ch1 where push: "set_push_url push_url ch = Inr ch1" using set_push_total [OF assms(5)] by blast
  have ch1: "ch_inference_url ch1 = infer" "sock_at (- 1) ch1 = Some (ZMQ_PUB, publisher_url ch1)"
    using ch push by (auto simp: new_llm_channel_def set_push_url_def sock_at_put sock_at_def put_sock_def split: if_splits)
  let ?ch2 = "ch1\<lparr>ch_request_id := sample_json_str_get raw ''request_id'', ch_work_id := ?wid\<rparr>"
  let ?sf2 = "put_channel n ?ch2 ?sf1"
  have fresh: "n \<notin> fst ` set (llm_task_channel sf)" using assms(3) by (simp add: map_of_eq_None_iff)
  have len: "length (llm_task_channel ?sf2) \<noteq> Suc task_count"
    using assms(4) fresh by (simp add: put_channel_def length_update dom_update)
  have chan: "map_of (llm_task_channel ?sf2) n = Some ?ch2" by (simp add: put_channel_def update_conv)
  have wid: "sample_get_work_id_num ?wid = Inr n" by (rule work_id_parts(1) [OF _ assms(7,8)]) simp
  have "map_of (llm_tasks sf) n = None" using assms(1,3) unfolding node_inv_def by (metis not_None_eq)
  then have inv1: "node_inv ?sf2"
    using assms(1) unfolding node_inv_def by (auto simp: put_channel_def update_conv')
  obtain ch3 msgs where hook: "node_setup env parse ?wid (sample_json_str_get raw ''object'') (sample_json_str_get raw ''data'') ?sf2 =
      Inr (0, (put_channel n ch3 ?sf2)\<lparr>llm_tasks := AList.update n t (llm_tasks ?sf2), sf_pushed := msgs\<rparr>)" "chan_ready t ch3"
    using node_setup_ready [of ?sf2 ?wid n ?ch2 parse "sample_json_str_get raw ''data''" cfg t env "sample_json_str_get raw ''object''"]
      len wid chan ch1 assms(6,12,14,15) by (auto simp: put_channel_def)
  let ?sf3 = "(put_channel n ch3 ?sf2)\<lparr>llm_tasks := AList.update n t (llm_tasks ?sf2), sf_pushed := msgs\<rparr>"
  have "sf_setup env (llm_hooks env parse) push_url raw sf = Inr ?sf3"
    using reg get push hook(1) assms(2) by (simp add: sf_setup_def llm_hooks_def sample_get_work_id_def Let_def)
  moreover have "node_inv ?sf3" by (rule node_inv_add [OF inv1 hook(2)])
  ultimately show ?thesis by (intro exI [of _ ?sf3]) (simp add: put_channel_def update_conv')
qed

text \<open>
  An exit request for a task ends it: the task and its channel are gone, the unit manager is told, and
  every other task keeps its channel.
\<close>

theorem node_exit_ends:
  assumes "node_inv sf" "map_of (llm_tasks sf) n = Some t" "int_min \<le> n" "n \<le> int_max"
    and "sample_json_str_get raw ''work_id'' = sample_get_work_id n ''llm''"
    and "push_url \<noteq> []" "out_zmq_url sf \<noteq> []" "sys_answers env ''release_unit'' (sample_get_work_id n ''llm'') (Some r)"
  shows "\<exists>sf1. sf_exit env (llm_hooks env parse) push_url raw sf = Inr sf1 \<and> node_inv sf1 \<and>
           map_of (llm_tasks sf1) n = None \<and> map_of (llm_task_channel sf1) n = None \<and>
           sys_calls sf1 = sys_calls sf @ [(''release_unit'', sample_get_work_id n ''llm'')] \<and>
           (\<forall>other. other \<noteq> n \<longrightarrow> map_of (llm_tasks sf1) other = map_of (llm_tasks sf) other)"
proof -
  let ?wid = "sample_get_work_id n ''llm''"
  obtain ch where ch: "map_of (llm_task_channel sf) n = Some ch" using assms(1,2) by (auto simp: node_inv_def)
  have wid: "sample_get_work_id_num ?wid = Inr n" by (rule work_id_parts(1) [OF _ assms(3,4)]) simp
  obtain ch1 where push: "set_push_url push_url ch = Inr ch1" using set_push_total [OF assms(6)] by blast
  let ?sf1 = "put_channel n ch1 sf"
  have tsp: "try_set_push push_url ?wid sf = Inr ?sf1"
    using wid push ch by (simp add: try_set_push_def get_channel_def)
  have op: "open_sock ZMQ_PUSH (out_zmq_url sf) = Inr (ZMQ_PUSH, out_zmq_url sf)" using assms(7) by simp
  let ?base = "(put_channel n (stop_subscriber [] ch1) ?sf1)\<lparr>llm_tasks := AList.delete n (llm_tasks sf)\<rparr>"
  have "\<exists>msgs. node_exit env ?wid ob d ?sf1 = Inr (0, ?base\<lparr>sf_pushed := msgs\<rparr>)" for ob d
    using wid assms(2) op by (simp add: node_exit_def get_channel_def put_channel_def update_conv sf_send_def Let_def) blast
  then obtain msgs where hook: "run_hook (node_exit env) ?wid raw ?sf1 = Inr (0, ?base\<lparr>sf_pushed := msgs\<rparr>)"
    unfolding run_hook_def by meson
  let ?sf2 = "?base\<lparr>sf_pushed := msgs\<rparr>"
  have rel: "sf_release_unit env (- 1) ?wid ?sf2 =
      Inr (?sf2\<lparr>sys_calls := sys_calls ?sf2 @ [(''release_unit'', ?wid)], llm_task_channel := AList.delete n (llm_task_channel ?sf2)\<rparr>)"
    by (rule release_by_name [OF _ assms(3,4,8)]) simp
  have run: "sf_exit env (llm_hooks env parse) push_url raw sf = sf_release_unit env (- 1) ?wid ?sf2"
    using tsp hook assms(5) by (simp add: sf_exit_def llm_hooks_def Let_def)
  have inv: "node_inv (?sf2\<lparr>sys_calls := sys_calls ?sf2 @ [(''release_unit'', ?wid)], llm_task_channel := AList.delete n (llm_task_channel ?sf2)\<rparr>)"
    using assms(1) by (auto simp: node_inv_def put_channel_def update_conv' delete_conv')
  then show ?thesis using run rel by (simp add: put_channel_def delete_conv')
qed

section \<open>The end of the unit\<close>

definition tasks_have_channels :: "llm_llm \<Rightarrow> bool" where
  "tasks_have_channels sf \<longleftrightarrow> fst ` set (llm_tasks sf) \<subseteq> fst ` set (llm_task_channel sf)"

lemma node_inv_channels: "node_inv sf \<Longrightarrow> tasks_have_channels sf"
  unfolding node_inv_def tasks_have_channels_def by (metis map_of_eq_None_iff not_None_eq subsetI)

lemma destroy_tasks_ends:
  "tasks_have_channels sf \<Longrightarrow> \<exists>sf1. destroy_tasks sf = Inr sf1 \<and> llm_tasks sf1 = [] \<and>
     fst ` set (llm_task_channel sf1) = fst ` set (llm_task_channel sf) \<and> thread_joined sf1 = thread_joined sf"
proof (induction sf rule: destroy_tasks.induct)
  case (1 sf)
  show ?case
  proof (cases "llm_tasks sf")
    case Nil
    then show ?thesis by (simp add: destroy_tasks.simps)
  next
    case (Cons nt ts)
    obtain num t where nt: "nt = (num, t)" by (cases nt)
    have "num \<in> fst ` set (llm_task_channel sf)" using 1(2) Cons nt by (auto simp: tasks_have_channels_def)
    then obtain ch where ch: "get_channel num sf = Inr ch"
      by (cases "map_of (llm_task_channel sf) num") (auto simp: get_channel_def map_of_eq_None_iff)
    let ?sf = "(put_channel num (stop_subscriber [] ch) sf)\<lparr>llm_tasks := AList.delete num (llm_tasks sf)\<rparr>"
    have dom: "fst ` set (llm_task_channel ?sf) = fst ` set (llm_task_channel sf)"
      using \<open>num \<in> fst ` set (llm_task_channel sf)\<close> by (auto simp: put_channel_def dom_update)
    have "tasks_have_channels ?sf"
      using 1(2) dom by (auto simp: tasks_have_channels_def AList.delete_eq)
    from 1(1) [OF Cons nt [symmetric] ch this] dom show ?thesis
      using Cons nt ch by (subst destroy_tasks.simps) (simp add: put_channel_def)
  qed
qed

text \<open>
  The unit's own destructor ends all tasks, but leaves their channels to the flow's, whose second round
  joins the event thread again: a unit with a live task cannot be destroyed without ending the process.
\<close>

theorem node_destructor_throws:
  assumes "node_inv sf" "llm_tasks sf \<noteq> []" "\<not> thread_joined sf" "\<And>wid. sys_answers env ''release_unit'' wid (Some r)"
  shows "destroy_llm_llm (Suc (Suc n)) env sf = Some (Inl (RuntimeError ''system_error''))"
proof -
  have have_chan: "tasks_have_channels sf" by (rule node_inv_channels [OF assms(1)])
  then obtain sf1 where sf1: "destroy_tasks sf = Inr sf1" "fst ` set (llm_task_channel sf1) = fst ` set (llm_task_channel sf)"
    "thread_joined sf1 = thread_joined sf" using destroy_tasks_ends by blast
  have "llm_task_channel sf1 \<noteq> []" using have_chan assms(2) sf1(2) by (auto simp: tasks_have_channels_def)
  then show ?thesis using destructor_joins_twice [of sf1 env r n] assms(3,4) sf1 by (simp add: destroy_llm_llm_def)
qed

section \<open>Examples\<close>

definition node_reply :: string where "node_reply = set_param (to_string 7) (set_param ''ipc://o'' ''ipc://i'')"

definition node_cfg :: json where
  "node_cfg = JObject [(''enoutput'', JBool True), (''model'', JString ''m''), (''response_format'', JString ''llm.utf-8.stream'')]"

definition node_task :: llm_task where
  "node_task = \<lparr>t_model = ''m'', t_response_format = ''llm.utf-8.stream'', t_inputs = [], t_enoutput = True, t_enstream = True\<rparr>"

lemma node_cfg_loads: "load_model node_cfg = Some node_task"
  by (simp add: load_model_def parse_config_def node_cfg_def node_task_def json_at_def read_inputs_def str_contains_def starts_with_def)

theorem node_setup_serves_witness:
  "\<exists>sf1. sf_setup (answering node_reply) (llm_hooks (answering node_reply) (\<lambda>_. Some node_cfg)) ''ipc://u'' ''{}'' (new_llm_llm\<lparr>out_zmq_url := ''ipc://u''\<rparr>) = Inr sf1 \<and>
     node_inv sf1 \<and> map_of (llm_tasks sf1) 7 = Some node_task"
proof -
  let ?sf = "new_llm_llm\<lparr>out_zmq_url := ''ipc://u''\<rparr>"
  have f: "node_inv ?sf" "sf_unit_name ?sf = ''llm''" "llm_task_channel ?sf = []" "out_zmq_url ?sf \<noteq> []"
    by (simp_all add: node_inv_def new_llm_llm_def new_StackFlow_def StackFlow.extend_def)
  obtain sf1 where "sf_setup (answering node_reply) (llm_hooks (answering node_reply) (\<lambda>_. Some node_cfg)) ''ipc://u'' ''{}'' ?sf = Inr sf1"
    "node_inv sf1" "map_of (llm_tasks sf1) 7 = Some node_task"
    using node_setup_serves [of ?sf 7 "''ipc://u''" "''ipc://o''" "''ipc://i''" "answering node_reply" "\<lambda>_. Some node_cfg" "''{}''" node_cfg node_task]
      f node_cfg_loads answering_sys [of node_reply] by (auto simp: task_count_def int_min_def int_max_def node_reply_def)
  then show ?thesis by blast
qed

definition node_chan :: llm_channel_obj where
  "node_chan = \<lparr>zmqs = (\<lambda>_. None)(- 1 := Some (Some (ZMQ_PUB, ''ipc://o'')), - 2 := Some (Some (ZMQ_PUSH, ''ipc://u''))), zmq_url_index = - 1000,
     zmq_url_map = (\<lambda>_. None), ch_unit_name = ''llm'', enoutput = Some True, enstream = Some True, ch_request_id = ''1'', ch_work_id = ''llm.7'',
     ch_inference_url = ''ipc://i'', publisher_url = ''ipc://o'', ch_output_url = ''ipc://u'', ch_sent = []\<rparr>"


end
