(* ===== verification/Demo_Server.thy ===== *)
theory Demo_Server
  imports Json_Value "HOL-Library.AList" "HOL-Library.Sublist"
begin

text \<open>
  The line-based demonstration server (\<open>demo/llm_server.cpp\<close>): reading lines and sending all of a text on
  a blocking socket, the chat sessions with their trimmed histories, and the handling of each request
  of a client, plain or streamed.

  The model behind a session (\<open>LLMUnit\<close>) is an argument: its constructor, its token count and its two
  ways of generating, which may throw.  So are the JSON parser, with its message on a malformed line,
  and the results of the system calls.  Requests are taken one at a time here; \<open>Demo_Clients\<close> runs the
  threads of several clients on one table of sessions.
\<close>

section \<open>Sockets\<close>

text \<open>
  \<open>send_all\<close> with the results of the \<open>send\<close> calls: whether everything was sent, and the bytes the kernel
  took.  \<open>None\<close> is "still sending".
\<close>

fun send_all :: "int list \<Rightarrow> string \<Rightarrow> nat \<Rightarrow> (bool \<times> string) option" where
  "send_all [] data sent = (if sent < length data then None else Some (True, take sent data))"
| "send_all (n # ns) data sent =
     (if sent < length data
      then if n \<le> 0 then Some (False, take sent data) else send_all ns data (sent + nat n)
      else Some (True, take sent data))"

text \<open>\<open>recv_line\<close> on the bytes that still come before the peer disconnects: the line and the rest.\<close>

definition strip_cr :: "string \<Rightarrow> string" where
  "strip_cr s = (if s \<noteq> [] \<and> last s = CHR 0x0D then butlast s else s)"

fun recv_line :: "string \<Rightarrow> string \<Rightarrow> (string \<times> string) option" where
  "recv_line out [] = None"
| "recv_line out (c # cs) = (if c = CHR 0x0A then Some (strip_cr out, cs) else recv_line (out @ [c]) cs)"

section \<open>Sessions and histories\<close>

record demo_msg =
  d_role :: string
  d_content :: string

record 'l demo_session =
  d_llm :: 'l
  d_history :: "demo_msg list"

type_synonym 'l demo_state = "(string \<times> 'l demo_session) list"

definition MAX_CONTEXT_TOKENS :: int where "MAX_CONTEXT_TOKENS = 1800"
definition MAX_TURNS :: nat where "MAX_TURNS = 8"
definition MAX_MESSAGES :: nat where "MAX_MESSAGES = MAX_TURNS * 2"
definition STREAM_FLUSH_CHARS :: nat where "STREAM_FLUSH_CHARS = 16"

abbreviation NL :: string where "NL \<equiv> [CHR 0x0A]"

definition kSystemPrompt :: string where
  "kSystemPrompt = ''<|system|>'' @ NL @
     map char_of [0xE4, 0xBD, 0xA0, 0xE6, 0x98, 0xAF, 0xE4, 0xB8, 0x80, 0xE4, 0xB8, 0xAA, 0xE6, 0x9C, 0x89, 0xE5,
          0xB8, 0xAE, 0xE5, 0x8A, 0xA9, 0xE3, 0x80, 0x81, 0xE5, 0x87, 0x86, 0xE7, 0xA1, 0xAE, 0xE3, 0x80,
          0x81, 0xE7, 0xAE, 0x80, 0xE6, 0xB4, 0x81, 0xE7, 0x9A, 0x84, 0xE4, 0xB8, 0xAD, 0xE6, 0x96, 0x87,
          0xE6, 0x99, 0xBA, 0xE8, 0x83, 0xBD, 0xE5, 0x8A, 0xA9, 0xE6, 0x89, 0x8B, 0xE3, 0x80, 0x82 :: nat] @ NL"

definition render_msg :: "demo_msg \<Rightarrow> string" where
  "render_msg m =
     (if d_role m = ''user'' then ''<|user|>'' @ NL @ d_content m @ NL
      else if d_role m = ''assistant'' then ''<|assistant|>'' @ NL @ d_content m @ NL else [])"

definition full_prompt :: "demo_msg list \<Rightarrow> string" where
  "full_prompt hist = kSystemPrompt @ concat (map render_msg hist) @ ''<|assistant|>'' @ NL"

text \<open>The loop that drops the oldest turn until the prompt fits; \<open>count\<close> is \<open>CountTokens\<close>.\<close>

function trim_history :: "(string \<Rightarrow> int) \<Rightarrow> demo_msg list \<Rightarrow> demo_msg list" where
  "trim_history count hist =
     (if count (full_prompt hist) \<le> MAX_CONTEXT_TOKENS then hist
      else if length hist \<ge> 2 then trim_history count (drop 2 hist) else [])"
  by pat_completeness auto
termination
  by (relation "measure (\<lambda>(_, hist). length hist)") auto

declare trim_history.simps [simp del]

definition cut_history :: "demo_msg list \<Rightarrow> demo_msg list" where
  "cut_history hist = (if length hist > MAX_MESSAGES then drop (length hist - MAX_MESSAGES) hist else hist)"

text \<open>
  \<open>should_flush\<close>: the Chinese punctuation marks of the source are multi-character constants, which no
  single byte equals.
\<close>

definition should_flush :: "string \<Rightarrow> bool" where
  "should_flush buf \<longleftrightarrow> length buf \<ge> STREAM_FLUSH_CHARS \<or> (buf \<noteq> [] \<and> last buf \<in> {CHR 0x0A, CHR ''.'', CHR ''!'', CHR ''?''})"

section \<open>Requests\<close>

text \<open>\<open>'l\<close> is the state of a model object.\<close>

record 'l demo_env =
  de_parse :: "string \<Rightarrow> string + json"
  de_new_llm :: "'l res"
  de_count :: "'l \<Rightarrow> string \<Rightarrow> int"
  de_generate :: "'l \<Rightarrow> string \<Rightarrow> (string + string) \<times> 'l"
  de_stream :: "'l \<Rightarrow> string \<Rightarrow> string list \<times> (string + string) \<times> 'l"

definition get_or_create_session :: "'l demo_env \<Rightarrow> string \<Rightarrow> 'l demo_state \<Rightarrow> ('l demo_session \<times> 'l demo_state) res" where
  "get_or_create_session env sid st =
     (case map_of st sid of
        Some s \<Rightarrow> Inr (s, st)
      | None \<Rightarrow> rbind (de_new_llm env) (\<lambda>l. let s = \<lparr>d_llm = l, d_history = []\<rparr> in Inr (s, AList.update sid s st)))"

fun value_bool :: "json \<Rightarrow> string \<Rightarrow> bool \<Rightarrow> bool res" where
  "value_bool (JObject kvs) k d = (case map_of kvs k of None \<Rightarrow> Inr d | Some (JBool b) \<Rightarrow> Inr b | Some _ \<Rightarrow> Inl type_error)"
| "value_bool _ k d = Inl type_error"

definition demo_error :: "string \<Rightarrow> json" where
  "demo_error msg = JObject [(''message'', JString msg), (''type'', JString ''error'')]"

definition chunk_line :: "string \<Rightarrow> string \<Rightarrow> json" where
  "chunk_line sid d = JObject [(''delta'', JString d), (''session_id'', JString sid), (''type'', JString ''chunk'')]"

text \<open>The chunk callback over the pieces of a generation: the lines sent and the buffer left.\<close>

fun stream_chunks :: "string \<Rightarrow> string list \<Rightarrow> string \<Rightarrow> json list \<times> string" where
  "stream_chunks sid [] buf = ([], buf)"
| "stream_chunks sid (c # cs) buf =
     (if c = [] then stream_chunks sid cs buf
      else if should_flush (buf @ c)
      then (case stream_chunks sid cs [] of (ls, b) \<Rightarrow> (chunk_line sid (buf @ c) # ls, b))
      else stream_chunks sid cs (buf @ c))"

definition user_turn :: "'l demo_env \<Rightarrow> string \<Rightarrow> 'l demo_session \<Rightarrow> 'l demo_session" where
  "user_turn env prompt s =
     s\<lparr>d_history := trim_history (de_count env (d_llm s)) (d_history s @ [\<lparr>d_role = ''user'', d_content = prompt\<rparr>])\<rparr>"

definition assistant_turn :: "string \<Rightarrow> 'l demo_session \<Rightarrow> 'l demo_session" where
  "assistant_turn reply s = s\<lparr>d_history := cut_history (d_history s @ [\<lparr>d_role = ''assistant'', d_content = reply\<rparr>])\<rparr>"

definition chat_plain :: "'l demo_env \<Rightarrow> string \<Rightarrow> 'l demo_session \<Rightarrow> json list \<times> 'l demo_session" where
  "chat_plain env sid s =
     (case de_generate env (d_llm s) (full_prompt (d_history s)) of
        (Inr reply, l) \<Rightarrow>
          ([JObject [(''finish_reason'', JString ''stop''), (''reply'', JString reply), (''session_id'', JString sid), (''type'', JString ''response'')]],
           assistant_turn reply (s\<lparr>d_llm := l\<rparr>))
      | (Inl what, l) \<Rightarrow> ([demo_error (''llm error: '' @ what)], s\<lparr>d_llm := l\<rparr>))"

definition chat_stream :: "'l demo_env \<Rightarrow> string \<Rightarrow> 'l demo_session \<Rightarrow> json list \<times> 'l demo_session" where
  "chat_stream env sid s =
     (let start = JObject [(''session_id'', JString sid), (''type'', JString ''start'')];
          fin = JObject [(''finish_reason'', JString ''stop''), (''session_id'', JString sid), (''type'', JString ''end'')]
      in case de_stream env (d_llm s) (full_prompt (d_history s)) of
           (pieces, r, l) \<Rightarrow>
             (case stream_chunks sid pieces [] of
                (ls, rest) \<Rightarrow>
                  (case r of
                     Inr reply \<Rightarrow> (start # ls @ (if rest \<noteq> [] then [chunk_line sid rest] else []) @ [fin],
                                   assistant_turn reply (s\<lparr>d_llm := l\<rparr>))
                   | Inl what \<Rightarrow> (start # ls @ [demo_error (''llm error: '' @ what)], s\<lparr>d_llm := l\<rparr>))))"

definition handle_chat :: "'l demo_env \<Rightarrow> json \<Rightarrow> string \<Rightarrow> 'l demo_state \<Rightarrow> (json list \<times> 'l demo_state) res" where
  "handle_chat env req sid st =
     rbind (get_or_create_session env sid st) (\<lambda>(s, st1).
       case json_find req ''prompt'' of
         None \<Rightarrow> Inr ([demo_error ''missing 'prompt' field''], st1)
       | Some p \<Rightarrow>
           rbind (get_string p) (\<lambda>prompt. rbind (value_bool req ''stream'' False) (\<lambda>streaming.
             let s1 = user_turn env prompt s;
                 (ls, s2) = (if streaming then chat_stream env sid s1 else chat_plain env sid s1)
             in Inr (ls, AList.update sid s2 st1))))"

text \<open>One line of a client: the lines sent back, whether the connection goes on, and the sessions.\<close>

definition handle_line :: "'l demo_env \<Rightarrow> string \<Rightarrow> 'l demo_state \<Rightarrow> (json list \<times> bool \<times> 'l demo_state) res" where
  "handle_line env line st =
     (if line = [] then Inr ([], True, st)
      else case de_parse env line of
        Inl what \<Rightarrow> Inr ([JObject [(''message'', JString (''invalid json: '' @ what)), (''raw'', JString line), (''type'', JString ''error'')]], True, st)
      | Inr req \<Rightarrow>
          rbind (value_string req ''type'' ''chat'') (\<lambda>type. rbind (value_string req ''session_id'' ''default'') (\<lambda>sid.
            if type = ''exit'' then Inr ([JObject [(''session_id'', JString sid), (''type'', JString ''bye'')]], False, st)
            else rbind (value_bool req ''reset'' False) (\<lambda>reset_flag.
              if type = ''reset'' \<or> reset_flag
              then Inr ([JObject [(''message'', JString ''session reset''), (''session_id'', JString sid), (''type'', JString ''reset'')]], True,
                        AList.delete sid st)
              else if type = ''chat'' then rbind (handle_chat env req sid st) (\<lambda>(ls, st1). Inr (ls, True, st1))
              else Inr ([demo_error (''unknown request type: '' @ type)], True, st)))))"

text \<open>
  The client's thread over the bytes the client sends before it disconnects; the fuel bounds the number
  of lines, and one more than the number of bytes is enough.
\<close>

fun handle_client :: "'l demo_env \<Rightarrow> nat \<Rightarrow> string \<Rightarrow> 'l demo_state \<Rightarrow> (json list \<times> 'l demo_state) res option" where
  "handle_client env 0 inp st = None"
| "handle_client env (Suc n) inp st =
     (case recv_line [] inp of
        None \<Rightarrow> Some (Inr ([], st))
      | Some (line, rest) \<Rightarrow>
          (case handle_line env line st of
             Inl e \<Rightarrow> Some (Inl e)
           | Inr (ls, go_on, st1) \<Rightarrow>
               if go_on then map_option (\<lambda>r. rbind r (\<lambda>(ms, st2). Inr (ls @ ms, st2))) (handle_client env n rest st1)
               else Some (Inr (ls, st1))))"

section \<open>Sending and receiving\<close>

text \<open>What \<open>send\<close> promises: a positive result is at most the number of bytes it was offered.\<close>

fun send_results_ok :: "int list \<Rightarrow> nat \<Rightarrow> bool" where
  "send_results_ok [] len = True"
| "send_results_ok (n # ns) len \<longleftrightarrow> n \<le> int len \<and> (0 < n \<longrightarrow> send_results_ok ns (len - nat n))"

lemma send_all_prefix:
  assumes "send_results_ok ns (length data - sent)" and "sent \<le> length data" and "send_all ns data sent = Some (ok, out)"
  shows "(ok \<longrightarrow> out = data) \<and> (\<exists>rest. data = out @ rest)"
  using assms
proof (induction ns arbitrary: sent)
  case Nil
  then show ?case by (auto split: if_splits)
next
  case (Cons n ns)
  show ?case
  proof (cases "sent < length data \<and> 0 < n")
    case True
    then have "length data - (sent + nat n) = length data - sent - nat n" by simp
    moreover have "sent + nat n \<le> length data" using True Cons.prems(1) by auto
    ultimately show ?thesis using True Cons by (auto simp del: send_all.simps simp: send_all.simps(2))
  next
    case False
    then show ?thesis using Cons.prems by (auto split: if_splits intro: exI [of _ "drop sent data"])
  qed
qed

lemma recv_line_rest: "recv_line out inp = Some (l, rest) \<Longrightarrow> length rest < length inp"
  by (induction inp arbitrary: out) (fastforce split: if_splits)+

text \<open>The complete lines of an input, as the reference for the line reader.\<close>

fun complete_lines :: "string \<Rightarrow> string \<Rightarrow> string list" where
  "complete_lines out [] = []"
| "complete_lines out (c # cs) = (if c = CHR 0x0A then strip_cr out # complete_lines [] cs else complete_lines (out @ [c]) cs)"

lemma complete_lines_recv:
  "complete_lines out inp =
     (case recv_line out inp of None \<Rightarrow> [] | Some (l, rest) \<Rightarrow> l # complete_lines [] rest)"
  by (induction inp arbitrary: out) auto

lemma complete_lines_append_NL:
  "CHR 0x0A \<notin> set l \<Longrightarrow> complete_lines out (l @ NL @ rest) = strip_cr (out @ l) # complete_lines [] rest"
  by (induction l arbitrary: out) auto

section \<open>Histories\<close>

definition prompt_fits :: "(string \<Rightarrow> int) \<Rightarrow> demo_msg list \<Rightarrow> bool" where
  "prompt_fits count hist \<longleftrightarrow> count (full_prompt hist) \<le> MAX_CONTEXT_TOKENS"

lemma trim_history_fits [simp]: "prompt_fits count hist \<Longrightarrow> trim_history count hist = hist"
  by (simp add: trim_history.simps prompt_fits_def)

lemma cut_history_length: "length (cut_history hist) \<le> MAX_MESSAGES"
  by (simp add: cut_history_def)

lemma cut_history_drop: "cut_history hist = drop (length hist - MAX_MESSAGES) hist"
  by (simp add: cut_history_def)

section \<open>Streamed answers\<close>

lemma chunk_line_inj [simp]: "chunk_line sid d = chunk_line sid e \<longleftrightarrow> d = e"
  by (simp add: chunk_line_def)

text \<open>The lines of the chunk callback carry the text of the pieces, cut where \<open>should_flush\<close> says so.\<close>

lemma stream_chunks_spec:
  "\<exists>ds. fst (stream_chunks sid pieces buf) = map (chunk_line sid) ds \<and>
        concat ds @ snd (stream_chunks sid pieces buf) = buf @ concat pieces \<and> list_all should_flush ds"
proof (induction pieces arbitrary: buf)
  case Nil
  then show ?case by simp
next
  case (Cons c cs)
  consider "c = []" | "c \<noteq> []" "should_flush (buf @ c)" | "c \<noteq> []" "\<not> should_flush (buf @ c)" by blast
  then show ?case
  proof cases
    case 2
    obtain ds where ds: "fst (stream_chunks sid cs []) = map (chunk_line sid) ds"
      "concat ds @ snd (stream_chunks sid cs []) = concat cs" "list_all should_flush ds"
      using Cons [of "[]"] by auto
    show ?thesis using 2 ds by (intro exI [of _ "(buf @ c) # ds"]) (simp split: prod.split add: prod_eq_iff)
  next
    case 1
    then show ?thesis using Cons [of buf] by simp
  next
    case 3
    then show ?thesis using Cons [of "buf @ c"] by simp
  qed
qed

lemma should_flush_nonempty: "should_flush d \<Longrightarrow> d \<noteq> []"
  by (auto simp: should_flush_def STREAM_FLUSH_CHARS_def)

section \<open>A client's requests\<close>

text \<open>The session a line names, if it is a JSON object at all.\<close>

definition names_session :: "'l demo_env \<Rightarrow> string \<Rightarrow> string \<Rightarrow> bool" where
  "names_session env sid line \<longleftrightarrow>
     (case de_parse env line of Inl _ \<Rightarrow> False | Inr req \<Rightarrow> value_string req ''session_id'' ''default'' = Inr sid)"

lemma get_or_create_session_frame:
  "get_or_create_session env sid st = Inr (s, st1) \<Longrightarrow> other \<noteq> sid \<Longrightarrow> map_of st1 other = map_of st other"
  by (auto simp: get_or_create_session_def Let_def update_conv' split: option.splits)

lemma handle_chat_frame:
  "handle_chat env req sid st = Inr (ls, st1) \<Longrightarrow> other \<noteq> sid \<Longrightarrow> map_of st1 other = map_of st other"
  by (auto simp: handle_chat_def Let_def update_conv' case_prod_unfold split: option.splits)
     (metis get_or_create_session_frame)+

lemma handle_line_frame:
  assumes "handle_line env line st = Inr (ls, go_on, st1)" and "\<not> names_session env sid line"
  shows "map_of st1 sid = map_of st sid"
  using assms unfolding handle_line_def names_session_def
  by (auto simp: delete_conv' dest: handle_chat_frame [of _ _ _ _ _ _ sid] split: sum.splits if_splits)

text \<open>Serving the lines one after the other, until one of them ends the connection.\<close>

fun serve_lines :: "'l demo_env \<Rightarrow> string list \<Rightarrow> 'l demo_state \<Rightarrow> (json list \<times> 'l demo_state) res" where
  "serve_lines env [] st = Inr ([], st)"
| "serve_lines env (line # lines) st =
     rbind (handle_line env line st) (\<lambda>(ls, go_on, st1).
       if go_on then rbind (serve_lines env lines st1) (\<lambda>(ms, st2). Inr (ls @ ms, st2)) else Inr (ls, st1))"

lemma handle_client_serves:
  "length inp < n \<Longrightarrow> handle_client env n inp st = Some (serve_lines env (complete_lines [] inp) st)"
proof (induction n arbitrary: inp st)
  case 0
  then show ?case by simp
next
  case (Suc n)
  show ?case
  proof (cases "recv_line [] inp")
    case None
    then show ?thesis using complete_lines_recv [of "[]" inp] by simp
  next
    case (Some lr)
    obtain line rest where lr: "lr = (line, rest)" by (cases lr)
    have "length rest < n" using Some lr recv_line_rest Suc.prems by fastforce
    moreover have "complete_lines [] inp = line # complete_lines [] rest"
      using complete_lines_recv [of "[]" inp] Some lr by simp
    ultimately show ?thesis using Some lr Suc.IH by (auto split: sum.splits)
  qed
qed

lemma serve_lines_frame:
  "serve_lines env lines st = Inr (ls, st1) \<Longrightarrow> (\<And>line. line \<in> set lines \<Longrightarrow> \<not> names_session env sid line) \<Longrightarrow>
   map_of st1 sid = map_of st sid"
proof (induction lines arbitrary: st ls)
  case Nil
  then show ?case by simp
next
  case (Cons line lines)
  obtain out go_on st0 where first: "handle_line env line st = Inr (out, go_on, st0)"
    using Cons.prems(1) by auto
  have "map_of st0 sid = map_of st sid" using handle_line_frame [OF first] Cons.prems(2) by simp
  moreover have "go_on \<Longrightarrow> map_of st1 sid = map_of st0 sid"
    using Cons first by auto
  moreover have "\<not> go_on \<Longrightarrow> st1 = st0" using Cons.prems(1) first by simp
  ultimately show ?case by (cases go_on) auto
qed

text \<open>
  A client's thread ends when the client disconnects: with one more unit of fuel than bytes
  it has returned, its answers are those to the complete lines served one after the other, and unless
  an exception ends the process a session named by none of them is as before.
\<close>

theorem client_served_in_order:
  assumes "length inp < n"
  shows "handle_client env n inp st = Some (serve_lines env (complete_lines [] inp) st) \<and>
         (\<forall>out st1 sid. serve_lines env (complete_lines [] inp) st = Inr (out, st1) \<longrightarrow>
            (\<forall>line. line \<in> set (complete_lines [] inp) \<longrightarrow> \<not> names_session env sid line) \<longrightarrow>
            map_of st1 sid = map_of st sid)"
  using handle_client_serves [OF assms] serve_lines_frame by metis

text \<open>
  A streamed chat turn of an existing session: the start line, the pieces of the model's
  text regrouped without loss and without an empty chunk, each but the last ending where
  \<open>should_flush\<close> says so, and the end line; the session remembers the trimmed
  conversation with the whole reply, cut to its last \<open>MAX_MESSAGES\<close> messages, and no other session changes.
\<close>

theorem demo_stream_turn:
  fixes env :: "'l demo_env"
  assumes line: "line \<noteq> []" "de_parse env line = Inr req"
    and req: "value_string req ''type'' ''chat'' = Inr ''chat''" "value_string req ''session_id'' ''default'' = Inr sid"
      "value_bool req ''reset'' False = Inr False" "json_find req ''prompt'' = Some (JString prompt)"
      "value_bool req ''stream'' False = Inr True"
    and sess: "map_of st sid = Some s"
    and hist: "hist = trim_history (de_count env (d_llm s)) (d_history s @ [\<lparr>d_role = ''user'', d_content = prompt\<rparr>])"
    and gen: "de_stream env (d_llm s) (full_prompt hist) = (pieces, Inr reply, l)"
  shows "\<exists>ds st1. handle_line env line st =
             Inr (JObject [(''session_id'', JString sid), (''type'', JString ''start'')] # map (chunk_line sid) ds @
                  [JObject [(''finish_reason'', JString ''stop''), (''session_id'', JString sid), (''type'', JString ''end'')]], True, st1) \<and>
           concat ds = concat pieces \<and> [] \<notin> set ds \<and> list_all should_flush (butlast ds) \<and>
           map_of st1 sid = Some (s\<lparr>d_llm := l, d_history :=
             drop (length hist + 1 - MAX_MESSAGES) (hist @ [\<lparr>d_role = ''assistant'', d_content = reply\<rparr>])\<rparr>) \<and>
           (\<forall>other. other \<noteq> sid \<longrightarrow> map_of st1 other = map_of st other)"
proof -
  let ?fin = "JObject [(''finish_reason'', JString ''stop''), (''session_id'', JString sid), (''type'', JString ''end'')]"
  let ?h = "cut_history (hist @ [\<lparr>d_role = ''assistant'', d_content = reply\<rparr>])"
  obtain ls rest where chunks: "stream_chunks sid pieces [] = (ls, rest)" by fastforce
  obtain ds where ds: "ls = map (chunk_line sid) ds" "concat ds @ rest = concat pieces" "list_all should_flush ds"
    using stream_chunks_spec [of sid pieces "[]"] chunks by auto
  let ?ds = "ds @ (if rest \<noteq> [] then [rest] else [])"
  have "handle_chat env req sid st =
      Inr (JObject [(''session_id'', JString sid), (''type'', JString ''start'')] # map (chunk_line sid) ?ds @ [?fin],
           AList.update sid (s\<lparr>d_llm := l, d_history := ?h\<rparr>) st)"
    using req(4,5) sess gen chunks ds(1)
    by (simp add: handle_chat_def get_or_create_session_def user_turn_def hist [symmetric] chat_stream_def Let_def assistant_turn_def)
  then have run: "handle_line env line st =
      Inr (JObject [(''session_id'', JString sid), (''type'', JString ''start'')] # map (chunk_line sid) ?ds @ [?fin], True,
           AList.update sid (s\<lparr>d_llm := l, d_history := ?h\<rparr>) st)"
    using line req by (simp add: handle_line_def)
  have "[] \<notin> set ds" using ds(3) should_flush_nonempty by (auto simp: list_all_iff)
  moreover have "list_all should_flush (butlast ?ds)"
    using ds(3) by (auto simp: list_all_iff butlast_append dest: in_set_butlastD)
  moreover have "concat ?ds = concat pieces" using ds(2) by auto
  moreover have "?h = drop (length hist + 1 - MAX_MESSAGES) (hist @ [\<lparr>d_role = ''assistant'', d_content = reply\<rparr>])"
    by (simp add: cut_history_drop)
  ultimately show ?thesis using run
    by (intro exI [of _ ?ds] exI [of _ "AList.update sid (s\<lparr>d_llm := l, d_history := ?h\<rparr>) st"])
       (simp add: update_conv' del: drop_append)
qed

text \<open>A model that answers in three pieces, for the witnesses.\<close>

definition demo_env_ex :: "unit demo_env" where
  "demo_env_ex =
     \<lparr>de_parse = (\<lambda>line. if line = ''q'' then Inr (JObject [(''prompt'', JString ''hi''), (''session_id'', JString ''a''), (''stream'', JBool True)])
                       else if line = ''x'' then Inr (JObject [(''session_id'', JString ''a''), (''type'', JString ''exit'')])
                       else Inl ''syntax''),
      de_new_llm = Inr (), de_count = (\<lambda>l p. 100), de_generate = (\<lambda>l p. (Inr ''Hello. You'', ())),
      de_stream = (\<lambda>l p. ([''Hello'', ''.'', '' You''], Inr ''Hello. You'', ()))\<rparr>"

lemma demo_env_ex_fits [simp]: "prompt_fits (de_count demo_env_ex l) hist"
  by (simp add: prompt_fits_def demo_env_ex_def MAX_CONTEXT_TOKENS_def)

theorem client_served_in_order_witness:
  "handle_client demo_env_ex 6 (''z'' @ NL @ ''x'' @ NL) [(''b'', \<lparr>d_llm = (), d_history = []\<rparr>)] =
     Some (serve_lines demo_env_ex [''z'', ''x''] [(''b'', \<lparr>d_llm = (), d_history = []\<rparr>)]) \<and>
   (\<exists>out st1. serve_lines demo_env_ex [''z'', ''x''] [(''b'', \<lparr>d_llm = (), d_history = []\<rparr>)] = Inr (out, st1) \<and>
      length out = 2 \<and> map_of st1 ''b'' = Some \<lparr>d_llm = (), d_history = []\<rparr>)"
proof -
  let ?st = "[(''b'', \<lparr>d_llm = (), d_history = []\<rparr>)]"
  have lines: "complete_lines [] (''z'' @ NL @ ''x'' @ NL) = [''z'', ''x'']" by (simp add: strip_cr_def)
  have none: "\<forall>line. line \<in> set [''z'', ''x''] \<longrightarrow> \<not> names_session demo_env_ex ''b'' line"
    by (simp add: names_session_def demo_env_ex_def)
  obtain out st1 where run: "serve_lines demo_env_ex [''z'', ''x''] ?st = Inr (out, st1)" "length out = 2"
    by (simp add: handle_line_def demo_env_ex_def)
  have all: "handle_client demo_env_ex 6 (''z'' @ NL @ ''x'' @ NL) ?st = Some (serve_lines demo_env_ex [''z'', ''x''] ?st) \<and>
      (\<forall>out st1 sid. serve_lines demo_env_ex [''z'', ''x''] ?st = Inr (out, st1) \<longrightarrow>
         (\<forall>line. line \<in> set [''z'', ''x''] \<longrightarrow> \<not> names_session demo_env_ex sid line) \<longrightarrow> map_of st1 sid = map_of ?st sid)"
    using client_served_in_order [of "''z'' @ NL @ ''x'' @ NL" 6 demo_env_ex ?st] unfolding lines by simp
  then have "map_of st1 ''b'' = map_of ?st ''b''" using run(1) none by blast
  then have "map_of st1 ''b'' = Some \<lparr>d_llm = (), d_history = []\<rparr>" by simp
  then show ?thesis using all run by blast
qed

theorem demo_stream_turn_witness:
  "\<exists>ds st1. handle_line demo_env_ex ''q'' [(''a'', \<lparr>d_llm = (), d_history = []\<rparr>)] =
      Inr (JObject [(''session_id'', JString ''a''), (''type'', JString ''start'')] # map (chunk_line ''a'') ds @
           [JObject [(''finish_reason'', JString ''stop''), (''session_id'', JString ''a''), (''type'', JString ''end'')]], True, st1) \<and>
    concat ds = ''Hello. You'' \<and> list_all should_flush (butlast ds) \<and>
    map_of st1 ''a'' = Some \<lparr>d_llm = (), d_history =
      [\<lparr>d_role = ''user'', d_content = ''hi''\<rparr>, \<lparr>d_role = ''assistant'', d_content = ''Hello. You''\<rparr>]\<rparr>"
proof -
  let ?req = "JObject [(''prompt'', JString ''hi''), (''session_id'', JString ''a''), (''stream'', JBool True)]"
  let ?s = "\<lparr>d_llm = (), d_history = []\<rparr>"
  let ?hist = "[\<lparr>d_role = ''user'', d_content = ''hi''\<rparr>]"
  have p: "de_parse demo_env_ex ''q'' = Inr ?req" by (simp add: demo_env_ex_def)
  have g: "de_stream demo_env_ex (d_llm ?s) (full_prompt ?hist) = ([''Hello'', ''.'', '' You''], Inr ''Hello. You'', ())"
    by (simp add: demo_env_ex_def)
  have h: "?hist = trim_history (de_count demo_env_ex (d_llm ?s)) (d_history ?s @ [\<lparr>d_role = ''user'', d_content = ''hi''\<rparr>])"
    by simp
  show ?thesis
    using demo_stream_turn [of "''q''" demo_env_ex ?req "''a''" "''hi''" "[(''a'', ?s)]" ?s ?hist, OF _ p _ _ _ _ _ _ h g]
    by (simp add: MAX_MESSAGES_def MAX_TURNS_def) blast
qed

text \<open>
  Trimming ends with the longest even-offset suffix of the history whose prompt is within the
  token limit: every shorter cut exceeds the limit, and only when no cut fits is the history empty.
\<close>

theorem trim_history_minimal:
  "\<exists>k. trim_history count hist = drop (2 * k) hist \<and>
       (\<forall>j<k. \<not> prompt_fits count (drop (2 * j) hist)) \<and>
       (prompt_fits count (trim_history count hist) \<or> trim_history count hist = [])"
proof (induction count hist rule: trim_history.induct)
  case (1 count hist)
  show ?case
  proof (cases "prompt_fits count hist")
    case True
    then show ?thesis by (intro exI [of _ 0]) simp
  next
    case not_fit: False
    show ?thesis
    proof (cases "length hist \<ge> 2")
      case True
      have rec: "trim_history count hist = trim_history count (drop 2 hist)"
        using True not_fit by (subst trim_history.simps) (simp add: prompt_fits_def)
      obtain k where k: "trim_history count (drop 2 hist) = drop (2 * k) (drop 2 hist)"
        "\<forall>j<k. \<not> prompt_fits count (drop (2 * j) (drop 2 hist))"
        "prompt_fits count (trim_history count (drop 2 hist)) \<or> trim_history count (drop 2 hist) = []"
        using 1 True not_fit unfolding prompt_fits_def by blast
      have "\<not> prompt_fits count (drop (2 * j) hist)" if "j < Suc k" for j
        using k(2) not_fit that by (cases j) (auto simp: less_Suc_eq_0_disj)
      then show ?thesis using k rec by (intro exI [of _ "Suc k"]) simp
    next
      case False
      then show ?thesis using not_fit
        by (intro exI [of _ 1]) (simp add: trim_history.simps [of count hist] prompt_fits_def)
    qed
  qed
qed

text \<open>
  When the model throws, the user's message stays in the history without an answer, so that failed
  turns add up beyond \<open>MAX_MESSAGES\<close>: the cut happens only after a successful one.
\<close>

lemma failed_turn_keeps_question:
  assumes "de_generate env (d_llm s) (full_prompt (d_history s)) = (Inl what, l)"
  shows "d_history (snd (chat_plain env sid s)) = d_history s"
  using assms by (simp add: chat_plain_def)

end
