(* ===== verification/Llm_Unit.thy ===== *)
theory Llm_Unit
  imports Demo_Server Serving_Context
begin

text \<open>
  The model object of the demonstration programs (\<open>node/llm/LLMUnit.h\<close>, \<open>node/llm/LLMUnit.cpp\<close>): its
  construction, destruction and \<open>Reset\<close> with the handles of the llama library they own, the two-step
  tokeniser and the token count, the prompt template, and the generation loop on a request context.

  The llama library is an argument (\<open>lu_api\<close>): whether a model loads, a context is created and the
  vocabulary exists, and what \<open>llama_tokenize\<close> returns.  Its handles are numbers; freeing a handle that
  is not live is undefined behaviour.  \<open>DecodeOneToken\<close>, which the repository does not define, is an
  argument of the loop.  \<open>sample_top_k\<close> is in \<open>Top_K\<close>.
\<close>

section \<open>Handles of the library\<close>

record llama_world =
  lw_models :: "nat list"
  lw_contexts :: "nat list"
  lw_next :: nat
  lw_backend :: bool

record LLMConfig =
  cfg_n_ctx :: int
  cfg_n_threads :: int
  cfg_max_new_tokens :: int
  cfg_verbose :: bool

definition default_Config :: LLMConfig where
  "default_Config = \<lparr>cfg_n_ctx = 2048, cfg_n_threads = 8, cfg_max_new_tokens = 128, cfg_verbose = False\<rparr>"

record lu_api =
  lu_load :: "string \<Rightarrow> bool"
  lu_init :: "nat \<Rightarrow> int \<Rightarrow> int \<Rightarrow> bool"
  lu_has_vocab :: bool
  lu_hardware_concurrency :: int
  lu_tokenize :: "string \<Rightarrow> nat \<Rightarrow> int \<times> int list"

record LLMUnit =
  model_ptr :: "nat option"
  ctx_ptr :: "nat option"
  unit_cfg :: LLMConfig
  cur_pos :: int

definition load_model_from_file :: "lu_api \<Rightarrow> string \<Rightarrow> llama_world \<Rightarrow> nat option \<times> llama_world" where
  "load_model_from_file api path w =
     (if lu_load api path then (Some (lw_next w), w\<lparr>lw_models := lw_next w # lw_models w, lw_next := Suc (lw_next w)\<rparr>)
      else (None, w))"

definition init_context :: "lu_api \<Rightarrow> nat \<Rightarrow> LLMConfig \<Rightarrow> llama_world \<Rightarrow> nat option \<times> llama_world" where
  "init_context api m cfg w =
     (if lu_init api m (cfg_n_ctx cfg)
           (if cfg_n_threads cfg > 0 then cfg_n_threads cfg else lu_hardware_concurrency api)
      then (Some (lw_next w), w\<lparr>lw_contexts := lw_next w # lw_contexts w, lw_next := Suc (lw_next w)\<rparr>)
      else (None, w))"

definition free_context :: "nat \<Rightarrow> llama_world \<Rightarrow> llama_world res" where
  "free_context k w =
     (if k \<in> set (lw_contexts w) then Inr (w\<lparr>lw_contexts := remove1 k (lw_contexts w)\<rparr>) else Inl UndefinedBehaviour)"

definition free_model :: "nat \<Rightarrow> llama_world \<Rightarrow> llama_world res" where
  "free_model m w =
     (if m \<in> set (lw_models w) then Inr (w\<lparr>lw_models := remove1 m (lw_models w)\<rparr>) else Inl UndefinedBehaviour)"

section \<open>Construction, destruction and reset\<close>

text \<open>A constructor that throws leaves no object behind; the library's state goes on.\<close>

definition new_LLMUnit :: "lu_api \<Rightarrow> string \<Rightarrow> LLMConfig \<Rightarrow> llama_world \<Rightarrow> (LLMUnit res \<times> llama_world) res" where
  "new_LLMUnit api path cfg w =
     (let w0 = w\<lparr>lw_backend := True\<rparr>
      in case load_model_from_file api path w0 of
           (None, w1) \<Rightarrow> Inr (Inl (RuntimeError ''Failed to load model''), w1)
         | (Some m, w1) \<Rightarrow>
             (case init_context api m cfg w1 of
                (None, w2) \<Rightarrow>
                  rbind (free_model m w2) (\<lambda>w3. Inr (Inl (RuntimeError ''Failed to create context''), w3))
              | (Some k, w2) \<Rightarrow>
                  if \<not> lu_has_vocab api
                  then rbind (free_context k w2) (\<lambda>w3. rbind (free_model m w3) (\<lambda>w4.
                         Inr (Inl (RuntimeError ''Failed to get vocab''), w4)))
                  else Inr (Inr \<lparr>model_ptr = Some m, ctx_ptr = Some k, unit_cfg = cfg, cur_pos = 0\<rparr>, w2)))"

definition free_ctx_ptr :: "LLMUnit \<Rightarrow> llama_world \<Rightarrow> (LLMUnit \<times> llama_world) res" where
  "free_ctx_ptr u w =
     (case ctx_ptr u of
        None \<Rightarrow> Inr (u, w)
      | Some k \<Rightarrow> rbind (free_context k w) (\<lambda>w1. Inr (u\<lparr>ctx_ptr := None\<rparr>, w1)))"

definition delete_LLMUnit :: "LLMUnit \<Rightarrow> llama_world \<Rightarrow> llama_world res" where
  "delete_LLMUnit u w =
     rbind (free_ctx_ptr u w) (\<lambda>(u1, w1).
       rbind (case model_ptr u1 of None \<Rightarrow> Inr w1 | Some m \<Rightarrow> free_model m w1)
         (\<lambda>w2. Inr (w2\<lparr>lw_backend := False\<rparr>)))"

text \<open>\<open>Reset\<close>: whether it returned (otherwise it threw), and the object it leaves.\<close>

definition LLMUnit_Reset :: "lu_api \<Rightarrow> LLMUnit \<Rightarrow> llama_world \<Rightarrow> (bool \<times> LLMUnit \<times> llama_world) res" where
  "LLMUnit_Reset api u w =
     rbind (free_ctx_ptr u w) (\<lambda>(u1, w1).
       case model_ptr u1 of
         None \<Rightarrow> Inl UndefinedBehaviour
       | Some m \<Rightarrow>
           (case init_context api m (unit_cfg u1) w1 of
              (None, w2) \<Rightarrow> Inr (False, u1\<lparr>ctx_ptr := None\<rparr>, w2)
            | (Some k, w2) \<Rightarrow> Inr (True, u1\<lparr>ctx_ptr := Some k, cur_pos := 0\<rparr>, w2)))"

section \<open>Prompts and tokens\<close>

definition BuildPrompt :: "string \<Rightarrow> string" where
  "BuildPrompt user_prompt = kSystemPrompt @ ''<|user|>'' @ NL @ user_prompt @ NL @ ''<|assistant|>'' @ NL"

text \<open>Negating the smallest 32-bit integer is undefined.\<close>

definition negate_int32 :: "int \<Rightarrow> int res" where
  "negate_int32 n = (if n = int_min then Inl UndefinedBehaviour else Inr (- n))"

definition CountTokens :: "lu_api \<Rightarrow> string \<Rightarrow> int res" where
  "CountTokens api text =
     (let n = fst (lu_tokenize api text 0) in if n < 0 then negate_int32 n else Inr n)"

definition Tokenize :: "lu_api \<Rightarrow> string \<Rightarrow> int list res" where
  "Tokenize api text =
     (let n0 = fst (lu_tokenize api text 0)
      in rbind (if n0 < 0 then negate_int32 n0 else Inr n0) (\<lambda>n_tokens.
           if n_tokens = 0 then Inl (RuntimeError ''Tokenize got 0 tokens'')
           else let (n, toks) = lu_tokenize api text (nat n_tokens);
                    buf = take (nat n_tokens) toks @ replicate (nat n_tokens - length toks) 0
                in if n < 0 then Inl (RuntimeError ''Failed to tokenize'')
                   else Inr (take (nat n) buf @ replicate (nat n - length buf) 0)))"

section \<open>The generation loop\<close>

text \<open>
  One round is what the other threads do to the context before the loop condition is read, and the
  piece \<open>DecodeOneToken\<close> returns in that round; \<open>after\<close> is what they do between the loop and the test of
  \<open>finished\<close> behind it; \<open>None\<close> is "still generating".  \<open>reached_limit\<close> is never
  assigned.
\<close>

definition unit_finish :: "'w Callbacks \<Rightarrow> bool \<Rightarrow> 'w ServingContext \<Rightarrow> 'w ServingContext" where
  "unit_finish cb reached_limit ctx =
     (if finished ctx then ctx
      else if is_cancelled ctx then EmitFinish cb Cancelled ctx
      else if reached_limit then EmitFinish cb Length ctx
      else EmitFinish cb Stop ctx)"

fun LLMUnit_Generate :: "'w Callbacks \<Rightarrow> ('w ServingContext \<Rightarrow> 'w ServingContext) \<Rightarrow> (('w ServingContext \<Rightarrow> 'w ServingContext) \<times> string) list \<Rightarrow> 'w ServingContext
    \<Rightarrow> 'w ServingContext option" where
  "LLMUnit_Generate cb after [] ctx = None"
| "LLMUnit_Generate cb after ((f, piece) # rounds) ctx =
     (let ctx1 = f ctx
      in if is_cancelled ctx1 \<or> finished ctx1 then Some (unit_finish cb False (after ctx1))
         else if piece = [] then Some (unit_finish cb False (after ctx1))
         else LLMUnit_Generate cb after rounds (EmitDelta cb piece ctx1))"

section \<open>Ownership\<close>

lemmas unit_ops = new_LLMUnit_def load_model_from_file_def init_context_def free_context_def free_model_def
  free_ctx_ptr_def delete_LLMUnit_def LLMUnit_Reset_def

text \<open>The object owns exactly the handles that came after those of the lists.\<close>

definition owns :: "nat list \<Rightarrow> nat list \<Rightarrow> LLMUnit \<Rightarrow> llama_world \<Rightarrow> bool" where
  "owns ms ks u w \<longleftrightarrow>
     (\<exists>m. model_ptr u = Some m \<and> lw_models w = m # ms) \<and>
     lw_contexts w = (case ctx_ptr u of None \<Rightarrow> ks | Some k \<Rightarrow> k # ks)"

fun run_resets :: "lu_api list \<Rightarrow> LLMUnit \<Rightarrow> llama_world \<Rightarrow> (LLMUnit \<times> llama_world) res" where
  "run_resets [] u w = Inr (u, w)"
| "run_resets (api # apis) u w = rbind (LLMUnit_Reset api u w) (\<lambda>(ok, u1, w1). run_resets apis u1 w1)"

lemma new_LLMUnit_owns:
  "\<exists>r w1. new_LLMUnit api path cfg w = Inr (r, w1) \<and>
     (case r of
        Inl e \<Rightarrow> lw_models w1 = lw_models w \<and> lw_contexts w1 = lw_contexts w
      | Inr u \<Rightarrow> owns (lw_models w) (lw_contexts w) u w1 \<and> ctx_ptr u \<noteq> None)"
  by (simp add: unit_ops owns_def Let_def)

lemma LLMUnit_Reset_owns:
  assumes "owns ms ks u w"
  shows "\<exists>ok u1 w1. LLMUnit_Reset api u w = Inr (ok, u1, w1) \<and> owns ms ks u1 w1 \<and>
           (ok \<longleftrightarrow> ctx_ptr u1 \<noteq> None) \<and> (ok \<longrightarrow> cur_pos u1 = 0)"
  using assms by (cases "ctx_ptr u") (auto simp: unit_ops owns_def)

lemma run_resets_owns:
  "owns ms ks u w \<Longrightarrow> \<exists>u1 w1. run_resets apis u w = Inr (u1, w1) \<and> owns ms ks u1 w1"
proof (induction apis arbitrary: u w)
  case Nil
  then show ?case by simp
next
  case (Cons api apis)
  obtain ok u1 w1 where "LLMUnit_Reset api u w = Inr (ok, u1, w1)" "owns ms ks u1 w1"
    using LLMUnit_Reset_owns [OF Cons.prems] by metis
  then show ?case using Cons.IH by simp
qed

lemma delete_LLMUnit_owns:
  assumes "owns ms ks u w"
  shows "\<exists>w1. delete_LLMUnit u w = Inr w1 \<and> lw_models w1 = ms \<and> lw_contexts w1 = ks"
  using assms by (cases "ctx_ptr u") (auto simp: unit_ops owns_def)

text \<open>
  Claim C33. A model object leaks nothing and frees nothing twice: a constructor that throws has given
  back what it acquired, and after any number of resets, whether they succeed or throw, the
  destructor leaves exactly the models and contexts that were live before.
\<close>

theorem llm_unit_resources:
  "\<exists>r w1. new_LLMUnit api path cfg w = Inr (r, w1) \<and>
     (case r of
        Inl e \<Rightarrow> lw_models w1 = lw_models w \<and> lw_contexts w1 = lw_contexts w
      | Inr u \<Rightarrow> (\<exists>u2 w2 w3. run_resets apis u w1 = Inr (u2, w2) \<and> delete_LLMUnit u2 w2 = Inr w3 \<and>
                    lw_models w3 = lw_models w \<and> lw_contexts w3 = lw_contexts w))"
proof -
  obtain r w1 where new: "new_LLMUnit api path cfg w = Inr (r, w1)"
    "case r of Inl e \<Rightarrow> lw_models w1 = lw_models w \<and> lw_contexts w1 = lw_contexts w
       | Inr u \<Rightarrow> owns (lw_models w) (lw_contexts w) u w1 \<and> ctx_ptr u \<noteq> None"
    using new_LLMUnit_owns by meson
  show ?thesis
  proof (cases r)
    case (Inl e)
    then show ?thesis using new by auto
  next
    case (Inr u)
    then have "owns (lw_models w) (lw_contexts w) u w1" using new(2) by simp
    from run_resets_owns [OF this] obtain u2 w2
      where runs: "run_resets apis u w1 = Inr (u2, w2)" "owns (lw_models w) (lw_contexts w) u2 w2" by meson
    from delete_LLMUnit_owns [OF runs(2)] obtain w3
      where "delete_LLMUnit u2 w2 = Inr w3" "lw_models w3 = lw_models w" "lw_contexts w3 = lw_contexts w" by meson
    with runs(1) new(1) Inr show ?thesis by simp
  qed
qed

text \<open>The destructor of any one object also shuts down the library's backend, whoever still uses it.\<close>

lemma delete_LLMUnit_stops_backend: "delete_LLMUnit u w = Inr w1 \<Longrightarrow> \<not> lw_backend w1"
  by (auto simp: delete_LLMUnit_def)

section \<open>Tokens\<close>

text \<open>
  What \<open>llama_tokenize\<close> documents: it returns the number of tokens and writes them if they fit, and
  otherwise the negated number.
\<close>

definition tokenizes_as :: "lu_api \<Rightarrow> string \<Rightarrow> int list \<Rightarrow> bool" where
  "tokenizes_as api text toks \<longleftrightarrow>
     length toks \<le> 2147483647 \<and>
     (\<forall>cap. lu_tokenize api text cap = (if length toks \<le> cap then (int (length toks), toks) else (- int (length toks), [])))"

text \<open>
  With a tokeniser that keeps to its documentation the two-step \<open>Tokenize\<close> returns exactly
  the tokens of the text, as many as \<open>CountTokens\<close> says, and throws exactly for a text without tokens.
\<close>

theorem tokenize_agrees_with_count:
  assumes "tokenizes_as api text toks"
  shows "CountTokens api text = Inr (int (length toks)) \<and>
         Tokenize api text = (if toks = [] then Inl (RuntimeError ''Tokenize got 0 tokens'') else Inr toks)"
  using assms
  by (cases toks) (auto simp: tokenizes_as_def CountTokens_def Tokenize_def negate_int32_def int_min_def Let_def)

text \<open>The template of the object is the demonstration server's prompt for a single question.\<close>

lemma BuildPrompt_full_prompt: "BuildPrompt p = full_prompt [\<lparr>d_role = ''user'', d_content = p\<rparr>]"
  by (simp add: BuildPrompt_def full_prompt_def render_msg_def)

section \<open>Generation\<close>

context well_behaved_callbacks
begin

lemma unit_finish_finished: "finished (unit_finish cb b ctx)"
  by (simp add: unit_finish_def)

lemma generate_returns_finished:
  "f_empty \<in> set rounds \<Longrightarrow> snd f_empty = [] \<Longrightarrow>
   \<exists>ctx1. LLMUnit_Generate cb after rounds ctx = Some ctx1 \<and> finished ctx1"
proof (induction rounds arbitrary: ctx)
  case Nil
  then show ?case by simp
next
  case (Cons r rounds)
  obtain g piece where r: "r = (g, piece)" by (cases r)
  show ?case
  proof (cases "is_cancelled (g ctx) \<or> finished (g ctx) \<or> piece = []")
    case True
    then show ?thesis using r by (auto simp: Let_def unit_finish_finished)
  next
    case False
    then have "f_empty \<in> set rounds" using Cons.prems r by auto
    from Cons.IH [OF this Cons.prems(2), of "EmitDelta cb piece (g ctx)"] False r show ?thesis by simp
  qed
qed

end

text \<open>
  As soon as a round decodes an empty piece the loop has returned, whatever the other threads
  do, and the request is finished.
\<close>

theorem generate_finishes:
  assumes "well_behaved_callbacks cb" and "(f, []) \<in> set rounds"
  shows "\<exists>ctx1. LLMUnit_Generate cb after rounds ctx = Some ctx1 \<and> finished ctx1"
  using well_behaved_callbacks.generate_returns_finished [OF assms(1,2)] by simp

text \<open>Undisturbed and without a chunk callback, the text is that of the pieces up to the first empty one.\<close>

lemma generate_text:
  assumes "on_chunk cb = None" and "on_finish cb = None" and "[] \<notin> set pieces"
  shows "\<not> finished ctx \<Longrightarrow> \<not> is_cancelled ctx \<Longrightarrow>
    LLMUnit_Generate cb id (map (Pair id) (pieces @ [[]])) ctx =
      Some (ctx\<lparr>final_text := final_text ctx @ concat pieces, finished := True, finish_reason := Stop\<rparr>)"
  using assms(3)
proof (induction pieces arbitrary: ctx)
  case Nil
  then show ?case using assms(1,2)
    by (simp add: unit_finish_def EmitFinish_def call_on_chunk_def call_on_finish_def)
next
  case (Cons p pieces)
  let ?ctx = "ctx\<lparr>final_text := final_text ctx @ p\<rparr>"
  have "EmitDelta cb p ctx = ?ctx" using Cons.prems(1) assms(1) by (simp add: EmitDelta_def call_on_chunk_def)
  moreover have "p \<noteq> []" using Cons.prems(3) by auto
  ultimately show ?case using Cons.prems Cons.IH [of ?ctx] by simp
qed

text \<open>The reason \<open>length\<close> is never reported: \<open>reached_limit\<close> is constant.\<close>

lemma unit_finish_not_length:
  assumes "on_chunk cb = None" "on_finish cb = None" "\<not> finished ctx"
  shows "finish_reason (unit_finish cb False ctx) \<noteq> Length"
  using assms by (simp add: unit_finish_def EmitFinish_def call_on_chunk_def call_on_finish_def)

section \<open>Examples\<close>

definition lu_api_ex :: lu_api where
  "lu_api_ex = \<lparr>lu_load = (\<lambda>p. p = ''m.gguf''), lu_init = (\<lambda>m n t. 0 < n), lu_has_vocab = True, lu_hardware_concurrency = 4,
     lu_tokenize = (\<lambda>text cap. if length text \<le> cap then (int (length text), map (int \<circ> of_char) text) else (- int (length text), []))\<rparr>"

theorem tokenize_agrees_with_count_witness:
  "CountTokens lu_api_ex ''ab'' = Inr 2 \<and> Tokenize lu_api_ex ''ab'' = Inr [97, 98]"
proof -
  have "tokenizes_as lu_api_ex ''ab'' [97, 98]" by (simp add: tokenizes_as_def lu_api_ex_def)
  from tokenize_agrees_with_count [OF this] show ?thesis by simp
qed

theorem generate_finishes_witness:
  "\<exists>ctx1. LLMUnit_Generate \<lparr>on_chunk = None, on_finish = None\<rparr> id [(id, ''a''), (id, [])] (new_context ()) = Some ctx1 \<and> finished ctx1"
  by (rule generate_finishes [of _ id]) (auto intro!: well_behaved_callbacks.intro)

end
