(* ===== verification/Engine_Life.thy ===== *)
theory Engine_Life
  imports Engines Llm_Unit
begin

text \<open>
  Construction and destruction of \<open>LlamaEngine\<close> (\<open>engine/LlamaEngine.cc\<close>) with the handles of the llama
  library, and concurrent calls of \<open>EngineFactory::Create\<close> (\<open>engine/EngineFactory.cc\<close>): the lookup under the
  lock, the construction outside it, the second look under the lock, and the destruction of an engine that came
  too late, which happens after the lock is released.  The steps of the threads come in any order.
\<close>

section \<open>The engine object\<close>

definition new_LlamaEngine :: "lu_api \<Rightarrow> string \<Rightarrow> llama_world \<Rightarrow> (nat \<times> llama_world) res" where
  "new_LlamaEngine api path w =
     (case load_model_from_file api path (w\<lparr>lw_backend := True\<rparr>) of
        (None, _) \<Rightarrow> Inl AssertFailed
      | (Some m, w1) \<Rightarrow> Inr (m, w1))"

definition delete_LlamaEngine :: "nat \<Rightarrow> llama_world \<Rightarrow> llama_world res" where
  "delete_LlamaEngine m w = rbind (free_model m w) (\<lambda>w1. Inr (w1\<lparr>lw_backend := False\<rparr>))"

section \<open>Concurrent creation\<close>

text \<open>
  Where a call is: before the first lock, before the construction, before the second lock with the engine it
  built, about to drop the engine it built (the second component is what it returns), or returned.
\<close>

datatype create_pc =
    Looking string
  | Building string
  | Built string Engine
  | Dropping Engine string Engine
  | Returned string "Engine option"

record factory =
  fa_world :: llama_world
  fa_cache :: "string \<rightharpoonup> Engine"
  fa_pc :: "nat \<Rightarrow> create_pc"

definition set_create_pc :: "nat \<Rightarrow> create_pc \<Rightarrow> factory \<Rightarrow> factory" where
  "set_create_pc i p s = s\<lparr>fa_pc := (fa_pc s)(i := p)\<rparr>"

text \<open>\<open>CreateNewEngine\<close> with the library's state; a dummy engine of thread \<open>i\<close> is known by the thread.\<close>

definition build_engine :: "lu_api \<Rightarrow> environ \<Rightarrow> nat \<Rightarrow> string \<Rightarrow> llama_world \<Rightarrow> (Engine option \<times> llama_world) res" where
  "build_engine api e i model w =
     (if model = ''llama''
      then (let path = GetEnvOrDefault e ''LLAMA_MODEL_PATH'' default_model_path
            in rbind (new_LlamaEngine api path w) (\<lambda>(m, w1). Inr (Some (Llama m path), w1)))
      else if model = ''dummy'' then Inr (Some (Dummy i ''Hello''), w)
      else Inr (None, w))"

definition drop_engine :: "Engine \<Rightarrow> llama_world \<Rightarrow> llama_world res" where
  "drop_engine eng w = (case eng of Llama m _ \<Rightarrow> delete_LlamaEngine m w | Dummy _ _ \<Rightarrow> Inr w)"

definition create_step :: "lu_api \<Rightarrow> environ \<Rightarrow> nat \<Rightarrow> factory \<Rightarrow> factory res" where
  "create_step api e i s =
     (case fa_pc s i of
        Looking model \<Rightarrow>
          Inr (case fa_cache s model of
                 Some eng \<Rightarrow> set_create_pc i (Returned model (Some eng)) s
               | None \<Rightarrow> set_create_pc i (Building model) s)
      | Building model \<Rightarrow>
          rbind (build_engine api e i model (fa_world s)) (\<lambda>(new, w).
            Inr (set_create_pc i (case new of None \<Rightarrow> Returned model None | Some eng \<Rightarrow> Built model eng) (s\<lparr>fa_world := w\<rparr>)))
      | Built model eng \<Rightarrow>
          Inr (case fa_cache s model of
                 None \<Rightarrow> set_create_pc i (Returned model (Some eng)) (s\<lparr>fa_cache := (fa_cache s)(model \<mapsto> eng)\<rparr>)
               | Some old \<Rightarrow> set_create_pc i (Dropping eng model old) s)
      | Dropping eng model old \<Rightarrow>
          rbind (drop_engine eng (fa_world s)) (\<lambda>w. Inr (set_create_pc i (Returned model (Some old)) (s\<lparr>fa_world := w\<rparr>)))
      | Returned _ _ \<Rightarrow> Inr s)"

fun run_creates :: "lu_api \<Rightarrow> environ \<Rightarrow> nat list \<Rightarrow> factory \<Rightarrow> factory res" where
  "run_creates api e [] s = Inr s"
| "run_creates api e (i # is) s = rbind (create_step api e i s) (run_creates api e is)"

definition new_world :: llama_world where
  "new_world = \<lparr>lw_models = [], lw_contexts = [], lw_next = 0, lw_backend = False\<rparr>"

definition start_creates :: "(nat \<Rightarrow> string) \<Rightarrow> factory" where
  "start_creates models = \<lparr>fa_world = new_world, fa_cache = Map.empty, fa_pc = (\<lambda>i. Looking (models i))\<rparr>"

section \<open>The invariant\<close>

text \<open>The handle of an engine, and the handle a call holds apart from the cache.\<close>

definition handle :: "Engine \<Rightarrow> nat option" where
  "handle eng = (case eng of Llama m _ \<Rightarrow> Some m | Dummy _ _ \<Rightarrow> None)"

definition in_hand :: "create_pc \<Rightarrow> nat option" where
  "in_hand p = (case p of Built _ eng \<Rightarrow> handle eng | Dropping eng _ _ \<Rightarrow> handle eng | _ \<Rightarrow> None)"

definition cached :: "factory \<Rightarrow> nat set" where
  "cached s = {m. \<exists>model eng. fa_cache s model = Some eng \<and> handle eng = Some m}"

definition live_ok :: "factory \<Rightarrow> bool" where
  "live_ok s \<longleftrightarrow> distinct (lw_models (fa_world s)) \<and> (\<forall>m \<in> set (lw_models (fa_world s)). m < lw_next (fa_world s))
     \<and> set (lw_models (fa_world s)) = cached s \<union> {m. \<exists>i. in_hand (fa_pc s i) = Some m}"

definition in_hand_ok :: "factory \<Rightarrow> bool" where
  "in_hand_ok s \<longleftrightarrow> (\<forall>i m. in_hand (fa_pc s i) = Some m \<longrightarrow> m \<notin> cached s \<and> (\<forall>j. in_hand (fa_pc s j) = Some m \<longrightarrow> j = i))"

definition result_ok :: "factory \<Rightarrow> bool" where
  "result_ok s \<longleftrightarrow> (\<forall>i model eng. fa_pc s i = Returned model (Some eng) \<or> (\<exists>old. fa_pc s i = Dropping old model eng)
     \<longrightarrow> fa_cache s model = Some eng)"

definition factory_ok :: "factory \<Rightarrow> bool" where
  "factory_ok s \<longleftrightarrow> live_ok s \<and> in_hand_ok s \<and> result_ok s"

lemmas factory_defs = factory_ok_def live_ok_def in_hand_ok_def result_ok_def

lemma factory_ok_pc:
  assumes "factory_ok s" "in_hand p = in_hand (fa_pc s i)"
    and "\<And>model eng old. p = Returned model (Some eng) \<or> p = Dropping old model eng \<Longrightarrow> fa_cache s model = Some eng"
  shows "factory_ok (set_create_pc i p s)"
proof -
  have "in_hand (((fa_pc s)(i := p)) j) = in_hand (fa_pc s j)" for j using assms(2) by simp
  then have "live_ok (set_create_pc i p s)" "in_hand_ok (set_create_pc i p s)"
    using assms(1) by (simp_all add: factory_defs set_create_pc_def cached_def)
  moreover have "result_ok (set_create_pc i p s)"
    using assms(1,3) by (auto simp: factory_defs set_create_pc_def)
  ultimately show ?thesis by (simp add: factory_ok_def)
qed

text \<open>Building adds one live handle, which only the builder holds.\<close>

lemma factory_ok_build:
  assumes "factory_ok s" "fa_pc s i = Building model" "model = ''llama''"
  shows "factory_ok (set_create_pc i (Built model (Llama (lw_next (fa_world s)) path))
     (s\<lparr>fa_world := (fa_world s)\<lparr>lw_backend := True, lw_models := lw_next (fa_world s) # lw_models (fa_world s),
        lw_next := Suc (lw_next (fa_world s))\<rparr>\<rparr>))" (is "factory_ok ?s'")
proof -
  let ?m = "lw_next (fa_world s)"
  have old: "live_ok s" "in_hand_ok s" "result_ok s" using assms(1) by (simp_all add: factory_ok_def)
  then have fresh: "?m \<notin> cached s" "\<And>j. in_hand (fa_pc s j) \<noteq> Some ?m"
    by (auto simp: live_ok_def)
  have c: "cached ?s' = cached s" by (simp add: cached_def set_create_pc_def)
  have h: "in_hand (fa_pc ?s' j) = (if j = i then Some ?m else in_hand (fa_pc s j))" for j
    by (simp add: set_create_pc_def in_hand_def handle_def)
  have i: "in_hand (fa_pc s i) = None" using assms(2) by (simp add: in_hand_def)
  have "{m. \<exists>j. in_hand (fa_pc ?s' j) = Some m} = insert ?m {m. \<exists>j. in_hand (fa_pc s j) = Some m}"
  proof -
    have "\<exists>j. j \<noteq> i \<and> in_hand (fa_pc s j) = Some m" if "in_hand (fa_pc s j) = Some m" for j m
      using that i by (intro exI [of _ j]) auto
    then show ?thesis unfolding h by (auto split: if_splits)
  qed
  then have "live_ok ?s'" using old(1) unfolding live_ok_def c by (auto simp: set_create_pc_def less_Suc_eq)
  moreover have "in_hand_ok ?s'" using old(2) fresh unfolding in_hand_ok_def c h by (auto split: if_splits)
  moreover have "result_ok ?s'" using old(3) by (auto simp: result_ok_def set_create_pc_def)
  ultimately show ?thesis by (simp add: factory_ok_def)
qed

lemma factory_ok_store:
  assumes "factory_ok s" "fa_pc s i = Built model eng" "fa_cache s model = None"
  shows "factory_ok (set_create_pc i (Returned model (Some eng)) (s\<lparr>fa_cache := (fa_cache s)(model \<mapsto> eng)\<rparr>))" (is "factory_ok ?s'")
proof -
  have old: "live_ok s" "in_hand_ok s" "result_ok s" using assms(1) by (simp_all add: factory_ok_def)
  have c: "cached ?s' = cached s \<union> {m. handle eng = Some m}"
  proof -
    have "m \<in> cached ?s'" if "fa_cache s k = Some g" "handle g = Some m" for m k g
    proof -
      have "k \<noteq> model" using that(1) assms(3) by auto
      then show ?thesis using that by (auto simp: cached_def set_create_pc_def)
    qed
    then have "cached s \<subseteq> cached ?s'" by (auto simp: cached_def [of s])
    then show ?thesis by (auto simp: cached_def set_create_pc_def split: if_splits)
  qed
  have h: "in_hand (fa_pc ?s' j) = (if j = i then None else in_hand (fa_pc s j))" for j
    by (simp add: set_create_pc_def in_hand_def)
  have i: "in_hand (fa_pc s i) = handle eng" using assms(2) by (simp add: in_hand_def)
  have "{m. handle eng = Some m} \<union> {m. \<exists>j. in_hand (fa_pc ?s' j) = Some m} = {m. \<exists>j. in_hand (fa_pc s j) = Some m}"
    unfolding h using i by (auto split: if_splits) metis
  then have "live_ok ?s'" using old(1) unfolding live_ok_def c by (simp add: set_create_pc_def Un_assoc)
  moreover have "in_hand_ok ?s'" using old(2) i unfolding in_hand_ok_def c h by (auto split: if_splits)
  moreover have "result_ok ?s'" using old(3) assms(3) by (fastforce simp: result_ok_def set_create_pc_def)
  ultimately show ?thesis by (simp add: factory_ok_def)
qed

lemma factory_ok_drop:
  assumes "factory_ok s" "fa_pc s i = Dropping (Llama m path) model old"
  shows "m \<in> set (lw_models (fa_world s)) \<and> factory_ok (set_create_pc i (Returned model (Some old))
     (s\<lparr>fa_world := (fa_world s)\<lparr>lw_models := remove1 m (lw_models (fa_world s)), lw_backend := False\<rparr>\<rparr>))" (is "_ \<and> factory_ok ?s'")
proof -
  have ok: "live_ok s" "in_hand_ok s" "result_ok s" using assms(1) by (simp_all add: factory_ok_def)
  have i: "in_hand (fa_pc s i) = Some m" using assms(2) by (simp add: in_hand_def handle_def)
  have c: "cached ?s' = cached s" by (simp add: cached_def set_create_pc_def)
  have h: "in_hand (fa_pc ?s' j) = (if j = i then None else in_hand (fa_pc s j))" for j
    by (simp add: set_create_pc_def in_hand_def)
  have only: "m \<notin> cached s" "\<And>j. in_hand (fa_pc s j) = Some m \<Longrightarrow> j = i" using ok(2) i by (auto simp: in_hand_ok_def)
  have "in_hand (fa_pc ?s' j) = Some x \<longleftrightarrow> in_hand (fa_pc s j) = Some x \<and> x \<noteq> m" for j x
    using i only(2) [of j] by (cases "j = i") (auto simp: h simp del: fun_upd_apply)
  then have "{x. \<exists>j. in_hand (fa_pc ?s' j) = Some x} = {x. \<exists>j. in_hand (fa_pc s j) = Some x} - {m}" by auto
  then have "live_ok ?s'" using ok(1) only(1) unfolding live_ok_def c by (auto simp: set_create_pc_def)
  moreover have "in_hand_ok ?s'" using ok(2) unfolding in_hand_ok_def c h by (auto split: if_splits)
  moreover have "result_ok ?s'" using ok(3) assms(2) by (auto simp: result_ok_def set_create_pc_def)
  moreover have "m \<in> set (lw_models (fa_world s))" using ok(1) i by (auto simp: live_ok_def)
  ultimately show ?thesis by (simp add: factory_ok_def)
qed

lemma new_LlamaEngine_loads:
  "lu_load api path \<Longrightarrow> new_LlamaEngine api path w =
     Inr (lw_next w, w\<lparr>lw_backend := True, lw_models := lw_next w # lw_models w, lw_next := Suc (lw_next w)\<rparr>)"
  by (simp add: new_LlamaEngine_def load_model_from_file_def)

lemma create_step_ok:
  assumes "lu_load api (GetEnvOrDefault e ''LLAMA_MODEL_PATH'' default_model_path)" "factory_ok s"
  shows "\<exists>s'. create_step api e i s = Inr s' \<and> factory_ok s'"
proof (cases "fa_pc s i")
  case (Looking model)
  then show ?thesis using assms(2)
    by (cases "fa_cache s model") (auto simp: create_step_def in_hand_def intro!: factory_ok_pc)
next
  case (Building model)
  have *: "factory_ok (set_create_pc i p (s\<lparr>fa_world := fa_world s\<rparr>))"
    if "p = Returned model None \<or> p = Built model (Dummy i ''Hello'')" for p
    using that Building factory_ok_pc [OF assms(2), of p i] by (auto simp: in_hand_def handle_def)
  consider "model = ''llama''" | "model = ''dummy''" | "model \<noteq> ''llama''" "model \<noteq> ''dummy''" by blast
  then show ?thesis
  proof cases
    case 1
    then show ?thesis using Building factory_ok_build [OF assms(2) Building 1] new_LlamaEngine_loads [OF assms(1)]
      by (simp add: create_step_def build_engine_def)
  next
    case 2
    then show ?thesis using Building * by (simp add: create_step_def build_engine_def)
  next
    case 3
    then show ?thesis using Building * by (simp add: create_step_def build_engine_def)
  qed
next
  case (Built model eng)
  then show ?thesis using assms(2) factory_ok_store [OF assms(2) Built]
    by (cases "fa_cache s model") (auto simp: create_step_def in_hand_def intro!: factory_ok_pc)
next
  case (Dropping eng model old)
  show ?thesis
  proof (cases eng)
    case (Llama m path)
    then show ?thesis using Dropping factory_ok_drop [OF assms(2), of i m path model old]
      by (simp add: create_step_def drop_engine_def delete_LlamaEngine_def free_model_def)
  next
    case (Dummy d greeting)
    have "fa_cache s model = Some old" using assms(2) Dropping unfolding factory_ok_def result_ok_def by blast
    then have "factory_ok (set_create_pc i (Returned model (Some old)) s)"
      using factory_ok_pc [OF assms(2), of "Returned model (Some old)" i] Dropping Dummy
      by (auto simp: in_hand_def handle_def)
    then show ?thesis using Dropping Dummy by (simp add: create_step_def drop_engine_def)
  qed
next
  case (Returned model r)
  then show ?thesis using assms(2) by (simp add: create_step_def)
qed

lemma run_creates_ok:
  assumes "lu_load api (GetEnvOrDefault e ''LLAMA_MODEL_PATH'' default_model_path)" "factory_ok s"
  shows "\<exists>s'. run_creates api e is s = Inr s' \<and> factory_ok s'"
  using assms(2)
proof (induction "is" arbitrary: s)
  case (Cons i "is")
  obtain s1 where "create_step api e i s = Inr s1" "factory_ok s1" using create_step_ok [OF assms(1) Cons.prems] by blast
  then show ?case using Cons.IH by simp
qed simp

lemma start_creates_ok: "factory_ok (start_creates models)"
  by (simp add: factory_defs start_creates_def new_world_def cached_def in_hand_def)

section \<open>Properties\<close>

text \<open>
  Claim C4. However calls of \<open>EngineFactory::Create\<close> interleave, no handle of the library is freed twice or used
  after it was freed; two calls for the same model that returned engines returned the same one; and once every call
  has returned, the live models are exactly those of the cached engines: an engine that came too late is gone.
\<close>

theorem concurrent_creates_share:
  assumes "lu_load api (GetEnvOrDefault e ''LLAMA_MODEL_PATH'' default_model_path)"
  shows "\<exists>s. run_creates api e is (start_creates models) = Inr s
    \<and> (\<forall>i j model a b. fa_pc s i = Returned model (Some a) \<and> fa_pc s j = Returned model (Some b) \<longrightarrow> a = b)
    \<and> ((\<forall>i. \<exists>model r. fa_pc s i = Returned model r \<or> fa_pc s i = Looking model) \<longrightarrow>
         set (lw_models (fa_world s)) = cached s \<and> distinct (lw_models (fa_world s)))"
proof -
  obtain s where s: "run_creates api e is (start_creates models) = Inr s" "factory_ok s"
    using run_creates_ok [OF assms start_creates_ok] by blast
  have "a = b" if "fa_pc s i = Returned model (Some a)" "fa_pc s j = Returned model (Some b)" for i j model a b
  proof -
    have "fa_cache s model = Some a" "fa_cache s model = Some b" using that s(2) unfolding factory_ok_def result_ok_def by blast+
    then show ?thesis by simp
  qed
  moreover have "set (lw_models (fa_world s)) = cached s \<and> distinct (lw_models (fa_world s))"
    if "\<forall>i. \<exists>model r. fa_pc s i = Returned model r \<or> fa_pc s i = Looking model"
  proof -
    have "in_hand (fa_pc s i) = None" for i using that [rule_format, of i] by (auto simp: in_hand_def)
    then show ?thesis using s(2) by (simp add: factory_ok_def live_ok_def)
  qed
  ultimately show ?thesis using s(1) by blast
qed

text \<open>
  Two calls that both miss the cache load the model twice; the destructor of the second engine shuts down the
  backend of the library although the first is in the cache and will be used.
\<close>

definition loading_api :: lu_api where
  "loading_api = \<lparr>lu_load = \<lambda>_. True, lu_init = \<lambda>_ _ _. True, lu_has_vocab = True, lu_hardware_concurrency = 8, lu_tokenize = \<lambda>_ _. (0, [])\<rparr>"

theorem late_engine_stops_backend:
  "\<exists>s. run_creates loading_api Map.empty [0, 1, 0, 1, 0, 1, 1] (start_creates (\<lambda>_. ''llama'')) = Inr s
     \<and> fa_cache s ''llama'' = Some (Llama 0 default_model_path) \<and> fa_pc s 1 = Returned ''llama'' (Some (Llama 0 default_model_path))
     \<and> lw_models (fa_world s) = [0] \<and> \<not> lw_backend (fa_world s)"
  by (simp add: create_step_def start_creates_def new_world_def set_create_pc_def build_engine_def drop_engine_def
      new_LlamaEngine_loads delete_LlamaEngine_def free_model_def loading_api_def GetEnvOrDefault_def getenv_nonempty_def)

theorem concurrent_creates_share_witness:
  "\<exists>s. run_creates loading_api Map.empty [0, 1, 1, 1] (start_creates (\<lambda>_. ''llama'')) = Inr s"
  using concurrent_creates_share [of loading_api Map.empty "[0, 1, 1, 1]" "\<lambda>_. ''llama''"] by (auto simp: loading_api_def)

end
