(* ===== verification/Rpc_Engine.thy ===== *)
theory Rpc_Engine
  imports Serving_Context Json_Value "HOL-Library.Sublist"
begin

text \<open>
  The engine that forwards a request over RPC (\<open>engine/RpcEngine.cc\<close>) and the client it uses
  (\<open>serving/http/StackFlowsClient.cc\<close>, \<open>serving/http/protocol/Protocol.h\<close>): the requests it builds, the
  stub replies of \<open>Call\<close>, the events of a stream, and the subscriptions with their worker threads.

  Worker threads, subscribers and unsubscribers are a step relation: a worker reads its flag
  before every event and then calls the callback; \<open>Unsubscribe\<close> holds the mutex while it joins.
  A \<open>StreamWorker\<close> that loses its last reference while its thread is joinable terminates the process.
\<close>

section \<open>The protocol\<close>

record RpcRequest =
  rq_version :: string
  rq_request_id :: string
  rq_session_id :: string
  rq_action :: string
  rq_stream :: bool
  rq_payload :: "string \<Rightarrow> string option"

record RpcResponse =
  rs_request_id :: string
  rs_status :: string
  rs_result :: "string \<Rightarrow> string option"
  rs_stream_topic :: string

record ZmqEvent =
  ev_request_id :: string
  ev_type :: string
  ev_data :: string

section \<open>StackFlowsClient::Call\<close>

definition stub_text :: string where
  "stub_text =
     map char_of [0xE3, 0x80, 0x90, 0x73, 0x74, 0x75, 0x62, 0xE3, 0x80, 0x91, 0xE8, 0xBF, 0x99, 0xE6, 0x98, 0xAF,
       0xE6, 0x9D, 0xA5, 0xE8, 0x87, 0xAA, 0x20 :: nat] @ ''StackFlowsClient'' @
     map char_of [0x20, 0xE7, 0x9A, 0x84, 0xE6, 0xA8, 0xA1, 0xE6, 0x8B, 0x9F, 0xE5, 0x9B, 0x9E, 0xE5, 0xA4, 0x8D :: nat]"

definition StackFlowsClient_Call :: "RpcRequest \<Rightarrow> RpcResponse" where
  "StackFlowsClient_Call request =
     (if \<not> rq_stream request
      then \<lparr>rs_request_id = rq_request_id request, rs_status = ''ok'', rs_result = [''text'' \<mapsto> stub_text], rs_stream_topic = []\<rparr>
      else \<lparr>rs_request_id = rq_request_id request, rs_status = ''accepted'', rs_result = Map.empty,
            rs_stream_topic = ''stream.'' @ rq_request_id request\<rparr>)"

section \<open>RpcEngine::Run\<close>

text \<open>\<open>call\<close> is the client's \<open>Call\<close>, \<open>dump\<close> the printer of the JSON library.\<close>

definition build_rpc :: "(json \<Rightarrow> string) \<Rightarrow> 'w ServingContext \<Rightarrow> RpcRequest" where
  "build_rpc dump ctx =
     \<lparr>rq_version = ''v1'', rq_request_id = request_id ctx, rq_session_id = ctx_session_id ctx,
      rq_action = (if is_chat ctx then ''chat_completion'' else ''completion''), rq_stream = stream ctx,
      rq_payload =
        (if is_chat ctx
         then [''messages'' \<mapsto> dump (JArray (map (\<lambda>m. JObject [(''content'', JString (content m)), (''role'', JString (role m))]) (messages ctx)))]
         else [''prompt'' \<mapsto> prompt ctx])\<rparr>"

text \<open>The callback of a subscription.\<close>

definition rpc_on_event :: "'w Callbacks \<Rightarrow> ZmqEvent \<Rightarrow> 'w ServingContext \<Rightarrow> 'w ServingContext" where
  "rpc_on_event cb evt ctx =
     (case on_chunk cb of
        None \<Rightarrow> ctx
      | Some f \<Rightarrow>
          if ev_type evt = ''delta'' then f \<lparr>delta = ev_data evt, is_finished = False, chunk_reason = Stop\<rparr> ctx
          else if ev_type evt = ''done'' then f \<lparr>delta = [], is_finished = True, chunk_reason = Stop\<rparr> ctx
          else if ev_type evt = ''error'' then f \<lparr>delta = [], is_finished = True, chunk_reason = Error\<rparr> ctx
          else ctx)"

text \<open>What \<open>Run\<close> does itself: the context it leaves, and the topic it has subscribed to, if any.\<close>

definition RpcEngine_Run :: "(json \<Rightarrow> string) \<Rightarrow> (RpcRequest \<Rightarrow> RpcResponse) \<Rightarrow> 'w ServingContext \<Rightarrow> 'w ServingContext \<times> string option" where
  "RpcEngine_Run dump call ctx =
     (let rpc = build_rpc dump ctx
      in if \<not> stream ctx
         then (let resp = call rpc;
                   ctx1 = (case rs_result resp ''text'' of Some t \<Rightarrow> ctx\<lparr>final_text := t\<rparr> | None \<Rightarrow> ctx)
               in (ctx1\<lparr>finish_reason := Stop\<rparr>, None))
         else (ctx, Some (''llm.stream.'' @ request_id ctx)))"

section \<open>Subscriptions\<close>

definition stub_tokens :: "string list" where
  "stub_tokens = [''Hello'', '' '', ''from'', '' '', ''stub'', '' '', ''stream'', ''!'']"

definition stub_events :: "ZmqEvent list" where
  "stub_events =
     map (\<lambda>t. \<lparr>ev_request_id = [], ev_type = ''delta'', ev_data = t\<rparr>) stub_tokens @
     [\<lparr>ev_request_id = [], ev_type = ''done'', ev_data = []\<rparr>]"

text \<open>A worker before reading its flag, before calling the callback, or at the end of its function.\<close>

datatype stream_pc = Checking nat | Delivering nat | Exited

record sf_state =
  sf_next :: nat
  sf_running :: "nat \<Rightarrow> bool"
  sf_pc :: "nat \<Rightarrow> stream_pc"
  sf_joinable :: "nat \<Rightarrow> bool"
  sf_events :: "nat \<Rightarrow> ZmqEvent list"
  sf_table :: "string \<Rightarrow> nat option"
  sf_starting :: "(string \<times> nat) list"
  sf_joining :: "(string \<times> nat) option"
  sf_terminated :: bool

definition sf_init :: "sf_state \<Rightarrow> bool" where
  "sf_init s \<longleftrightarrow>
     sf_next s = 0 \<and> (\<forall>w. sf_events s w = []) \<and> (\<forall>topic. sf_table s topic = None) \<and>
     sf_starting s = [] \<and> sf_joining s = None \<and> \<not> sf_terminated s"

text \<open>References to a worker other than its own thread's.\<close>

definition referenced :: "sf_state \<Rightarrow> nat \<Rightarrow> bool" where
  "referenced s w \<longleftrightarrow> (\<exists>topic. sf_table s topic = Some w) \<or> w \<in> snd ` set (sf_starting s)"

definition exit_worker :: "nat \<Rightarrow> sf_state \<Rightarrow> sf_state" where
  "exit_worker w s =
     s\<lparr>sf_pc := (sf_pc s)(w := Exited), sf_terminated := (\<not> referenced s w \<and> sf_joinable s w)\<rparr>"

definition store_worker :: "string \<Rightarrow> nat \<Rightarrow> sf_state \<Rightarrow> sf_state" where
  "store_worker topic w s =
     s\<lparr>sf_table := (sf_table s)(topic \<mapsto> w), sf_starting := remove1 (topic, w) (sf_starting s),
       sf_terminated := (case sf_table s topic of None \<Rightarrow> False | Some old \<Rightarrow> sf_pc s old = Exited \<and> sf_joinable s old)\<rparr>"

inductive sf_step :: "sf_state \<Rightarrow> sf_state \<Rightarrow> bool" where
  subscribe_start: "\<not> sf_terminated s \<Longrightarrow> w = sf_next s \<Longrightarrow>
     sf_step s (s\<lparr>sf_next := Suc w, sf_running := (sf_running s)(w := True), sf_pc := (sf_pc s)(w := Checking 0),
                  sf_joinable := (sf_joinable s)(w := True), sf_starting := (topic, w) # sf_starting s\<rparr>)"
| subscribe_store: "\<not> sf_terminated s \<Longrightarrow> sf_joining s = None \<Longrightarrow> (topic, w) \<in> set (sf_starting s) \<Longrightarrow>
     sf_step s (store_worker topic w s)"
| worker_continues: "\<not> sf_terminated s \<Longrightarrow> w < sf_next s \<Longrightarrow> sf_pc s w = Checking k \<Longrightarrow> sf_running s w \<Longrightarrow>
     sf_step s (s\<lparr>sf_pc := (sf_pc s)(w := Delivering k)\<rparr>)"
| worker_stops: "\<not> sf_terminated s \<Longrightarrow> w < sf_next s \<Longrightarrow> sf_pc s w = Checking k \<Longrightarrow> \<not> sf_running s w \<Longrightarrow>
     sf_step s (exit_worker w s)"
| worker_delivers: "\<not> sf_terminated s \<Longrightarrow> w < sf_next s \<Longrightarrow> sf_pc s w = Delivering k \<Longrightarrow> k < length stub_tokens \<Longrightarrow>
     sf_step s (s\<lparr>sf_events := (sf_events s)(w := sf_events s w @ [stub_events ! k]), sf_pc := (sf_pc s)(w := Checking (Suc k))\<rparr>)"
| worker_done: "\<not> sf_terminated s \<Longrightarrow> w < sf_next s \<Longrightarrow> sf_pc s w = Delivering k \<Longrightarrow> k = length stub_tokens \<Longrightarrow>
     sf_step s (exit_worker w (s\<lparr>sf_events := (sf_events s)(w := sf_events s w @ [stub_events ! k])\<rparr>))"
| unsubscribe_begin: "\<not> sf_terminated s \<Longrightarrow> sf_joining s = None \<Longrightarrow> sf_table s topic = Some w \<Longrightarrow>
     sf_step s (s\<lparr>sf_running := (sf_running s)(w := False), sf_joining := Some (topic, w)\<rparr>)"
| unsubscribe_end: "\<not> sf_terminated s \<Longrightarrow> sf_joining s = Some (topic, w) \<Longrightarrow> sf_pc s w = Exited \<Longrightarrow>
     sf_step s (s\<lparr>sf_joinable := (sf_joinable s)(w := False), sf_table := (sf_table s)(topic := None), sf_joining := None\<rparr>)"
| unsubscribe_self: "\<not> sf_terminated s \<Longrightarrow> sf_joining s = None \<Longrightarrow> sf_table s topic = Some w \<Longrightarrow> w < sf_next s \<Longrightarrow>
     sf_pc s w = Delivering k \<Longrightarrow>
     sf_step s (s\<lparr>sf_running := (sf_running s)(w := False), sf_joinable := (sf_joinable s)(w := False),
                  sf_table := (sf_table s)(topic := None)\<rparr>)"

inductive_cases sf_stepE: "sf_step s t"

section \<open>The invariant of the workers\<close>

lemma length_stub_events [simp]: "length stub_events = Suc (length stub_tokens)"
  by (simp add: stub_events_def)

lemma take_stub_events_Suc:
  "k \<le> length stub_tokens \<Longrightarrow> take k stub_events @ [stub_events ! k] = take (Suc k) stub_events"
  by (simp add: take_Suc_conv_app_nth)

definition worker_ok :: "bool \<Rightarrow> stream_pc \<Rightarrow> ZmqEvent list \<Rightarrow> bool" where
  "worker_ok run pc evs \<longleftrightarrow>
     (case pc of
        Checking k \<Rightarrow> k \<le> length stub_tokens \<and> evs = take k stub_events
      | Delivering k \<Rightarrow> k \<le> length stub_tokens \<and> evs = take k stub_events
      | Exited \<Rightarrow> prefix evs stub_events \<and> (run \<longrightarrow> evs = stub_events))"

lemma worker_ok_prefix: "worker_ok run pc evs \<Longrightarrow> prefix evs stub_events"
  by (auto simp: worker_ok_def take_is_prefix split: stream_pc.splits)

lemma worker_ok_new [simp]: "worker_ok run (Checking 0) []"
  by (simp add: worker_ok_def)

lemma worker_ok_stop: "worker_ok run pc evs \<Longrightarrow> worker_ok False pc evs"
  by (auto simp: worker_ok_def split: stream_pc.splits)

lemma worker_ok_exit: "worker_ok False (Checking k) evs \<Longrightarrow> worker_ok False Exited evs"
  by (auto simp: worker_ok_def take_is_prefix)

lemma worker_ok_go: "worker_ok run (Checking k) evs \<Longrightarrow> worker_ok run (Delivering k) evs"
  by (simp add: worker_ok_def)

lemma worker_ok_deliver:
  "worker_ok run (Delivering k) evs \<Longrightarrow> k < length stub_tokens \<Longrightarrow> worker_ok run (Checking (Suc k)) (evs @ [stub_events ! k])"
  by (simp add: worker_ok_def take_stub_events_Suc)

lemma worker_ok_done:
  "worker_ok run (Delivering (length stub_tokens)) evs \<Longrightarrow> worker_ok run' Exited (evs @ [stub_events ! length stub_tokens])"
  by (simp add: worker_ok_def take_stub_events_Suc)

definition sf_inv :: "sf_state \<Rightarrow> bool" where
  "sf_inv s \<longleftrightarrow> (\<forall>w. if w < sf_next s then worker_ok (sf_running s w) (sf_pc s w) (sf_events s w) else sf_events s w = [])"

lemma sf_inv_worker: "sf_inv s \<Longrightarrow> w < sf_next s \<Longrightarrow> worker_ok (sf_running s w) (sf_pc s w) (sf_events s w)"
  by (simp add: sf_inv_def)

lemma sf_init_inv: "sf_init s \<Longrightarrow> sf_inv s"
  by (simp add: sf_init_def sf_inv_def)

lemma sf_step_inv: "sf_step s t \<Longrightarrow> sf_inv s \<Longrightarrow> sf_inv t"
proof (induction rule: sf_step.induct)
  case (subscribe_start s w topic)
  then show ?case by (auto simp: sf_inv_def less_Suc_eq)
next
  case (worker_continues s w k)
  from sf_inv_worker [OF worker_continues.prems worker_continues.hyps(2)] worker_continues
  have "worker_ok (sf_running s w) (Delivering k) (sf_events s w)" by (auto intro: worker_ok_go)
  with worker_continues show ?case by (simp add: sf_inv_def)
next
  case (worker_stops s w k)
  from sf_inv_worker [OF worker_stops.prems worker_stops.hyps(2)] worker_stops
  have "worker_ok False Exited (sf_events s w)" by (auto intro: worker_ok_exit)
  with worker_stops show ?case by (simp add: sf_inv_def exit_worker_def)
next
  case (worker_delivers s w k)
  from sf_inv_worker [OF worker_delivers.prems worker_delivers.hyps(2)] worker_delivers
  have "worker_ok (sf_running s w) (Checking (Suc k)) (sf_events s w @ [stub_events ! k])"
    by (auto intro: worker_ok_deliver)
  with worker_delivers show ?case by (simp add: sf_inv_def)
next
  case (worker_done s w k)
  from sf_inv_worker [OF worker_done.prems worker_done.hyps(2)] worker_done
  have "worker_ok (sf_running s w) Exited (sf_events s w @ [stub_events ! k])"
    by (auto intro: worker_ok_done)
  with worker_done show ?case by (simp add: sf_inv_def exit_worker_def)
next
  case (unsubscribe_begin s topic w)
  then show ?case using worker_ok_stop [OF sf_inv_worker [OF unsubscribe_begin.prems, of w]]
    by (auto simp: sf_inv_def)
next
  case (unsubscribe_self s topic w k)
  then show ?case using worker_ok_stop [OF sf_inv_worker [OF unsubscribe_self.prems, of w]]
    by (auto simp: sf_inv_def)
qed (auto simp: sf_inv_def store_worker_def)

lemma reachable_sf_inv: "reachable sf_init sf_step s \<Longrightarrow> sf_inv s"
  by (erule reachable_invariant) (auto intro: sf_init_inv sf_step_inv)

text \<open>A worker whose flag is cleared delivers at most the event it is about to deliver.\<close>

definition in_flight :: "stream_pc \<Rightarrow> nat" where
  "in_flight pc = (case pc of Delivering _ \<Rightarrow> 1 | _ \<Rightarrow> 0)"

lemma stopped_step:
  "sf_step s t \<Longrightarrow> w < sf_next s \<Longrightarrow> \<not> sf_running s w \<Longrightarrow>
   w < sf_next t \<and> \<not> sf_running t w \<and>
   length (sf_events t w) + in_flight (sf_pc t w) \<le> length (sf_events s w) + in_flight (sf_pc s w)"
  by (erule sf_stepE) (auto simp: in_flight_def exit_worker_def store_worker_def)

lemma stopped_steps:
  "sf_step\<^sup>*\<^sup>* s t \<Longrightarrow> w < sf_next s \<Longrightarrow> \<not> sf_running s w \<Longrightarrow>
   w < sf_next t \<and> \<not> sf_running t w \<and>
   length (sf_events t w) + in_flight (sf_pc t w) \<le> length (sf_events s w) + in_flight (sf_pc s w)"
proof (induction rule: rtranclp_induct)
  case base
  then show ?case by simp
next
  case (step y z)
  then have "w < sf_next y" "\<not> sf_running y w" by simp_all
  from stopped_step [OF step.hyps(2) this] step show ?case by simp
qed

text \<open>
  Claim C36. In every reachable state the events a subscription has delivered are a prefix of the stream
  in its order, all of it when the worker ended by itself; after its flag is cleared by \<open>Unsubscribe\<close>
  at most the one event in flight still comes, and none once the worker has been joined.
\<close>

theorem subscription_stream:
  assumes "reachable sf_init sf_step s" and "w < sf_next s"
  shows "prefix (sf_events s w) stub_events \<and>
         (sf_pc s w = Exited \<and> sf_running s w \<longrightarrow> sf_events s w = stub_events) \<and>
         (\<forall>t. sf_step\<^sup>*\<^sup>* s t \<and> \<not> sf_running s w \<longrightarrow>
              length (sf_events t w) \<le> length (sf_events s w) + (if sf_pc s w = Exited then 0 else 1))"
proof -
  have ok: "worker_ok (sf_running s w) (sf_pc s w) (sf_events s w)"
    using reachable_sf_inv [OF assms(1)] assms(2) by (rule sf_inv_worker)
  have "length (sf_events t w) \<le> length (sf_events s w) + (if sf_pc s w = Exited then 0 else 1)"
    if "sf_step\<^sup>*\<^sup>* s t" "\<not> sf_running s w" for t
    using stopped_steps [OF that(1) assms(2) that(2)] by (auto simp: in_flight_def split: stream_pc.splits if_splits)
  then show ?thesis using ok by (auto simp: worker_ok_prefix) (simp add: worker_ok_def)
qed

section \<open>A second subscription to a topic\<close>

text \<open>
  A second \<open>Subscribe\<close> with the same topic replaces the first worker in the table; when that one ends, its
  last reference goes with its own thread, which is still joinable, and the process is terminated.
\<close>

lemma unreferenced_runs_into_terminate:
  "\<not> sf_terminated s \<Longrightarrow> w < sf_next s \<Longrightarrow> sf_pc s w = Checking k \<Longrightarrow> sf_running s w \<Longrightarrow> k \<le> length stub_tokens \<Longrightarrow>
   \<not> referenced s w \<Longrightarrow> sf_joinable s w \<Longrightarrow> \<exists>t. sf_step\<^sup>*\<^sup>* s t \<and> sf_terminated t"
proof (induction "length stub_tokens - k" arbitrary: k s)
  case 0
  let ?s1 = "s\<lparr>sf_pc := (sf_pc s)(w := Delivering k)\<rparr>"
  let ?s2 = "exit_worker w (?s1\<lparr>sf_events := (sf_events ?s1)(w := sf_events ?s1 w @ [stub_events ! k])\<rparr>)"
  have "sf_step s ?s1" using 0 by (intro worker_continues) auto
  moreover have "sf_step ?s1 ?s2" using 0 by (intro worker_done) auto
  moreover have "sf_terminated ?s2" using 0 by (simp add: exit_worker_def referenced_def)
  ultimately show ?case by (meson converse_rtranclp_into_rtranclp rtranclp.rtrancl_refl)
next
  case (Suc n)
  let ?s1 = "s\<lparr>sf_pc := (sf_pc s)(w := Delivering k)\<rparr>"
  let ?s2 = "?s1\<lparr>sf_events := (sf_events ?s1)(w := sf_events ?s1 w @ [stub_events ! k]), sf_pc := (sf_pc ?s1)(w := Checking (Suc k))\<rparr>"
  have "sf_step s ?s1" using Suc by (intro worker_continues) auto
  moreover have "sf_step ?s1 ?s2" using Suc by (intro worker_delivers) auto
  moreover have "\<exists>t. sf_step\<^sup>*\<^sup>* ?s2 t \<and> sf_terminated t"
    using Suc.hyps(2) Suc.prems by (intro Suc.hyps(1) [of "Suc k"]) (auto simp: referenced_def)
  ultimately show ?case by (meson converse_rtranclp_into_rtranclp)
qed

definition sf_start :: sf_state where
  "sf_start = \<lparr>sf_next = 0, sf_running = (\<lambda>_. False), sf_pc = (\<lambda>_. Exited), sf_joinable = (\<lambda>_. False), sf_events = (\<lambda>_. []),
     sf_table = Map.empty, sf_starting = [], sf_joining = None, sf_terminated = False\<rparr>"

text \<open>The states after one and after two complete subscriptions to a topic, before the workers run.\<close>

definition sf_subscribed :: "string \<Rightarrow> sf_state \<Rightarrow> sf_state" where
  "sf_subscribed topic s =
     (let w = sf_next s
      in store_worker topic w
           (s\<lparr>sf_next := Suc w, sf_running := (sf_running s)(w := True), sf_pc := (sf_pc s)(w := Checking 0),
              sf_joinable := (sf_joinable s)(w := True), sf_starting := (topic, w) # sf_starting s\<rparr>))"

lemma sf_subscribed_steps:
  assumes "\<not> sf_terminated s" and "sf_joining s = None"
  shows "sf_step\<^sup>*\<^sup>* s (sf_subscribed topic s)"
proof -
  let ?w = "sf_next s"
  let ?s1 = "s\<lparr>sf_next := Suc ?w, sf_running := (sf_running s)(?w := True), sf_pc := (sf_pc s)(?w := Checking 0),
              sf_joinable := (sf_joinable s)(?w := True), sf_starting := (topic, ?w) # sf_starting s\<rparr>"
  have "sf_step s ?s1" by (rule subscribe_start [OF assms(1) refl])
  moreover have "sf_step ?s1 (store_worker topic ?w ?s1)" using assms by (intro subscribe_store) auto
  ultimately show ?thesis unfolding sf_subscribed_def Let_def by (meson converse_rtranclp_into_rtranclp r_into_rtranclp)
qed

lemma reachable_steps:
  assumes "step\<^sup>*\<^sup>* s t" and "reachable init step s"
  shows "reachable init step t"
  using assms by (induction rule: rtranclp_induct) (auto intro: reachable_step)

lemma sf_start_reachable: "reachable sf_init sf_step sf_start"
  by (rule reachable_init) (simp add: sf_init_def sf_start_def)

lemma sf_subscribed_reachable: "reachable sf_init sf_step (sf_subscribed topic sf_start)"
  by (rule reachable_steps [OF sf_subscribed_steps sf_start_reachable]) (simp_all add: sf_start_def)

theorem resubscribe_terminates:
  "\<exists>t. reachable sf_init sf_step t \<and> sf_terminated t \<and>
       sf_step\<^sup>*\<^sup>* (sf_subscribed ''t'' (sf_subscribed ''t'' sf_start)) t"
proof -
  let ?s1 = "sf_subscribed ''t'' sf_start"
  let ?s2 = "sf_subscribed ''t'' ?s1"
  have s1: "\<not> sf_terminated ?s1" "sf_joining ?s1 = None"
    by (simp_all add: sf_subscribed_def sf_start_def store_worker_def Let_def)
  have "reachable sf_init sf_step ?s2"
    by (rule reachable_steps [OF sf_subscribed_steps [OF s1] sf_subscribed_reachable])
  moreover have "\<not> sf_terminated ?s2" "0 < sf_next ?s2" "sf_pc ?s2 0 = Checking 0" "sf_running ?s2 0" "sf_joinable ?s2 0"
    "\<not> referenced ?s2 0"
    by (simp_all add: sf_subscribed_def sf_start_def store_worker_def Let_def referenced_def)
  moreover obtain t where "sf_step\<^sup>*\<^sup>* ?s2 t" "sf_terminated t"
    using unreferenced_runs_into_terminate [of ?s2 0 0] calculation(2-7) by (auto simp del: length_stub_events)
  ultimately show ?thesis using reachable_steps by metis
qed

definition sf_unsubscribing :: sf_state where
  "sf_unsubscribing = (sf_subscribed ''t'' sf_start)\<lparr>sf_running := (\<lambda>_. False), sf_joining := Some (''t'', 0)\<rparr>"

theorem subscription_stream_witness:
  "reachable sf_init sf_step sf_unsubscribing \<and> prefix (sf_events sf_unsubscribing 0) stub_events \<and>
   sf_step\<^sup>*\<^sup>* sf_unsubscribing (exit_worker 0 sf_unsubscribing) \<and> length (sf_events (exit_worker 0 sf_unsubscribing) 0) \<le> 1"
proof -
  let ?s = "sf_subscribed ''t'' sf_start"
  let ?u = "sf_unsubscribing"
  have run: "(sf_running ?s)(0 := False) = (\<lambda>_. False)"
    by (simp add: sf_subscribed_def sf_start_def store_worker_def Let_def fun_eq_iff)
  have "sf_step ?s ?u"
    using unsubscribe_begin [of ?s "''t''" 0] run
    by (simp add: sf_unsubscribing_def sf_subscribed_def sf_start_def store_worker_def Let_def)
  with sf_subscribed_reachable have u: "reachable sf_init sf_step ?u" by (rule reachable_step)
  have facts: "\<not> sf_terminated ?u" "0 < sf_next ?u" "sf_pc ?u 0 = Checking 0" "\<not> sf_running ?u 0" "sf_events ?u 0 = []"
    by (simp_all add: sf_unsubscribing_def sf_subscribed_def sf_start_def store_worker_def Let_def)
  have stop: "sf_step\<^sup>*\<^sup>* ?u (exit_worker 0 ?u)" using worker_stops [OF facts(1-4)] by blast
  then have "length (sf_events (exit_worker 0 ?u) 0) \<le> 1"
    using subscription_stream [OF u facts(2)] facts(3-5) by auto
  then show ?thesis using u stop subscription_stream [OF u facts(2)] by blast
qed

section \<open>Requests over RPC\<close>

text \<open>
  Neither mode of \<open>Run\<close> finishes the request: the plain reply fills in the text of the response
  and the reason, the streamed one forwards every event to the chunk callback, but \<open>finished\<close> stays as it
  was, so that a handler waiting for the end is not woken.
\<close>

theorem rpc_engine_leaves_open:
  assumes "well_behaved_callbacks cb"
  shows "finished (fst (RpcEngine_Run dump call ctx)) = finished ctx \<and>
         (\<not> stream ctx \<longrightarrow> final_text (fst (RpcEngine_Run dump call ctx)) =
            (case rs_result (call (build_rpc dump ctx)) ''text'' of Some t \<Rightarrow> t | None \<Rightarrow> final_text ctx)) \<and>
         finished (fold (rpc_on_event cb) evs ctx) = finished ctx"
proof -
  have "finished (rpc_on_event cb e c) = finished c" for e c
    using well_behaved_callbacks.chunk_frame [OF assms] by (auto simp: rpc_on_event_def split: option.splits)
  then have "finished (fold (rpc_on_event cb) evs ctx) = finished ctx"
    by (induction evs arbitrary: ctx) simp_all
  then show ?thesis by (simp add: RpcEngine_Run_def Let_def split: option.splits)
qed

theorem rpc_engine_leaves_open_witness:
  "finished (fst (RpcEngine_Run (\<lambda>_. []) StackFlowsClient_Call (new_context ()))) = False \<and>
   final_text (fst (RpcEngine_Run (\<lambda>_. []) StackFlowsClient_Call (new_context ()))) = stub_text"
proof -
  have "well_behaved_callbacks (\<lparr>on_chunk = None, on_finish = None\<rparr> :: unit Callbacks)"
    by (auto intro!: well_behaved_callbacks.intro)
  from rpc_engine_leaves_open [OF this, of "\<lambda>_. []" StackFlowsClient_Call "new_context ()" "[]"]
  show ?thesis by (simp add: new_context_def StackFlowsClient_Call_def build_rpc_def)
qed

text \<open>A recording callback sees the chunks of a complete stub stream: its text and then the end.\<close>

definition record_chunks :: "StreamChunk list Callbacks" where
  "record_chunks = \<lparr>on_chunk = Some (\<lambda>c ctx. ctx\<lparr>world := world ctx @ [c]\<rparr>), on_finish = None\<rparr>"

lemma stub_stream_chunks:
  "world (fold (rpc_on_event record_chunks) stub_events ctx) =
     world ctx @ map (\<lambda>t. \<lparr>delta = t, is_finished = False, chunk_reason = Stop\<rparr>) stub_tokens @
     [\<lparr>delta = [], is_finished = True, chunk_reason = Stop\<rparr>]"
  by (simp add: stub_events_def stub_tokens_def rpc_on_event_def record_chunks_def)

lemma stub_stream_text: "concat stub_tokens = ''Hello from stub stream!''"
  by (simp add: stub_tokens_def)

text \<open>The topic the engine subscribes to is not the one the reply announces.\<close>

lemma rpc_topics_differ:
  "stream ctx \<Longrightarrow> snd (RpcEngine_Run dump call ctx) \<noteq> Some (rs_stream_topic (StackFlowsClient_Call (build_rpc dump ctx)))"
  by (simp add: RpcEngine_Run_def StackFlowsClient_Call_def build_rpc_def Let_def)

end
