(* ===== verification/Event_Poll.thy ===== *)
theory Event_Poll
  imports Event_Loop
begin

text \<open>
  What an event loop does around its channels: \<open>Poller::poll\<close> with the growing array of kernel events
  (\<open>network/src/Poller.cc\<close>), the wake-up channel in the constructor and the destructor of the loop and the
  removal of a channel while events are handled (\<open>network/src/EventLoop.cc\<close>), and the start and the end
  of a loop in a thread of its own (\<open>network/src/EventLoopThread.cc\<close>) as a step relation.

  The answer of \<open>epoll_wait\<close> is an argument: an error, or the received events with the channel pointers
  the kernel was given.
\<close>

section \<open>Polling\<close>

record PollState =
  ps_poller :: Poller
  ps_capacity :: nat

definition kInitEventListSize :: nat where "kInitEventListSize = 16"

definition set_revents :: "nat \<Rightarrow> PollFlag set \<Rightarrow> Poller \<Rightarrow> Poller" where
  "set_revents c revs p = p\<lparr>chans := (chans p)(c := (chans p c)\<lparr>ch_revents := revs\<rparr>)\<rparr>"

fun fillActiveChannels :: "(PollFlag set \<times> nat) list \<Rightarrow> Poller \<Rightarrow> (nat list \<times> Poller) res" where
  "fillActiveChannels [] p = Inr ([], p)"
| "fillActiveChannels ((revs, c) # es) p =
     cpp_assert (channels p (ch_fd (chans p c)) = Some c)
       (rbind (fillActiveChannels es (set_revents c revs p)) (\<lambda>(active, p1). Inr (c # active, p1)))"

definition Poller_poll :: "(PollFlag set \<times> nat) list option \<Rightarrow> PollState \<Rightarrow> (nat list \<times> PollState) res" where
  "Poller_poll answer st =
     (case answer of
        None \<Rightarrow> Inr ([], st)
      | Some es \<Rightarrow>
          if es = [] then Inr ([], st)
          else cpp_assert (length es \<le> ps_capacity st)
            (rbind (fillActiveChannels es (ps_poller st)) (\<lambda>(active, p).
              Inr (active, st\<lparr>ps_poller := p,
                ps_capacity := (if length es = ps_capacity st then ps_capacity st * 2 else ps_capacity st)\<rparr>))))"

text \<open>The callbacks of the active channels, in the order in which \<open>EventLoop::loop\<close> makes them.\<close>

definition active_callbacks :: "nat list \<Rightarrow> Poller \<Rightarrow> (nat \<times> ChannelCallback) list" where
  "active_callbacks active p = concat (map (\<lambda>c. map (Pair c) (handleEvent (ch_revents (chans p c)))) active)"

text \<open>What \<open>epoll_wait\<close> promises: at most as many events as there is room, each for another registered pointer.\<close>

definition epoll_reports :: "PollState \<Rightarrow> (PollFlag set \<times> nat) list \<Rightarrow> bool" where
  "epoll_reports st es \<longleftrightarrow>
     length es \<le> ps_capacity st \<and> distinct (map snd es) \<and>
     (\<forall>revs c. (revs, c) \<in> set es \<longrightarrow> (\<exists>fd ev. epoll (ps_poller st) fd = Some (ev, c)))"

lemma epoll_registered:
  assumes "poller_ok p" and "epoll p fd = Some (ev, c)"
  shows "registered c p"
proof (cases "channels p fd")
  case None
  then show ?thesis using poller_okD(2) [OF assms(1)] assms(2) by simp
next
  case (Some d)
  then have "d = c" using poller_okD(1) [OF assms(1) Some] assms(2) by (auto split: if_splits)
  then show ?thesis using poller_okD(1) [OF assms(1) Some] Some by (simp add: registered_def)
qed

lemma set_revents_fields [simp]:
  "ch_fd (chans (set_revents c revs p) d) = ch_fd (chans p d)" "ch_index (chans (set_revents c revs p) d) = ch_index (chans p d)"
  "ch_events (chans (set_revents c revs p) d) = ch_events (chans p d)"
  by (simp_all add: set_revents_def)

lemma set_revents_frame:
  "channels (set_revents c revs p) = channels p" "epoll (set_revents c revs p) = epoll p"
  "d \<noteq> c \<Longrightarrow> chans (set_revents c revs p) d = chans p d" "ch_revents (chans (set_revents c revs p) c) = revs"
  by (simp_all add: set_revents_def)

lemma set_revents_registered: "registered d (set_revents c revs p) = registered d p"
  by (simp add: registered_def set_revents_frame)

lemma set_revents_ok: "poller_ok (set_revents c revs p) = poller_ok p"
  by (simp add: poller_ok_def set_revents_frame set_revents_registered)

lemma fillActiveChannels_ok:
  "poller_ok p \<Longrightarrow> distinct (map snd es) \<Longrightarrow> (\<And>revs c. (revs, c) \<in> set es \<Longrightarrow> registered c p) \<Longrightarrow>
   \<exists>p1. fillActiveChannels es p = Inr (map snd es, p1) \<and> poller_ok p1 \<and>
        channels p1 = channels p \<and> epoll p1 = epoll p \<and>
        (\<forall>revs c. (revs, c) \<in> set es \<longrightarrow> ch_revents (chans p1 c) = revs) \<and>
        (\<forall>c. c \<notin> snd ` set es \<longrightarrow> chans p1 c = chans p c)"
proof (induction es arbitrary: p)
  case Nil
  then show ?case by simp
next
  case (Cons e es)
  obtain revs c where e: "e = (revs, c)" by (cases e)
  let ?p = "set_revents c revs p"
  have reg: "channels p (ch_fd (chans p c)) = Some c" using Cons.prems(3) e by (auto simp: registered_def)
  have new: "c \<notin> snd ` set es" using Cons.prems(2) e by simp
  have "\<exists>p1. fillActiveChannels es ?p = Inr (map snd es, p1) \<and> poller_ok p1 \<and>
      channels p1 = channels ?p \<and> epoll p1 = epoll ?p \<and>
      (\<forall>revs c. (revs, c) \<in> set es \<longrightarrow> ch_revents (chans p1 c) = revs) \<and> (\<forall>c. c \<notin> snd ` set es \<longrightarrow> chans p1 c = chans ?p c)"
    using Cons.prems e by (intro Cons.IH) (auto simp: set_revents_ok set_revents_registered)
  then obtain p1 where p1: "fillActiveChannels es ?p = Inr (map snd es, p1)" "poller_ok p1"
      "channels p1 = channels p" "epoll p1 = epoll p"
      "\<And>revs c. (revs, c) \<in> set es \<Longrightarrow> ch_revents (chans p1 c) = revs"
      "\<And>d. d \<notin> snd ` set es \<Longrightarrow> chans p1 d = chans ?p d"
    by (auto simp: set_revents_frame)
  have "ch_revents (chans p1 c) = revs" using p1(6) [OF new] by (simp add: set_revents_frame)
  moreover have "chans p1 d = chans p d" if "d \<notin> snd ` set (e # es)" for d
    using p1(6) [of d] that e by (simp add: set_revents_frame)
  ultimately show ?case using p1(1-5) reg e by (intro exI [of _ p1]) auto
qed

text \<open>
  On a consistent poller a poll that the kernel answers runs into no assertion: the active
  channels are those the kernel reported, in its order, each with the events reported for it, nothing
  else of the poller changes, and the event array has room for more than were reported.
\<close>

theorem poll_activates_reported:
  assumes "poller_ok (ps_poller st)" and "epoll_reports st es" and "es \<noteq> []"
  shows "\<exists>st1. Poller_poll (Some es) st = Inr (map snd es, st1) \<and> poller_ok (ps_poller st1) \<and>
           channels (ps_poller st1) = channels (ps_poller st) \<and> epoll (ps_poller st1) = epoll (ps_poller st) \<and>
           (\<forall>revs c. (revs, c) \<in> set es \<longrightarrow> ch_revents (chans (ps_poller st1) c) = revs) \<and>
           (\<forall>c. c \<notin> snd ` set es \<longrightarrow> chans (ps_poller st1) c = chans (ps_poller st) c) \<and>
           active_callbacks (map snd es) (ps_poller st1) = concat (map (\<lambda>(revs, c). map (Pair c) (handleEvent revs)) es) \<and>
           length es < ps_capacity st1"
proof -
  have reg: "registered c (ps_poller st)" if "(revs, c) \<in> set es" for revs c
    using assms(2) that epoll_registered [OF assms(1)] unfolding epoll_reports_def by blast
  have len: "length es \<le> ps_capacity st" "distinct (map snd es)" using assms(2) by (auto simp: epoll_reports_def)
  obtain p1 where p1: "fillActiveChannels es (ps_poller st) = Inr (map snd es, p1)" "poller_ok p1"
      "channels p1 = channels (ps_poller st)" "epoll p1 = epoll (ps_poller st)"
      "\<forall>revs c. (revs, c) \<in> set es \<longrightarrow> ch_revents (chans p1 c) = revs"
      "\<forall>c. c \<notin> snd ` set es \<longrightarrow> chans p1 c = chans (ps_poller st) c"
    using fillActiveChannels_ok [OF assms(1) len(2)] reg by blast
  have "active_callbacks (map snd es) p1 = concat (map (\<lambda>(revs, c). map (Pair c) (handleEvent revs)) es)"
    unfolding active_callbacks_def using p1(5) by (auto intro!: arg_cong [where f = concat])
  moreover have "0 < ps_capacity st" using assms(3) len(1) by (cases es) auto
  ultimately show ?thesis using p1 len(1) assms(3) by (simp add: Poller_poll_def)
qed

theorem poll_activates_reported_witness:
  "\<exists>st st1. enableReading 0 one_channel = Inr (ps_poller st) \<and> Poller_poll (Some [({POLLIN}, 0)]) st = Inr ([0], st1) \<and>
     active_callbacks [0] (ps_poller st1) = [(0, ReadCallback)]"
proof -
  let ?p = "synced {ReadEvent} 0 one_channel"
  let ?st = "\<lparr>ps_poller = ?p, ps_capacity = kInitEventListSize\<rparr>"
  have one: "poller_ok one_channel" "updatable 0 one_channel"
    by (auto simp: poller_ok_def updatable_def registered_def one_channel_def new_Channel_def)
  have en: "enableReading 0 one_channel = Inr ?p"
    using set_events_synced [OF one, of "insert ReadEvent"] by (simp add: enableReading_def one_channel_def new_Channel_def)
  have ok: "poller_ok (ps_poller ?st)" using synced_ok [OF one, of "{ReadEvent}"] by simp
  have rep: "epoll_reports ?st [({POLLIN}, 0)]"
    by (auto simp: epoll_reports_def kInitEventListSize_def synced_def one_channel_def new_Channel_def Let_def)
  from poll_activates_reported [OF ok rep] obtain st1
    where "Poller_poll (Some [({POLLIN}, 0)]) ?st = Inr ([0], st1)"
      "active_callbacks [0] (ps_poller st1) = concat (map (\<lambda>(revs, c). map (Pair c) (handleEvent revs)) [({POLLIN}, 0)])"
    by auto
  then show ?thesis using en by (intro exI [of _ ?st] exI [of _ st1]) (simp add: handleEvent_def)
qed

section \<open>The loop's own channel\<close>

text \<open>\<open>c\<close> is the new channel object on the wake-up descriptor \<open>fd\<close>.\<close>

definition EventLoop_ctor :: "int \<Rightarrow> nat \<Rightarrow> Poller \<Rightarrow> Poller res" where
  "EventLoop_ctor fd c p = enableReading c (p\<lparr>chans := (chans p)(c := new_Channel fd)\<rparr>)"

definition EventLoop_dtor :: "nat \<Rightarrow> Poller \<Rightarrow> Poller res" where
  "EventLoop_dtor c p = rbind (disableAll c p) (Channel_remove c)"

definition new_Poller :: "(nat \<Rightarrow> Channel) \<Rightarrow> Poller" where
  "new_Poller cs = \<lparr>chans = cs, channels = Map.empty, epoll = Map.empty\<rparr>"

lemma EventLoop_ctor_dtor:
  assumes "\<And>d. ch_index (cs d) = kNew"
  shows "\<exists>p1 p2. EventLoop_ctor fd c (new_Poller cs) = Inr p1 \<and> epoll p1 = [fd \<mapsto> ({ReadEvent}, c)] \<and> poller_ok p1 \<and>
           EventLoop_dtor c p1 = Inr p2 \<and> epoll p2 = Map.empty"
proof -
  let ?p = "(new_Poller cs)\<lparr>chans := cs(c := new_Channel fd)\<rparr>"
  have ok: "poller_ok ?p" "updatable c ?p"
    using assms by (auto simp: poller_ok_def updatable_def registered_def new_Poller_def new_Channel_def)
  let ?p1 = "synced {ReadEvent} c ?p"
  have p1: "EventLoop_ctor fd c (new_Poller cs) = Inr ?p1"
    using set_events_synced [OF ok, of "insert ReadEvent"]
    by (simp add: EventLoop_ctor_def enableReading_def new_Poller_def new_Channel_def)
  have ep: "epoll ?p1 = [fd \<mapsto> ({ReadEvent}, c)]" and fd: "ch_fd (chans ?p1 c) = fd"
    by (simp_all add: synced_def new_Poller_def new_Channel_def Let_def)
  have ok1: "poller_ok ?p1" "registered c ?p1" using synced_ok [OF ok] by simp_all
  then have upd: "updatable c ?p1" by (simp add: updatable_def)
  let ?p2 = "synced {} c ?p1"
  have p2: "disableAll c ?p1 = Inr ?p2" using set_events_synced [OF ok1(1) upd] by (simp add: disableAll_def)
  have ok2: "poller_ok ?p2" "registered c ?p2" "isNoneEvent (chans ?p2 c)"
    using synced_ok [OF ok1(1) upd, of "{}"] by (simp_all add: isNoneEvent_def)
  have "epoll (unregistered c ?p2) = Map.empty"
    by (auto simp: unregistered_def synced_def new_Poller_def new_Channel_def Let_def fun_eq_iff)
  then show ?thesis using p1 ep ok1(1) p2 Channel_remove_unregistered [OF ok2] by (simp add: EventLoop_dtor_def)
qed

text \<open>
  \<open>EventLoop::removeChannel\<close> asserts that, while events are handled, only the channel being handled or one
  that is not active is removed.
\<close>

definition EventLoop_removeChannel :: "bool \<Rightarrow> nat option \<Rightarrow> nat list \<Rightarrow> nat \<Rightarrow> Poller \<Rightarrow> Poller res" where
  "EventLoop_removeChannel eventHandling current active c p =
     cpp_assert (eventHandling \<longrightarrow> current = Some c \<or> c \<notin> set active) (removeChannel c p)"

lemma remove_other_active_asserts:
  "c \<in> set active \<Longrightarrow> current \<noteq> Some c \<Longrightarrow> EventLoop_removeChannel True current active c p = Inl AssertFailed"
  by (simp add: EventLoop_removeChannel_def cpp_assert_def)

section \<open>A loop in its own thread\<close>

text \<open>
  The owner calls \<open>startLoop\<close> (it tests \<open>loop_\<close> under the mutex and blocks on the condition variable) and
  later runs the destructor; the thread publishes its loop, enters \<open>EventLoop::loop\<close>, which clears the
  quit flag, leaves it when it sees the flag, and clears \<open>loop_\<close>.  Only the destructor calls \<open>quit\<close>.
\<close>

datatype owner_pc = Unstarted | Testing | Blocked | Started | Joining | Destroyed | Terminated

datatype thread_pc = NoThread | Initialising | Published | Looping | LoopLeft | Ended

record loop_thread =
  lt_owner :: owner_pc
  lt_thread :: thread_pc
  lt_loop :: bool
  lt_quit :: bool

definition new_loop_thread :: loop_thread where
  "new_loop_thread = \<lparr>lt_owner = Unstarted, lt_thread = NoThread, lt_loop = False, lt_quit = False\<rparr>"

inductive lt_step :: "loop_thread \<Rightarrow> loop_thread \<Rightarrow> bool" where
  start: "lt_owner s = Unstarted \<Longrightarrow> lt_step s (s\<lparr>lt_owner := Testing, lt_thread := Initialising\<rparr>)"
| test_blocks: "lt_owner s = Testing \<Longrightarrow> \<not> lt_loop s \<Longrightarrow> lt_step s (s\<lparr>lt_owner := Blocked\<rparr>)"
| test_returns: "lt_owner s = Testing \<Longrightarrow> lt_loop s \<Longrightarrow> lt_step s (s\<lparr>lt_owner := Started\<rparr>)"
| spurious: "lt_owner s = Blocked \<Longrightarrow> lt_step s (s\<lparr>lt_owner := Testing\<rparr>)"
| publish: "lt_thread s = Initialising \<Longrightarrow>
     lt_step s (s\<lparr>lt_thread := Published, lt_loop := True, lt_owner := (if lt_owner s = Blocked then Testing else lt_owner s)\<rparr>)"
| enter_loop: "lt_thread s = Published \<Longrightarrow> lt_step s (s\<lparr>lt_thread := Looping, lt_quit := False\<rparr>)"
| leave_loop: "lt_thread s = Looping \<Longrightarrow> lt_quit s \<Longrightarrow> lt_step s (s\<lparr>lt_thread := LoopLeft\<rparr>)"
| clear_loop: "lt_thread s = LoopLeft \<Longrightarrow> lt_step s (s\<lparr>lt_thread := Ended, lt_loop := False\<rparr>)"
| destroy_unstarted: "lt_owner s = Unstarted \<Longrightarrow> lt_step s (s\<lparr>lt_owner := Destroyed\<rparr>)"
| destroy_quits: "lt_owner s = Started \<Longrightarrow> lt_loop s \<Longrightarrow> lt_step s (s\<lparr>lt_owner := Joining, lt_quit := True\<rparr>)"
| destroy_joinable: "lt_owner s = Started \<Longrightarrow> \<not> lt_loop s \<Longrightarrow> lt_step s (s\<lparr>lt_owner := Terminated\<rparr>)"
| joined: "lt_owner s = Joining \<Longrightarrow> lt_thread s = Ended \<Longrightarrow> lt_step s (s\<lparr>lt_owner := Destroyed\<rparr>)"

inductive_cases lt_stepE: "lt_step s t"

definition lt_inv :: "loop_thread \<Rightarrow> bool" where
  "lt_inv s \<longleftrightarrow>
     (case lt_owner s of
        Unstarted \<Rightarrow> lt_thread s = NoThread \<and> \<not> lt_loop s \<and> \<not> lt_quit s
      | Testing \<Rightarrow> lt_thread s = Initialising \<and> \<not> lt_loop s \<or> lt_thread s \<in> {Published, Looping} \<and> lt_loop s \<and> \<not> lt_quit s
      | Blocked \<Rightarrow> lt_thread s = Initialising \<and> \<not> lt_loop s
      | Started \<Rightarrow> lt_thread s \<in> {Published, Looping} \<and> lt_loop s \<and> \<not> lt_quit s
      | Joining \<Rightarrow> lt_thread s \<in> {Published, Looping, LoopLeft, Ended} \<and> (lt_loop s \<longleftrightarrow> lt_thread s \<noteq> Ended)
      | Destroyed \<Rightarrow> lt_thread s \<in> {NoThread, Ended}
      | Terminated \<Rightarrow> False) \<and>
     (lt_thread s = Initialising \<longrightarrow> \<not> lt_quit s)"

lemma lt_step_inv: "lt_step s t \<Longrightarrow> lt_inv s \<Longrightarrow> lt_inv t"
  by (erule lt_stepE) (auto simp: lt_inv_def split: owner_pc.splits)

lemma reachable_lt_inv: "reachable (\<lambda>s. s = new_loop_thread) lt_step s \<Longrightarrow> lt_inv s"
proof (erule reachable_invariant)
  show "lt_inv s" if "s = new_loop_thread" for s
    using that by (simp add: new_loop_thread_def lt_inv_def)
qed (rule lt_step_inv)

lemma waiting_completes:
  assumes "lt_inv s" and "lt_owner s = Testing \<or> lt_owner s = Blocked"
  shows "\<exists>t. lt_step\<^sup>*\<^sup>* s t \<and> lt_owner t = Started"
proof -
  have go: "\<exists>t. lt_step\<^sup>*\<^sup>* u t \<and> lt_owner t = Started" if "lt_owner u = Testing" "lt_loop u" for u
    using test_returns [OF that] by (intro exI [of _ "u\<lparr>lt_owner := Started\<rparr>"]) auto
  show ?thesis
  proof (cases "lt_loop s")
    case True
    then have "lt_owner s = Testing" using assms by (auto simp: lt_inv_def)
    then show ?thesis using True by (rule go)
  next
    case False
    then have "lt_thread s = Initialising" using assms by (auto simp: lt_inv_def)
    from publish [OF this] obtain u where "lt_step s u" "lt_owner u = Testing" "lt_loop u" using assms(2) by fastforce
    then show ?thesis using go by (meson converse_rtranclp_into_rtranclp)
  qed
qed

text \<open>
  Claim C37. Starting a loop in a thread of its own loses no wake-up: the owner is blocked only while the
  thread has not published its loop, from every such state \<open>startLoop\<close> can return, and when it has
  returned the loop exists and is not told to quit; a destructor has returned only after the thread
  has ended, and never destroys a running thread.
\<close>

theorem loop_thread_start:
  assumes "reachable (\<lambda>s. s = new_loop_thread) lt_step s"
  shows "(lt_owner s = Blocked \<longrightarrow> \<not> lt_loop s) \<and>
         (lt_owner s = Testing \<or> lt_owner s = Blocked \<longrightarrow> (\<exists>t. lt_step\<^sup>*\<^sup>* s t \<and> lt_owner t = Started)) \<and>
         (lt_owner s = Started \<longrightarrow> lt_loop s \<and> \<not> lt_quit s) \<and>
         (lt_owner s = Destroyed \<longrightarrow> lt_thread s \<in> {NoThread, Ended}) \<and> lt_owner s \<noteq> Terminated"
  using reachable_lt_inv [OF assms] waiting_completes [of s] by (auto simp: lt_inv_def)

text \<open>The thread blocked in \<open>startLoop\<close>, and the one whose loop is told to quit before it runs.\<close>

definition lt_blocked :: loop_thread where
  "lt_blocked = \<lparr>lt_owner = Blocked, lt_thread = Initialising, lt_loop = False, lt_quit = False\<rparr>"

lemma lt_blocked_reachable: "reachable (\<lambda>s. s = new_loop_thread) lt_step lt_blocked"
proof -
  let ?s1 = "\<lparr>lt_owner = Testing, lt_thread = Initialising, lt_loop = False, lt_quit = False\<rparr>"
  have "lt_step new_loop_thread ?s1" using start [of new_loop_thread] by (simp add: new_loop_thread_def)
  moreover have "lt_step ?s1 lt_blocked" using test_blocks [of ?s1] by (simp add: lt_blocked_def)
  moreover have "reachable (\<lambda>s. s = new_loop_thread) lt_step new_loop_thread" by (rule reachable_init) (rule refl)
  ultimately show ?thesis by (blast intro: reachable_step)
qed

theorem loop_thread_start_witness:
  "\<exists>t. lt_step\<^sup>*\<^sup>* lt_blocked t \<and> lt_owner t = Started"
  using loop_thread_start [OF lt_blocked_reachable] by (simp add: lt_blocked_def)

text \<open>
  A loop that is told to quit between its publication and its first iteration forgets it: \<open>loop\<close> clears the
  flag, and the destructor waits for ever.
\<close>

definition lt_hung :: loop_thread where
  "lt_hung = \<lparr>lt_owner = Joining, lt_thread = Looping, lt_loop = True, lt_quit = False\<rparr>"

lemma lt_hung_reachable: "reachable (\<lambda>s. s = new_loop_thread) lt_step lt_hung"
proof -
  let ?s1 = "\<lparr>lt_owner = Testing, lt_thread = Published, lt_loop = True, lt_quit = False\<rparr>"
  let ?s2 = "\<lparr>lt_owner = Started, lt_thread = Published, lt_loop = True, lt_quit = False\<rparr>"
  let ?s3 = "\<lparr>lt_owner = Joining, lt_thread = Published, lt_loop = True, lt_quit = True\<rparr>"
  have "lt_step lt_blocked ?s1" using publish [of lt_blocked] by (simp add: lt_blocked_def)
  moreover have "lt_step ?s1 ?s2" using test_returns [of ?s1] by simp
  moreover have "lt_step ?s2 ?s3" using destroy_quits [of ?s2] by simp
  moreover have "lt_step ?s3 lt_hung" using enter_loop [of ?s3] by (simp add: lt_hung_def)
  ultimately show ?thesis using lt_blocked_reachable by (blast intro: reachable_step)
qed

theorem loop_thread_destructor_may_hang:
  "reachable (\<lambda>s. s = new_loop_thread) lt_step lt_hung \<and> (\<forall>t. lt_step\<^sup>*\<^sup>* lt_hung t \<longrightarrow> lt_owner t = Joining)"
proof -
  have stuck: "\<not> lt_step lt_hung t" for t by (auto simp: lt_hung_def elim!: lt_stepE)
  have "t = lt_hung" if "lt_step\<^sup>*\<^sup>* lt_hung t" for t
    using that by (cases rule: converse_rtranclpE) (simp_all add: stuck)
  moreover have "lt_owner lt_hung = Joining" by (simp add: lt_hung_def)
  ultimately show ?thesis using lt_hung_reachable by blast
qed

end
