(* ===== verification/Reactor.thy ===== *)
theory Reactor
  imports Event_Poll Tcp_Connection
begin

text \<open>
  One loop with many connections: an iteration of \<open>EventLoop::loop\<close> (\<open>network/src/EventLoop.cc\<close>) over the
  poller of \<open>Event_Poll\<close> and the connections of \<open>Tcp_Connection\<close>.  A connection's channel has the
  connection's number; \<open>r_wake\<close> is the channel of the wake-up descriptor.  The kernel's answers to the
  system calls of a callback are arguments, one per connection.
\<close>

record reactor =
  r_poll :: PollState
  r_conns :: "nat \<rightharpoonup> TcpConnection"
  r_wake :: nat

abbreviation r_poller :: "reactor \<Rightarrow> Poller" where "r_poller r \<equiv> ps_poller (r_poll r)"

definition set_poller :: "Poller \<Rightarrow> reactor \<Rightarrow> reactor" where
  "set_poller p r = r\<lparr>r_poll := (r_poll r)\<lparr>ps_poller := p\<rparr>\<rparr>"

text \<open>
  \<open>handleEvent\<close> of an active channel.  A callback changes the interest of its own connection at most once,
  and tells the poller when it does.
\<close>

definition update_interest :: "nat \<Rightarrow> EventType set \<Rightarrow> EventType set \<Rightarrow> Poller \<Rightarrow> Poller res" where
  "update_interest c old new p = (if new = old then Inr p else set_events (\<lambda>_. new) c p)"

definition conn_turn :: "(nat \<Rightarrow> kernel_read) \<Rightarrow> (nat \<Rightarrow> write_result) \<Rightarrow> nat \<Rightarrow> reactor \<Rightarrow> reactor res" where
  "conn_turn rv w c r =
     (if c = r_wake r then Inr r
      else case r_conns r c of
             None \<Rightarrow> Inl UndefinedBehaviour
           | Some k \<Rightarrow> rbind (dispatch (rv c) (w c) (ch_revents (chans (r_poller r) c)) k) (\<lambda>k'.
               rbind (update_interest c (tc_events k) (tc_events k') (r_poller r)) (\<lambda>p.
                 Inr ((set_poller p r)\<lparr>r_conns := (r_conns r)(c \<mapsto> k')\<rparr>))))"

fun handle_active :: "(nat \<Rightarrow> kernel_read) \<Rightarrow> (nat \<Rightarrow> write_result) \<Rightarrow> nat list \<Rightarrow> reactor \<Rightarrow> reactor res" where
  "handle_active rv w [] r = Inr r"
| "handle_active rv w (c # cs) r = rbind (conn_turn rv w c r) (handle_active rv w cs)"

definition loop_turn :: "(nat \<Rightarrow> kernel_read) \<Rightarrow> (nat \<Rightarrow> write_result) \<Rightarrow> (PollFlag set \<times> nat) list option \<Rightarrow> reactor \<Rightarrow> reactor res" where
  "loop_turn rv w answer r =
     rbind (Poller_poll answer (r_poll r)) (\<lambda>(active, st). handle_active rv w active (r\<lparr>r_poll := st\<rparr>))"

section \<open>Consistency\<close>

definition watched :: "EventType set \<Rightarrow> PollFlag set" where
  "watched ev = (if ReadEvent \<in> ev then {POLLIN} else {}) \<union> (if WriteEvent \<in> ev then {POLLOUT} else {}) \<union> {POLLHUP, POLLERR}"

text \<open>The kernel reports for a descriptor what it was asked to watch, and hang-ups and errors.\<close>

definition kernel_reports :: "PollState \<Rightarrow> (PollFlag set \<times> nat) list \<Rightarrow> bool" where
  "kernel_reports st es \<longleftrightarrow> length es \<le> ps_capacity st \<and> distinct (map snd es) \<and>
     (\<forall>revs c. (revs, c) \<in> set es \<longrightarrow> (\<exists>fd ev. epoll (ps_poller st) fd = Some (ev, c) \<and> revs \<subseteq> watched ev))"

text \<open>
  The poller, the kernel and the connections agree: every connection's mask is its channel's, a
  connection with a mask is watched, and what is watched has a mask and is alive.
\<close>

definition conn_synced :: "Poller \<Rightarrow> nat \<Rightarrow> TcpConnection \<Rightarrow> bool" where
  "conn_synced p c k \<longleftrightarrow> tc_ok k \<and> ch_events (chans p c) = tc_events k \<and>
     (tc_events k \<noteq> {} \<longrightarrow> registered c p \<and> ch_index (chans p c) = kAdded)"

definition reactor_ok :: "reactor \<Rightarrow> bool" where
  "reactor_ok r \<longleftrightarrow> poller_ok (r_poller r) \<and> r_conns r (r_wake r) = None \<and>
     (\<forall>fd ev c. epoll (r_poller r) fd = Some (ev, c) \<longrightarrow> ev \<noteq> {} \<and> (c = r_wake r \<or> r_conns r c \<noteq> None)) \<and>
     (\<forall>c k. r_conns r c = Some k \<longrightarrow> conn_synced (r_poller r) c k)"

lemma requested_watched: "tc_events k \<noteq> {} \<Longrightarrow> requested k = watched (tc_events k)"
  by (simp add: requested_def watched_def)

lemma epoll_entry:
  assumes "poller_ok p" "epoll p fd = Some (ev, c)"
  shows "registered c p" "ch_events (chans p c) = ev" "ch_index (chans p c) = kAdded" "ch_fd (chans p c) = fd"
proof -
  have "channels p fd \<noteq> None" using poller_okD(2) [OF assms(1)] assms(2) by fastforce
  then obtain d where d: "channels p fd = Some d" by blast
  note ok = poller_okD(1) [OF assms(1) d]
  then have "d = c \<and> ch_events (chans p c) = ev \<and> ch_index (chans p c) = kAdded" using assms(2) by (auto split: if_splits)
  then show "registered c p" "ch_events (chans p c) = ev" "ch_index (chans p c) = kAdded" "ch_fd (chans p c) = fd"
    using ok d by (simp_all add: registered_def)
qed

lemma fillActiveChannels_fields:
  "fillActiveChannels es p = Inr (active, q) \<Longrightarrow>
   ch_events (chans q c) = ch_events (chans p c) \<and> ch_index (chans q c) = ch_index (chans p c) \<and> ch_fd (chans q c) = ch_fd (chans p c)"
  by (induction es p arbitrary: active rule: fillActiveChannels.induct) (auto simp: cpp_assert_def split: if_splits)

text \<open>A report for a connection is within what the connection asked for.\<close>

lemma report_requested:
  assumes "reactor_ok r" "kernel_reports (r_poll r) es" "(revs, c) \<in> set es" "c \<noteq> r_wake r"
  shows "\<exists>k. r_conns r c = Some k \<and> revs \<subseteq> requested k \<and> tc_events k \<noteq> {}"
proof -
  obtain fd ev where e: "epoll (r_poller r) fd = Some (ev, c)" "revs \<subseteq> watched ev"
    using assms(2,3) unfolding kernel_reports_def by blast
  then have "ev \<noteq> {}" "r_conns r c \<noteq> None" using assms(1,4) unfolding reactor_ok_def by blast+
  then obtain k where k: "r_conns r c = Some k" by blast
  have "ch_events (chans (r_poller r) c) = ev" using assms(1) e(1) epoll_entry(2) by (auto simp: reactor_ok_def)
  moreover have "ch_events (chans (r_poller r) c) = tc_events k" using assms(1) k by (auto simp: reactor_ok_def conn_synced_def)
  ultimately show ?thesis using k e(2) \<open>ev \<noteq> {}\<close> requested_watched by auto
qed

lemma synced_frame:
  "d \<noteq> c \<Longrightarrow> chans (synced ev c p) d = chans p d" "fd \<noteq> ch_fd (chans p c) \<Longrightarrow> epoll (synced ev c p) fd = epoll p fd"
  "ch_revents (chans (synced ev c p) c) = ch_revents (chans p c)" "fd \<noteq> ch_fd (chans p c) \<Longrightarrow> channels (synced ev c p) fd = channels p fd"
  "ch_fd (chans (synced ev c p) c) = ch_fd (chans p c)"
  by (simp_all add: synced_def Let_def)

lemma synced_index:
  "ch_index (chans p c) = kAdded \<Longrightarrow> ch_index (chans (synced ev c p) c) = (if ev = {} then kDeleted else kAdded)"
  "ch_index (chans p c) = kAdded \<Longrightarrow> epoll (synced ev c p) (ch_fd (chans p c)) = (if ev = {} then None else Some (ev, c))"
  by (simp_all add: synced_def Let_def)

lemma conn_synced_frame:
  assumes "conn_synced p d k" "d \<noteq> c" "poller_ok p" "registered c p"
  shows "conn_synced (synced ev c p) d k"
proof -
  have "ch_fd (chans p d) \<noteq> ch_fd (chans p c)" if "registered d p"
    using that assms(2,4) by (auto simp: registered_def)
  then show ?thesis using assms(1,2) by (auto simp: conn_synced_def registered_def synced_frame)
qed

text \<open>The turn of one watched connection.\<close>

lemma conn_turn_ok:
  assumes "reactor_ok r" "r_conns r c = Some k" "ch_revents (chans (r_poller r) c) \<subseteq> requested k"
    and "kernel_ok (w c) (contents (tc_out k)) k" "tc_events k \<noteq> {}"
  shows "\<exists>k' r'. dispatch (rv c) (w c) (ch_revents (chans (r_poller r) c)) k = Inr k' \<and> conn_turn rv w c r = Inr r' \<and> reactor_ok r' \<and>
    r_conns r' = (r_conns r)(c \<mapsto> k') \<and> r_wake r' = r_wake r \<and> (\<forall>d. d \<noteq> c \<longrightarrow> chans (r_poller r') d = chans (r_poller r) d)"
proof -
  let ?p = "r_poller r"
  have c: "poller_ok ?p" "c \<noteq> r_wake r" "conn_synced ?p c k" using assms(1,2) by (auto simp: reactor_ok_def)
  then have k: "tc_ok k" "ch_events (chans ?p c) = tc_events k" "registered c ?p" "ch_index (chans ?p c) = kAdded"
    using assms(5) by (auto simp: conn_synced_def)
  obtain k' where k': "dispatch (rv c) (w c) (ch_revents (chans ?p c)) k = Inr k'" "tc_ok k'"
    using dispatch_ok [OF k(1) assms(3,4)] by blast
  show ?thesis
  proof (cases "tc_events k' = tc_events k")
    case True
    let ?r = "r\<lparr>r_conns := (r_conns r)(c \<mapsto> k')\<rparr>"
    have "conn_turn rv w c r = Inr ?r" using assms(2) c(2) k'(1) True
      by (simp add: conn_turn_def update_interest_def set_poller_def)
    moreover have "reactor_ok ?r" using assms(1) True k'(2) k c(2) by (auto simp: reactor_ok_def conn_synced_def)
    ultimately show ?thesis using k'(1) by (intro exI [of _ k'] exI [of _ ?r]) simp
  next
    case False
    let ?q = "synced (tc_events k') c ?p" and ?r = "(set_poller (synced (tc_events k') c ?p) r)\<lparr>r_conns := (r_conns r)(c \<mapsto> k')\<rparr>"
    have upd: "updatable c ?p" using k(3) by (simp add: updatable_def)
    have q: "poller_ok ?q" "registered c ?q" "ch_events (chans ?q c) = tc_events k'" using synced_ok [OF c(1) upd] by auto
    have "conn_turn rv w c r = Inr ?r" using assms(2) c(2) k'(1) False set_events_synced [OF c(1) upd]
      by (simp add: conn_turn_def update_interest_def)
    moreover have "reactor_ok ?r"
      unfolding reactor_ok_def
    proof (intro conjI allI impI)
      fix fd ev d assume e: "epoll (r_poller ?r) fd = Some (ev, d)"
      have "(fd = ch_fd (chans ?p c) \<and> d = c \<and> ev \<noteq> {}) \<or> epoll ?p fd = Some (ev, d)"
        using e synced_index(2) [OF k(4), of "tc_events k'"] synced_frame(2) [of fd ?p c]
        by (cases "fd = ch_fd (chans ?p c)") (auto simp: set_poller_def split: if_splits)
      then show "ev \<noteq> {}" "d = r_wake ?r \<or> r_conns ?r d \<noteq> None" using assms(1) by (auto simp: reactor_ok_def set_poller_def)
    next
      fix d l assume "r_conns ?r d = Some l"
      then show "conn_synced (r_poller ?r) d l"
        using assms(1) q k'(2) synced_index(1) [OF k(4), of "tc_events k'"] conn_synced_frame [OF _ _ c(1) k(3), of d l]
        by (cases "d = c") (auto simp: set_poller_def reactor_ok_def conn_synced_def)
    qed (use q(1) c(2) assms(1) in \<open>auto simp: set_poller_def reactor_ok_def\<close>)
    moreover have "chans (r_poller ?r) d = chans ?p d" if "d \<noteq> c" for d using that by (simp add: set_poller_def synced_frame)
    ultimately show ?thesis using k'(1) by (intro exI [of _ k'] exI [of _ ?r]) (simp add: set_poller_def)
  qed
qed

lemma handle_active_ok:
  "reactor_ok r \<Longrightarrow> distinct cs \<Longrightarrow>
   (\<And>c. c \<in> set cs \<Longrightarrow> c \<noteq> r_wake r \<Longrightarrow> \<exists>k. r_conns r c = Some k \<and> ch_revents (chans (r_poller r) c) \<subseteq> requested k \<and> tc_events k \<noteq> {}
      \<and> kernel_ok (w c) (contents (tc_out k)) k) \<Longrightarrow>
   \<exists>r'. handle_active rv w cs r = Inr r' \<and> reactor_ok r' \<and> r_wake r' = r_wake r \<and>
     (\<forall>c. c \<notin> set cs \<longrightarrow> r_conns r' c = r_conns r c) \<and>
     (\<forall>c k. c \<in> set cs \<longrightarrow> r_conns r c = Some k \<longrightarrow>
        (\<exists>k'. dispatch (rv c) (w c) (ch_revents (chans (r_poller r) c)) k = Inr k' \<and> r_conns r' c = Some k'))"
proof (induction cs arbitrary: r)
  case Nil
  then show ?case by simp
next
  case (Cons c cs)
  have "\<exists>r1. conn_turn rv w c r = Inr r1 \<and> reactor_ok r1 \<and> r_wake r1 = r_wake r \<and>
      (\<forall>d. d \<noteq> c \<longrightarrow> r_conns r1 d = r_conns r d \<and> chans (r_poller r1) d = chans (r_poller r) d) \<and>
      (\<forall>k. r_conns r c = Some k \<longrightarrow> (\<exists>k'. dispatch (rv c) (w c) (ch_revents (chans (r_poller r) c)) k = Inr k' \<and> r_conns r1 c = Some k'))"
  proof (cases "c = r_wake r")
    case True
    then show ?thesis using Cons.prems(1) by (intro exI [of _ r]) (simp add: conn_turn_def reactor_ok_def)
  next
    case False
    then obtain k where k: "r_conns r c = Some k" "ch_revents (chans (r_poller r) c) \<subseteq> requested k" "tc_events k \<noteq> {}"
        "kernel_ok (w c) (contents (tc_out k)) k"
      using Cons.prems(3) [of c] by auto
    obtain k' r1 where "dispatch (rv c) (w c) (ch_revents (chans (r_poller r) c)) k = Inr k'" "conn_turn rv w c r = Inr r1" "reactor_ok r1"
        "r_conns r1 = (r_conns r)(c \<mapsto> k')" "r_wake r1 = r_wake r" "\<forall>d. d \<noteq> c \<longrightarrow> chans (r_poller r1) d = chans (r_poller r) d"
      using conn_turn_ok [where w = w and rv = rv, OF Cons.prems(1) k(1,2,4,3)] by blast
    then show ?thesis using k(1) by (intro exI [of _ r1]) auto
  qed
  then obtain r1 where r1: "conn_turn rv w c r = Inr r1" "reactor_ok r1" "r_wake r1 = r_wake r"
      "\<And>d. d \<noteq> c \<Longrightarrow> r_conns r1 d = r_conns r d" "\<And>d. d \<noteq> c \<Longrightarrow> chans (r_poller r1) d = chans (r_poller r) d"
      "\<And>k. r_conns r c = Some k \<Longrightarrow> \<exists>k'. dispatch (rv c) (w c) (ch_revents (chans (r_poller r) c)) k = Inr k' \<and> r_conns r1 c = Some k'"
    by blast
  have ne: "d \<noteq> c" if "d \<in> set cs" for d using Cons.prems(2) that by auto
  have "\<exists>r2. handle_active rv w cs r1 = Inr r2 \<and> reactor_ok r2 \<and> r_wake r2 = r_wake r1 \<and> (\<forall>c. c \<notin> set cs \<longrightarrow> r_conns r2 c = r_conns r1 c) \<and>
     (\<forall>c k. c \<in> set cs \<longrightarrow> r_conns r1 c = Some k \<longrightarrow>
        (\<exists>k'. dispatch (rv c) (w c) (ch_revents (chans (r_poller r1) c)) k = Inr k' \<and> r_conns r2 c = Some k'))"
  proof (rule Cons.IH [OF r1(2)])
    show "\<exists>k. r_conns r1 d = Some k \<and> ch_revents (chans (r_poller r1) d) \<subseteq> requested k \<and> tc_events k \<noteq> {} \<and> kernel_ok (w d) (contents (tc_out k)) k"
      if "d \<in> set cs" "d \<noteq> r_wake r1" for d
      using Cons.prems(3) [of d] that r1(3) r1(4,5) [OF ne [OF that(1)]] by simp
  qed (use Cons.prems(2) in simp)
  then obtain r2 where r2: "handle_active rv w cs r1 = Inr r2" "reactor_ok r2" "r_wake r2 = r_wake r1"
      "\<And>c. c \<notin> set cs \<Longrightarrow> r_conns r2 c = r_conns r1 c"
      "\<And>c k. c \<in> set cs \<Longrightarrow> r_conns r1 c = Some k \<Longrightarrow>
        \<exists>k'. dispatch (rv c) (w c) (ch_revents (chans (r_poller r1) c)) k = Inr k' \<and> r_conns r2 c = Some k'"
    by blast
  have "\<exists>k'. dispatch (rv d) (w d) (ch_revents (chans (r_poller r) d)) k = Inr k' \<and> r_conns r2 d = Some k'"
    if "d \<in> set (c # cs)" "r_conns r d = Some k" for d k
  proof (cases "d = c")
    case True
    have "r_conns r2 c = r_conns r1 c" using Cons.prems(2) by (intro r2(4)) simp
    then show ?thesis using r1(6) that True by simp
  next
    case False
    then show ?thesis using r2(5) [of d k] that r1(4,5) [OF False] by simp
  qed
  then show ?case using r1(1,3,4) r2(1-4) by (intro exI [of _ r2]) simp
qed

section \<open>Properties\<close>

text \<open>
  Claim C6. An iteration of a loop serves exactly the connections the kernel reported.  When poller,
  kernel and connections agree, the iteration runs into no assertion and they agree again afterwards;
  every reported connection has handled exactly the events reported for it, with its descriptor watched
  for what it now asks for, and every other connection is untouched.
\<close>

theorem loop_turn_serves_reported:
  assumes "reactor_ok r" "kernel_reports (r_poll r) es" "es \<noteq> []"
    and "\<And>c k. r_conns r c = Some k \<Longrightarrow> kernel_ok (w c) (contents (tc_out k)) k"
  shows "\<exists>r'. loop_turn rv w (Some es) r = Inr r' \<and> reactor_ok r' \<and>
    (\<forall>c. c \<notin> snd ` set es \<longrightarrow> r_conns r' c = r_conns r c) \<and>
    (\<forall>revs c k. (revs, c) \<in> set es \<longrightarrow> r_conns r c = Some k \<longrightarrow>
       (\<exists>k'. dispatch (rv c) (w c) revs k = Inr k' \<and> r_conns r' c = Some k'))"
proof -
  have p: "poller_ok (r_poller r)" using assms(1) by (simp add: reactor_ok_def)
  have len: "length es \<le> ps_capacity (r_poll r)" "distinct (map snd es)" using assms(2) by (auto simp: kernel_reports_def)
  have reg: "registered c (r_poller r)" if "(revs, c) \<in> set es" for revs c
    using assms(2) that epoll_entry(1) [OF p] unfolding kernel_reports_def by blast
  obtain q where q: "fillActiveChannels es (r_poller r) = Inr (map snd es, q)" "poller_ok q" "channels q = channels (r_poller r)"
      "epoll q = epoll (r_poller r)" "\<And>revs c. (revs, c) \<in> set es \<Longrightarrow> ch_revents (chans q c) = revs"
      "\<And>c. c \<notin> snd ` set es \<Longrightarrow> chans q c = chans (r_poller r) c"
    using fillActiveChannels_ok [OF p len(2)] reg by blast
  have same: "ch_events (chans q c) = ch_events (chans (r_poller r) c) \<and> ch_index (chans q c) = ch_index (chans (r_poller r) c)
      \<and> ch_fd (chans q c) = ch_fd (chans (r_poller r) c)" for c
    using fillActiveChannels_fields [OF q(1)] by blast
  let ?st = "(r_poll r)\<lparr>ps_poller := q, ps_capacity := (if length es = ps_capacity (r_poll r) then ps_capacity (r_poll r) * 2 else ps_capacity (r_poll r))\<rparr>"
  let ?r = "r\<lparr>r_poll := ?st\<rparr>"
  have poll: "Poller_poll (Some es) (r_poll r) = Inr (map snd es, ?st)" using q(1) len(1) assms(3) by (simp add: Poller_poll_def)
  have ok: "reactor_ok ?r" using assms(1) q(2-4) same by (auto simp: reactor_ok_def conn_synced_def registered_def)
  have reported: "\<exists>k. r_conns ?r c = Some k \<and> ch_revents (chans (r_poller ?r) c) \<subseteq> requested k \<and> tc_events k \<noteq> {} \<and> kernel_ok (w c) (contents (tc_out k)) k"
    if "c \<in> set (map snd es)" "c \<noteq> r_wake ?r" for c
  proof -
    have "\<exists>revs. (revs, c) \<in> set es" using that(1) by auto
    then obtain revs where rc: "(revs, c) \<in> set es" ..
    then show ?thesis using report_requested [OF assms(1,2) rc] q(5) [OF rc] assms(4) that(2) by fastforce
  qed
  obtain r' where r': "handle_active rv w (map snd es) ?r = Inr r'" "reactor_ok r'" "\<forall>c. c \<notin> set (map snd es) \<longrightarrow> r_conns r' c = r_conns ?r c"
      "\<forall>c k. c \<in> set (map snd es) \<longrightarrow> r_conns ?r c = Some k \<longrightarrow>
         (\<exists>k'. dispatch (rv c) (w c) (ch_revents (chans (r_poller ?r) c)) k = Inr k' \<and> r_conns r' c = Some k')"
    using handle_active_ok [OF ok len(2) reported] by blast
  have "\<exists>k'. dispatch (rv c) (w c) revs k = Inr k' \<and> r_conns r' c = Some k'" if "(revs, c) \<in> set es" "r_conns r c = Some k" for revs c k
  proof -
    have "c \<in> set (map snd es)" using that(1) by force
    then show ?thesis using r'(4) that(2) q(5) [OF that(1)] by auto
  qed
  then show ?thesis using r'(1-3) poll by (intro exI [of _ r']) (simp add: loop_turn_def)
qed

text \<open>A loop with one established connection, on channel 0.\<close>

definition up_conn :: TcpConnection where
  "up_conn = (new_TcpConnection False)\<lparr>tc_state := kConnected, tc_events := {ReadEvent}, tc_callbacks := [ConnectionUp]\<rparr>"

definition one_conn :: reactor where
  "one_conn = \<lparr>r_poll = \<lparr>ps_poller = synced {ReadEvent} 0 one_channel, ps_capacity = kInitEventListSize\<rparr>, r_conns = [0 \<mapsto> up_conn], r_wake = 7\<rparr>"

lemma up_conn_reachable: "tcp_reachable up_conn"
  unfolding up_conn_def by (rule established_reachable)

lemma one_channel_ok: "poller_ok one_channel" "updatable 0 one_channel"
  by (auto simp: poller_ok_def updatable_def registered_def one_channel_def new_Channel_def)

lemma one_conn_ok: "reactor_ok one_conn"
proof -
  let ?p = "synced {ReadEvent} 0 one_channel"
  have ok: "poller_ok ?p" "registered 0 ?p" "ch_events (chans ?p 0) = {ReadEvent}"
    using synced_ok [OF one_channel_ok, of "{ReadEvent}"] by auto
  have ep: "epoll ?p = [5 \<mapsto> ({ReadEvent}, 0)]" "ch_index (chans ?p 0) = kAdded"
    by (simp_all add: synced_def one_channel_def new_Channel_def)
  have "tc_ok up_conn" using reachable_tc_inv [OF up_conn_reachable] by (simp add: tc_inv_def)
  then have "conn_synced ?p 0 up_conn" using ok ep by (simp add: conn_synced_def up_conn_def)
  then show ?thesis using ok(1) ep(1) by (simp add: reactor_ok_def one_conn_def)
qed

theorem loop_turn_serves_reported_witness:
  "\<exists>r' k'. loop_turn (\<lambda>_ _. Inr ''hi'') (\<lambda>_. Inl EWOULDBLOCK) (Some [({POLLIN}, 0)]) one_conn = Inr r' \<and> reactor_ok r' \<and>
     dispatch (\<lambda>_. Inr ''hi'') (Inl EWOULDBLOCK) {POLLIN} up_conn = Inr k' \<and> r_conns r' 0 = Some k'"
proof -
  have conns: "r_conns one_conn = [0 \<mapsto> up_conn]" by (simp add: one_conn_def)
  have rep: "kernel_reports (r_poll one_conn) [({POLLIN}, 0)]"
    by (auto simp: kernel_reports_def one_conn_def kInitEventListSize_def synced_def one_channel_def new_Channel_def Let_def watched_def)
  have "kernel_ok (Inl EWOULDBLOCK) (contents (tc_out k)) k" if "r_conns one_conn c = Some k" for c k
    using that by (auto simp: conns kernel_ok_def up_conn_def new_TcpConnection_def split: if_splits)
  with loop_turn_serves_reported [OF one_conn_ok rep, of "\<lambda>_. Inl EWOULDBLOCK" "\<lambda>_ _. Inr ''hi''"] conns
  show ?thesis by auto
qed

text \<open>
  A connection that stopped reading is no longer watched; closing it then updates its channel once more,
  and the poller adds the descriptor again, with an empty mask.  The kernel reports hang-ups for it all the same,
  and the close callback of a connection that is already closed fails its assertion.
\<close>

theorem closed_connection_rewatched:
  "\<exists>p1 p2 p3 k. enableReading 0 one_channel = Inr p1 \<and> disableReading 0 p1 = Inr p2 \<and> disableAll 0 p2 = Inr p3 \<and>
     epoll p2 5 = None \<and> epoll p3 5 = Some ({}, 0) \<and>
     run_functor w ForceCloseInLoop ((forceClose (stopReadInLoop up_conn))\<lparr>tc_queue := []\<rparr>) = Inr k \<and> tcp_reachable k \<and>
     tc_events k = {} \<and> POLLHUP \<in> watched (tc_events k) \<and> dispatch rv w {POLLHUP} k = Inl AssertFailed"
proof -
  let ?c1 = "stopReadInLoop up_conn" and ?c2 = "forceClose (stopReadInLoop up_conn)"
  let ?k = "callback CloseCb (callback ConnectionDown ((forceClose (stopReadInLoop up_conn))\<lparr>tc_queue := [], tc_state := kDisconnected, tc_events := {}\<rparr>))"
  have c2: "tc_queue ?c2 = [ForceCloseInLoop]" "tc_state ?c2 = kDisconnecting"
    by (simp_all add: forceClose_def stopReadInLoop_def up_conn_def queueInLoop_def new_TcpConnection_def)
  have run: "run_functor w ForceCloseInLoop (?c2\<lparr>tc_queue := []\<rparr>) = Inr ?k"
    using c2(2) by (simp add: run_functor_def forceCloseInLoop_def handleClose_def)
  have "tcp_reachable ?c2" using up_conn_reachable by (blast intro: reachable_step user_stopRead user_forceClose)
  then have "tcp_reachable ?k" using loop_functor [OF c2(1) _ run] by (auto intro: reachable_step)
  moreover have "dispatch rv w {POLLHUP} ?k = Inl AssertFailed"
    by (simp add: dispatch_def handleEvent_def run_callback_def handleClose_def callback_def cpp_assert_def)
  moreover have "\<exists>p1 p2 p3. enableReading 0 one_channel = Inr p1 \<and> disableReading 0 p1 = Inr p2 \<and> disableAll 0 p2 = Inr p3 \<and>
      epoll p2 5 = None \<and> epoll p3 5 = Some ({}, 0)"
    by (simp add: enableReading_def disableReading_def disableAll_def set_events_def updateChannel_def Poller_update_def epoll_ctl_def
        set_index_def isNoneEvent_def one_channel_def new_Channel_def Let_def)
  moreover have "tc_events ?k = {}" by (simp add: callback_def)
  ultimately show ?thesis using run by (auto simp: watched_def)
qed

end
