(* ===== verification/Execute_Wait.thy ===== *)
theory Execute_Wait
  imports Engine_Executor
begin

text \<open>
  \<open>EngineExecutor::ExecuteAndWait\<close> (\<open>serving/core/EngineExecutor.cc\<close>): the finish callback is wrapped so that it
  also reports to the waiting caller, the request is executed, and the caller blocks until the report.

  The flag of the wait state is part of the world: \<open>mark\<close> sets it and \<open>is_done\<close> reads it.  What other
  threads do to the context while the caller is blocked is a list of state transformers, one per
  wake-up; \<open>None\<close> is "still waiting".  \<open>between\<close> is what they do after the first test of \<open>finished\<close>.
\<close>

definition wait_callbacks :: "('w \<Rightarrow> 'w) \<Rightarrow> 'w Callbacks \<Rightarrow> 'w Callbacks" where
  "wait_callbacks mark cb =
     cb\<lparr>on_finish := Some (\<lambda>r ctx. let c = call_on_finish cb r ctx in c\<lparr>world := mark (world c)\<rparr>)\<rparr>"

fun wait_done :: "('w \<Rightarrow> bool) \<Rightarrow> ('w ServingContext \<Rightarrow> 'w ServingContext) list \<Rightarrow> 'w ServingContext \<Rightarrow> 'w ServingContext option" where
  "wait_done is_done [] ctx = (if is_done (world ctx) then Some ctx else None)"
| "wait_done is_done (f # fs) ctx = (if is_done (world ctx) then Some ctx else wait_done is_done fs (f ctx))"

definition ExecuteAndWait :: "environ \<Rightarrow> 'w Callbacks \<Rightarrow> ('w \<Rightarrow> 'w) \<Rightarrow> ('w \<Rightarrow> bool) \<Rightarrow> int \<Rightarrow> nat
    \<Rightarrow> ('w ServingContext \<Rightarrow> 'w ServingContext) \<Rightarrow> ('w ServingContext \<Rightarrow> 'w ServingContext) list
    \<Rightarrow> 'w ServingContext \<Rightarrow> exec_task ModelQueue \<Rightarrow> ('w ServingContext \<times> exec_task ModelQueue) option" where
  "ExecuteAndWait e cb mark is_done now ref between others ctx mq =
     (if finished ctx then Some (ctx, mq)
      else case Execute e (wait_callbacks mark cb) now ref (between ctx) mq of
             (ok, need, ctx1, mq1) \<Rightarrow> map_option (\<lambda>c. (c, mq1)) (wait_done is_done others ctx1))"

section \<open>Lemmas\<close>

lemma wait_done_returns:
  assumes "is_done (world (fold (\<lambda>f c. f c) fs ctx))" and "\<And>f c. f \<in> set fs \<Longrightarrow> is_done (world c) \<Longrightarrow> is_done (world (f c))"
  shows "\<exists>c. wait_done is_done fs ctx = Some c \<and> is_done (world c)"
  using assms by (induction fs arbitrary: ctx) auto

lemma wait_done_never:
  assumes "\<not> is_done (world ctx)" and "\<And>f c. f \<in> set fs \<Longrightarrow> \<not> is_done (world c) \<Longrightarrow> \<not> is_done (world (f c))"
  shows "wait_done is_done fs ctx = None"
  using assms by (induction fs arbitrary: ctx) auto

lemma wait_callbacks_behave:
  assumes "well_behaved_callbacks cb"
  shows "well_behaved_callbacks (wait_callbacks mark cb)"
proof (rule well_behaved_callbacks.intro)
  fix f c ctx
  assume "on_chunk (wait_callbacks mark cb) = Some f"
  then show "same_request (f c ctx) ctx \<and> finished (f c ctx) = finished ctx \<and> finish_reason (f c ctx) = finish_reason ctx"
    using well_behaved_callbacks.chunk_frame [OF assms] by (simp add: wait_callbacks_def)
next
  fix g r ctx
  assume "on_finish (wait_callbacks mark cb) = Some g"
  then have "g r ctx = (call_on_finish cb r ctx)\<lparr>world := mark (world (call_on_finish cb r ctx))\<rparr>"
    by (auto simp: wait_callbacks_def Let_def)
  then show "same_request (g r ctx) ctx \<and> finished (g r ctx) = finished ctx \<and> finish_reason (g r ctx) = finish_reason ctx"
    using well_behaved_callbacks.call_on_finish_frame [OF assms, of r ctx] by (simp add: same_request_def)
qed

lemma call_on_finish_wait:
  "call_on_finish (wait_callbacks mark cb) r ctx = (call_on_finish cb r ctx)\<lparr>world := mark (world (call_on_finish cb r ctx))\<rparr>"
  by (simp add: call_on_finish_def wait_callbacks_def Let_def)

lemma EmitFinish_marks:
  assumes "\<not> finished ctx"
  shows "\<exists>w. world (EmitFinish (wait_callbacks mark cb) r ctx) = mark w"
  using assms by (simp add: EmitFinish_def call_on_finish_wait) blast

section \<open>Properties\<close>

text \<open>
  A request that cannot be queued does not block the caller: \<open>ExecuteAndWait\<close> returns at once with
  the request finished; one that is queued returns as soon as the finish callback has run on some
  thread, provided nobody takes the report back.
\<close>

theorem execute_and_wait_returns:
  assumes "well_behaved_callbacks cb" and "\<And>w. is_done (mark w)" and "\<not> finished ctx"
    and "Execute e (wait_callbacks mark cb) now ref ctx mq = (ok, need, ctx1, mq1)"
    and "\<And>f c. f \<in> set others \<Longrightarrow> is_done (world c) \<Longrightarrow> is_done (world (f c))"
    and "ok \<Longrightarrow> \<exists>w. world (fold (\<lambda>f c. f c) others ctx1) = mark w"
  shows "\<exists>c. ExecuteAndWait e cb mark is_done now ref id others ctx mq = Some (c, mq1) \<and> (\<not> ok \<longrightarrow> c = ctx1 \<and> finished c)"
proof (cases ok)
  case True
  then obtain w0 where "world (fold (\<lambda>f c. f c) others ctx1) = mark w0" using assms(6) by blast
  then have "is_done (world (fold (\<lambda>f c. f c) others ctx1))" using assms(2) by simp
  from wait_done_returns [of is_done others ctx1, OF this] assms(5) obtain c where "wait_done is_done others ctx1 = Some c" by blast
  then show ?thesis using assms(3,4) True by (simp add: ExecuteAndWait_def)
next
  case False
  have ctx1: "ctx1 = EmitFinish (wait_callbacks mark cb) Error
      (set_overloaded (''EngineExecutor: model queue full, model='' @ ctx_model ctx) ctx)"
    using assms(3,4) False by (auto simp: Execute_def Let_def split: prod.splits if_splits)
  have open_ctx: "\<not> finished (set_overloaded m ctx)" for m using assms(3) by (simp add: set_overloaded_def)
  have "finished ctx1" unfolding ctx1
    using well_behaved_callbacks.EmitFinish_finished [OF wait_callbacks_behave [OF assms(1)]] by simp
  moreover have "is_done (world ctx1)"
    using EmitFinish_marks [OF open_ctx] assms(2) unfolding ctx1 by metis
  then have "wait_done is_done others ctx1 = Some ctx1" by (cases others) simp_all
  ultimately show ?thesis using assms(3,4) False by (simp add: ExecuteAndWait_def)
qed

text \<open>
  A request that another thread finishes after the test and before the callback is wrapped is never
  reported: \<open>Execute\<close> refuses it without finishing it again, and the caller waits for ever.
\<close>

theorem execute_and_wait_may_hang:
  assumes "\<not> finished ctx" and "finished (between ctx)" and "\<not> is_done (world (between ctx))"
    and "\<And>f c. f \<in> set others \<Longrightarrow> \<not> is_done (world c) \<Longrightarrow> \<not> is_done (world (f c))"
  shows "ExecuteAndWait e cb mark is_done now ref between others ctx mq = None"
  using assms(1,2) wait_done_never [of is_done "between ctx" others] assms(3,4) by (simp add: ExecuteAndWait_def Execute_def)

definition quiet :: "bool Callbacks" where
  "quiet = \<lparr>on_chunk = None, on_finish = None\<rparr>"

theorem execute_and_wait_returns_witness:
  "\<exists>c. ExecuteAndWait Map.empty quiet (\<lambda>_. True) id 5 0 id [EmitFinish (wait_callbacks (\<lambda>_. True) quiet) Stop]
     (new_context False) new_ModelQueue = Some (c, snd (snd (snd (Execute Map.empty (wait_callbacks (\<lambda>_. True) quiet) 5 0 (new_context False) new_ModelQueue))))"
proof -
  let ?cb = "wait_callbacks (\<lambda>_. True) quiet"
  have wb: "well_behaved_callbacks quiet"
    by (auto simp: quiet_def intro!: well_behaved_callbacks.intro)
  obtain ok need ctx1 mq1 where ex: "Execute Map.empty ?cb 5 0 (new_context False) new_ModelQueue = (ok, need, ctx1, mq1)"
    by (metis prod_cases4)
  have c1: "ok \<Longrightarrow> ctx1 = new_context False"
    using ex by (auto simp: Execute_def Let_def new_context_def split: prod.splits if_splits)
  have keep: "id (world c) \<Longrightarrow> id (world (EmitFinish ?cb Stop c))" for c :: "bool ServingContext"
    by (simp add: EmitFinish_def call_on_finish_def call_on_chunk_def wait_callbacks_def quiet_def Let_def)
  have ends: "ok \<Longrightarrow> \<exists>w. world (fold (\<lambda>f c. f c) [EmitFinish ?cb Stop] ctx1) = (\<lambda>_ :: bool. True) w"
    using c1 by (simp add: EmitFinish_def call_on_finish_def call_on_chunk_def wait_callbacks_def quiet_def new_context_def Let_def)
  have "\<exists>c. ExecuteAndWait Map.empty quiet (\<lambda>_. True) id 5 0 id [EmitFinish ?cb Stop] (new_context False) new_ModelQueue = Some (c, mq1)
      \<and> (\<not> ok \<longrightarrow> c = ctx1 \<and> finished c)"
    by (rule execute_and_wait_returns [OF wb _ _ ex]) (use keep ends in \<open>auto simp: new_context_def\<close>)
  then show ?thesis using ex by auto
qed

end
