(* ===== verification/Demo_Clients.thy ===== *)
theory Demo_Clients
  imports Demo_Server
begin

text \<open>
  The client threads of the demonstration server side by side (\<open>demo/llm_server.cpp\<close>: \<open>handle_client\<close>,
  \<open>get_or_create_session\<close> and \<open>main\<close>).  The table of sessions maps names to session objects in a heap; the
  mutex makes a look-up, a creation and an erasure one step each.  A chat keeps its reference to the
  object without the mutex, and uses it in two steps: recording the question, and generating and recording
  the answer.  Using an object that was destroyed, or that another thread is using, is undefined behaviour.
  A schedule is the list of the threads in the order of their steps.
\<close>

section \<open>Requests in parts\<close>

datatype demo_req = Reply "json list" bool | ResetSession string | ChatTurn string json

definition reset_line :: "string \<Rightarrow> json" where
  "reset_line sid = JObject [(''message'', JString ''session reset''), (''session_id'', JString sid), (''type'', JString ''reset'')]"

definition parse_line :: "'l demo_env \<Rightarrow> string \<Rightarrow> demo_req res" where
  "parse_line env line =
     (if line = [] then Inr (Reply [] True)
      else case de_parse env line of
        Inl what \<Rightarrow> Inr (Reply [JObject [(''message'', JString (''invalid json: '' @ what)), (''raw'', JString line), (''type'', JString ''error'')]] True)
      | Inr req \<Rightarrow>
          rbind (value_string req ''type'' ''chat'') (\<lambda>type. rbind (value_string req ''session_id'' ''default'') (\<lambda>sid.
            if type = ''exit'' then Inr (Reply [JObject [(''session_id'', JString sid), (''type'', JString ''bye'')]] False)
            else rbind (value_bool req ''reset'' False) (\<lambda>reset_flag.
              if type = ''reset'' \<or> reset_flag then Inr (ResetSession sid)
              else if type = ''chat'' then Inr (ChatTurn sid req)
              else Inr (Reply [demo_error (''unknown request type: '' @ type)] True)))))"

definition chat_prompt :: "'l demo_env \<Rightarrow> json \<Rightarrow> 'l demo_session \<Rightarrow> (json + 'l demo_session \<times> bool) res" where
  "chat_prompt env req s =
     (case json_find req ''prompt'' of
        None \<Rightarrow> Inr (Inl (demo_error ''missing 'prompt' field''))
      | Some p \<Rightarrow> rbind (get_string p) (\<lambda>prompt. rbind (value_bool req ''stream'' False) (\<lambda>streaming.
          Inr (Inr (user_turn env prompt s, streaming)))))"

definition chat_reply :: "'l demo_env \<Rightarrow> string \<Rightarrow> bool \<Rightarrow> 'l demo_session \<Rightarrow> json list \<times> 'l demo_session" where
  "chat_reply env sid streaming s = (if streaming then chat_stream env sid s else chat_plain env sid s)"

section \<open>Threads\<close>

datatype client_pc = Reading | AtPrompt string nat json | Generating string nat bool | Closed

record demo_client =
  dc_pc :: client_pc
  dc_lines :: "string list"
  dc_out :: "json list"

record 'l demo_world =
  g_sessions :: "string \<rightharpoonup> nat"
  dw_heap :: "nat \<rightharpoonup> 'l demo_session"
  dw_next :: nat
  dw_clients :: "demo_client list"

fun held :: "client_pc \<Rightarrow> (string \<times> nat) option" where
  "held (AtPrompt sid a req) = Some (sid, a)"
| "held (Generating sid a b) = Some (sid, a)"
| "held _ = None"

definition put_client :: "nat \<Rightarrow> client_pc \<Rightarrow> string list \<Rightarrow> json list \<Rightarrow> 'l demo_world \<Rightarrow> 'l demo_world" where
  "put_client i pc lines out w = w\<lparr>dw_clients := (dw_clients w)[i := \<lparr>dc_pc = pc, dc_lines = lines, dc_out = out\<rparr>]\<rparr>"

definition ref_session :: "'l demo_env \<Rightarrow> string \<Rightarrow> 'l demo_world \<Rightarrow> (nat \<times> 'l demo_world) res" where
  "ref_session env sid w =
     (case g_sessions w sid of
        Some a \<Rightarrow> Inr (a, w)
      | None \<Rightarrow> rbind (de_new_llm env) (\<lambda>l.
          Inr (dw_next w, w\<lparr>g_sessions := (g_sessions w)(sid \<mapsto> dw_next w),
            dw_heap := (dw_heap w)(dw_next w \<mapsto> \<lparr>d_llm = l, d_history = []\<rparr>), dw_next := Suc (dw_next w)\<rparr>)))"

definition erase_session :: "string \<Rightarrow> 'l demo_world \<Rightarrow> 'l demo_world" where
  "erase_session sid w =
     (case g_sessions w sid of
        None \<Rightarrow> w
      | Some a \<Rightarrow> w\<lparr>g_sessions := (g_sessions w)(sid := None), dw_heap := (dw_heap w)(a := None)\<rparr>)"

definition use_session :: "nat \<Rightarrow> nat \<Rightarrow> 'l demo_world \<Rightarrow> 'l demo_session res" where
  "use_session i a w =
     (if \<exists>j < length (dw_clients w). j \<noteq> i \<and> map_option snd (held (dc_pc (dw_clients w ! j))) = Some a
      then Inl UndefinedBehaviour
      else case dw_heap w a of None \<Rightarrow> Inl UndefinedBehaviour | Some s \<Rightarrow> Inr s)"

definition client_step :: "'l demo_env \<Rightarrow> nat \<Rightarrow> 'l demo_world \<Rightarrow> 'l demo_world res" where
  "client_step env i w =
     (let cl = dw_clients w ! i; out = dc_out cl
      in case dc_pc cl of
           Closed \<Rightarrow> Inr w
         | Reading \<Rightarrow>
             (case dc_lines cl of
                [] \<Rightarrow> Inr (put_client i Closed [] out w)
              | line # rest \<Rightarrow> rbind (parse_line env line) (\<lambda>r.
                  case r of
                    Reply ls go_on \<Rightarrow> Inr (put_client i (if go_on then Reading else Closed) rest (out @ ls) w)
                  | ResetSession sid \<Rightarrow> Inr (put_client i Reading rest (out @ [reset_line sid]) (erase_session sid w))
                  | ChatTurn sid req \<Rightarrow> rbind (ref_session env sid w) (\<lambda>(a, w1). Inr (put_client i (AtPrompt sid a req) rest out w1))))
         | AtPrompt sid a req \<Rightarrow>
             rbind (use_session i a w) (\<lambda>s. rbind (chat_prompt env req s) (\<lambda>r.
               case r of
                 Inl e \<Rightarrow> Inr (put_client i Reading (dc_lines cl) (out @ [e]) w)
               | Inr (s1, streaming) \<Rightarrow>
                   Inr (put_client i (Generating sid a streaming) (dc_lines cl) out (w\<lparr>dw_heap := (dw_heap w)(a \<mapsto> s1)\<rparr>))))
         | Generating sid a streaming \<Rightarrow>
             rbind (use_session i a w) (\<lambda>s.
               let (ls, s2) = chat_reply env sid streaming s
               in Inr (put_client i Reading (dc_lines cl) (out @ ls) (w\<lparr>dw_heap := (dw_heap w)(a \<mapsto> s2)\<rparr>))))"

text \<open>A schedule; a number that is no thread's does nothing.\<close>

fun run_clients :: "'l demo_env \<Rightarrow> nat list \<Rightarrow> 'l demo_world \<Rightarrow> 'l demo_world res" where
  "run_clients env [] w = Inr w"
| "run_clients env (i # sched) w = rbind (if i < length (dw_clients w) then client_step env i w else Inr w) (run_clients env sched)"

text \<open>
  \<open>main\<close>: the exit code when the server cannot listen, and otherwise the descriptors for which a thread is
  started, from the results of \<open>accept\<close>; a failed \<open>accept\<close> is skipped.
\<close>

record demo_os =
  dos_socket :: int
  dos_bind :: int
  dos_listen :: int

definition demo_main :: "'l demo_env \<Rightarrow> demo_os \<Rightarrow> int list \<Rightarrow> (int + int list) res" where
  "demo_main env os accepts =
     rbind (de_new_llm env) (\<lambda>_.
       if dos_socket os < 0 then Inr (Inl 1)
       else if dos_bind os < 0 then Inr (Inl 1)
       else if dos_listen os < 0 then Inr (Inl 1)
       else Inr (Inr (filter (\<lambda>fd. 0 \<le> fd) accepts)))"

definition start_clients :: "string list \<Rightarrow> 'l demo_world" where
  "start_clients inps = \<lparr>g_sessions = Map.empty, dw_heap = Map.empty, dw_next = 0,
     dw_clients = map (\<lambda>inp. \<lparr>dc_pc = Reading, dc_lines = complete_lines [] inp, dc_out = []\<rparr>) inps\<rparr>"

section \<open>One thread alone\<close>

lemma handle_line_parts:
  "handle_line env line st =
     rbind (parse_line env line) (\<lambda>r.
       case r of
         Reply ls go_on \<Rightarrow> Inr (ls, go_on, st)
       | ResetSession sid \<Rightarrow> Inr ([reset_line sid], True, AList.delete sid st)
       | ChatTurn sid req \<Rightarrow> rbind (handle_chat env req sid st) (\<lambda>(ls, st1). Inr (ls, True, st1)))"
proof (cases "line = []")
  case True
  then show ?thesis by (simp add: handle_line_def parse_line_def)
next
  case False
  show ?thesis
  proof (cases "de_parse env line")
    case (Inr req)
    then show ?thesis using False
      by (cases "value_string req ''type'' ''chat''"; cases "value_string req ''session_id'' ''default''"; cases "value_bool req ''reset'' False")
         (auto simp: handle_line_def parse_line_def reset_line_def)
  qed (use False in \<open>simp add: handle_line_def parse_line_def\<close>)
qed

lemma handle_chat_parts:
  "handle_chat env req sid st =
     rbind (get_or_create_session env sid st) (\<lambda>(s, st1). rbind (chat_prompt env req s) (\<lambda>r.
       case r of
         Inl e \<Rightarrow> Inr ([e], st1)
       | Inr (s1, streaming) \<Rightarrow> (case chat_reply env sid streaming s1 of (ls, s2) \<Rightarrow> Inr (ls, AList.update sid s2 st1))))"
proof (cases "get_or_create_session env sid st")
  case (Inr p)
  obtain s st1 where p: "p = (s, st1)" by (cases p)
  show ?thesis
  proof (cases "json_find req ''prompt''")
    case (Some q)
    then show ?thesis using Inr p
      by (cases "get_string q"; cases "value_bool req ''stream'' False")
         (auto simp: handle_chat_def chat_prompt_def chat_reply_def Let_def split: prod.splits)
  qed (use Inr p in \<open>simp add: handle_chat_def chat_prompt_def\<close>)
qed (simp add: handle_chat_def)

lemma parse_line_names:
  "parse_line env line = Inr (ResetSession sid) \<Longrightarrow> names_session env sid line"
  "parse_line env line = Inr (ChatTurn sid req) \<Longrightarrow> names_session env sid line"
  by (auto simp: parse_line_def names_session_def split: if_splits sum.splits)

section \<open>Threads do not disturb each other\<close>

text \<open>The session object behind a name, and what a thread alone has still to send.\<close>

definition session_of :: "'l demo_world \<Rightarrow> string \<Rightarrow> 'l demo_session option" where
  "session_of w sid = Option.bind (g_sessions w sid) (dw_heap w)"

definition prepend :: "json list \<Rightarrow> (json list \<times> 'l demo_state) res \<Rightarrow> (json list \<times> 'l demo_state) res" where
  "prepend ls r = rbind r (\<lambda>(ms, st). Inr (ls @ ms, st))"

definition answer_rest :: "'l demo_env \<Rightarrow> string \<Rightarrow> bool \<Rightarrow> 'l demo_session \<Rightarrow> string list \<Rightarrow> 'l demo_state \<Rightarrow> (json list \<times> 'l demo_state) res" where
  "answer_rest env sid streaming s lines st =
     (case chat_reply env sid streaming s of (ls, s2) \<Rightarrow> prepend ls (serve_lines env lines (AList.update sid s2 st)))"

fun rest_of :: "'l demo_env \<Rightarrow> 'l demo_world \<Rightarrow> client_pc \<Rightarrow> string list \<Rightarrow> 'l demo_state \<Rightarrow> (json list \<times> 'l demo_state) res" where
  "rest_of env w Closed lines st = Inr ([], st)"
| "rest_of env w Reading lines st = serve_lines env lines st"
| "rest_of env w (AtPrompt sid a req) lines st =
     (case map_of st sid of
        None \<Rightarrow> Inl UndefinedBehaviour
      | Some s \<Rightarrow> rbind (chat_prompt env req s) (\<lambda>r.
          case r of Inl e \<Rightarrow> prepend [e] (serve_lines env lines st) | Inr (s1, streaming) \<Rightarrow> answer_rest env sid streaming s1 lines st))"
| "rest_of env w (Generating sid a streaming) lines st =
     (case dw_heap w a of None \<Rightarrow> Inl UndefinedBehaviour | Some s \<Rightarrow> answer_rest env sid streaming s lines st)"

lemma prepend_Inr: "prepend ls r = Inr (ms, st) \<longleftrightarrow> (\<exists>ns. r = Inr (ns, st) \<and> ms = ls @ ns)"
  by (cases r) (auto simp: prepend_def)

lemma serve_lines_Cons:
  "serve_lines env (line # lines) st =
     rbind (parse_line env line) (\<lambda>r.
       case r of
         Reply ls go_on \<Rightarrow> if go_on then prepend ls (serve_lines env lines st) else Inr (ls, st)
       | ResetSession sid \<Rightarrow> prepend [reset_line sid] (serve_lines env lines (AList.delete sid st))
       | ChatTurn sid req \<Rightarrow> rbind (get_or_create_session env sid st) (\<lambda>(s, st1). rest_of env undefined (AtPrompt sid undefined req) lines st1))"
proof (cases "parse_line env line")
  case (Inr r)
  show ?thesis
  proof (cases r)
    case (ChatTurn sid req)
    show ?thesis
    proof (cases "get_or_create_session env sid st")
      case created: (Inr p)
      obtain s st1 where p: "p = (s, st1)" by (cases p)
      have "map_of st1 sid = Some s" using created p
        by (auto simp: get_or_create_session_def Let_def update_conv' split: option.splits)
      then show ?thesis using Inr ChatTurn created p
        by (cases "chat_prompt env req s")
           (auto simp: handle_line_parts handle_chat_parts prepend_def answer_rest_def split: sum.splits prod.splits)
    qed (use Inr ChatTurn in \<open>simp add: handle_line_parts handle_chat_parts\<close>)
  qed (use Inr in \<open>auto simp: handle_line_parts prepend_def\<close>)
qed (simp add: handle_line_parts)

definition world_ok :: "'l demo_world \<Rightarrow> bool" where
  "world_ok w \<longleftrightarrow> (\<forall>sid a. g_sessions w sid = Some a \<longrightarrow> dw_heap w a \<noteq> None \<and> a < dw_next w)
     \<and> (\<forall>sid sid' a. g_sessions w sid = Some a \<longrightarrow> g_sessions w sid' = Some a \<longrightarrow> sid = sid')"

definition agree :: "string set \<Rightarrow> 'l demo_world \<Rightarrow> 'l demo_world \<Rightarrow> bool" where
  "agree S w w' \<longleftrightarrow> (\<forall>sid \<in> S. g_sessions w' sid = g_sessions w sid \<and> (\<forall>a. g_sessions w sid = Some a \<longrightarrow> dw_heap w' a = dw_heap w a))"

text \<open>
  A thread that owns the names \<open>S\<close> and is to send \<open>target\<close> in all: its view of the table is a sequential
  table \<open>st\<close>, from which the rest of its run alone sends what is missing.
\<close>

definition thread_ok :: "'l demo_env \<Rightarrow> string set \<Rightarrow> json list \<Rightarrow> 'l demo_world \<Rightarrow> demo_client \<Rightarrow> 'l demo_state \<Rightarrow> bool" where
  "thread_ok env S target w cl st \<longleftrightarrow>
     (\<forall>line sid. line \<in> set (dc_lines cl) \<longrightarrow> names_session env sid line \<longrightarrow> sid \<in> S)
     \<and> (\<forall>sid a. held (dc_pc cl) = Some (sid, a) \<longrightarrow> sid \<in> S \<and> g_sessions w sid = Some a)
     \<and> (\<forall>sid \<in> S. (\<forall>a b. dc_pc cl \<noteq> Generating sid a b) \<longrightarrow> map_of st sid = session_of w sid)
     \<and> (\<exists>rest fin. rest_of env w (dc_pc cl) (dc_lines cl) st = Inr (rest, fin) \<and> target = dc_out cl @ rest)"

lemma rest_of_cong: "(\<And>sid a b. pc = Generating sid a b \<Longrightarrow> dw_heap w' a = dw_heap w a) \<Longrightarrow> rest_of env w' pc lines st = rest_of env w pc lines st"
  by (cases pc) simp_all

lemma thread_ok_frame:
  assumes "thread_ok env S target w cl st" "agree S w w'"
  shows "thread_ok env S target w' cl st"
proof -
  have "session_of w' sid = session_of w sid" if "sid \<in> S" for sid
    using assms(2) that by (cases "g_sessions w sid") (auto simp: agree_def session_of_def)
  moreover have "rest_of env w' (dc_pc cl) (dc_lines cl) st = rest_of env w (dc_pc cl) (dc_lines cl) st"
    using assms by (intro rest_of_cong) (auto simp: thread_ok_def agree_def)
  moreover have "g_sessions w' sid = g_sessions w sid" if "sid \<in> S" for sid using assms(2) that by (simp add: agree_def)
  ultimately show ?thesis using assms(1) unfolding thread_ok_def by simp
qed

lemma put_client_fields [simp]:
  "g_sessions (put_client i pc ls out w) = g_sessions w" "dw_heap (put_client i pc ls out w) = dw_heap w"
  "dw_next (put_client i pc ls out w) = dw_next w" "length (dw_clients (put_client i pc ls out w)) = length (dw_clients w)"
  "i < length (dw_clients w) \<Longrightarrow> dw_clients (put_client i pc ls out w) ! i = \<lparr>dc_pc = pc, dc_lines = ls, dc_out = out\<rparr>"
  "j \<noteq> i \<Longrightarrow> dw_clients (put_client i pc ls out w) ! j = dw_clients w ! j"
  "session_of (put_client i pc ls out w) = session_of w" "world_ok (put_client i pc ls out w) = world_ok w"
  "agree S w' (put_client i pc ls out w) = agree S w' w"
  by (simp_all add: put_client_def session_of_def world_ok_def agree_def fun_eq_iff)

lemma rest_of_put_client [simp]: "rest_of env (put_client i pc' ls out w) pc lines st = rest_of env w pc lines st"
  by (rule rest_of_cong) simp

text \<open>What the three changes of the table do to the names of others.\<close>

lemma world_okD:
  assumes "world_ok w" "g_sessions w sid = Some a"
  shows "dw_heap w a \<noteq> None" "a < dw_next w" "g_sessions w sid' = Some a \<Longrightarrow> sid' = sid"
  using assms unfolding world_ok_def by blast+

lemma erase_session_ok:
  assumes "world_ok w"
  shows "world_ok (erase_session sid w)" "agree (- {sid}) w (erase_session sid w)"
    "session_of (erase_session sid w) = (session_of w)(sid := None)" "dw_clients (erase_session sid w) = dw_clients w"
proof -
  show "dw_clients (erase_session sid w) = dw_clients w" by (simp add: erase_session_def split: option.splits)
  show "world_ok (erase_session sid w)"
    using assms by (auto simp: erase_session_def world_ok_def split: option.splits)
  have diff: "b \<noteq> a" if "g_sessions w sid = Some a" "g_sessions w sid' = Some b" "sid' \<noteq> sid" for a b sid'
    using world_okD(3) [OF assms that(1), of sid'] that by auto
  then show "agree (- {sid}) w (erase_session sid w)"
    by (auto simp: erase_session_def agree_def split: option.splits)
  show "session_of (erase_session sid w) = (session_of w)(sid := None)"
  proof (cases "g_sessions w sid")
    case None
    then show ?thesis by (auto simp: erase_session_def session_of_def)
  next
    case (Some a)
    show ?thesis
    proof
      fix sid'
      show "session_of (erase_session sid w) sid' = ((session_of w)(sid := None)) sid'"
        using Some diff [OF Some, of sid'] by (cases "g_sessions w sid'") (auto simp: erase_session_def session_of_def)
    qed
  qed
qed

lemma write_session_ok:
  assumes "world_ok w" "g_sessions w sid = Some a"
  shows "world_ok (w\<lparr>dw_heap := (dw_heap w)(a \<mapsto> s)\<rparr>)" "agree (- {sid}) w (w\<lparr>dw_heap := (dw_heap w)(a \<mapsto> s)\<rparr>)"
    "session_of (w\<lparr>dw_heap := (dw_heap w)(a \<mapsto> s)\<rparr>) = (session_of w)(sid \<mapsto> s)"
proof -
  have diff: "b \<noteq> a" if "g_sessions w sid' = Some b" "sid' \<noteq> sid" for b sid'
    using world_okD(3) [OF assms, of sid'] that by auto
  show "world_ok (w\<lparr>dw_heap := (dw_heap w)(a \<mapsto> s)\<rparr>)" using assms by (simp add: world_ok_def)
  show "agree (- {sid}) w (w\<lparr>dw_heap := (dw_heap w)(a \<mapsto> s)\<rparr>)" using diff by (auto simp: agree_def)
  show "session_of (w\<lparr>dw_heap := (dw_heap w)(a \<mapsto> s)\<rparr>) = (session_of w)(sid \<mapsto> s)"
  proof
    fix sid'
    show "session_of (w\<lparr>dw_heap := (dw_heap w)(a \<mapsto> s)\<rparr>) sid' = ((session_of w)(sid \<mapsto> s)) sid'"
      using assms(2) diff [of sid'] by (cases "g_sessions w sid'") (auto simp: session_of_def)
  qed
qed

lemma ref_session_ok:
  assumes "world_ok w" "map_of st sid = session_of w sid" "get_or_create_session env sid st = Inr (s, st1)"
  shows "\<exists>a w1. ref_session env sid w = Inr (a, w1) \<and> world_ok w1 \<and> agree (- {sid}) w w1 \<and> g_sessions w1 sid = Some a
    \<and> session_of w1 = (session_of w)(sid \<mapsto> s) \<and> map_of st1 = (map_of st)(sid \<mapsto> s) \<and> dw_clients w1 = dw_clients w"
proof (cases "g_sessions w sid")
  case (Some a)
  then have "session_of w sid = dw_heap w a" "dw_heap w a \<noteq> None"
    using world_okD(1) [OF assms(1) Some] by (simp_all add: session_of_def)
  then have "map_of st sid = Some s" "st1 = st"
    using assms(2,3) by (auto simp: get_or_create_session_def Let_def split: option.splits)
  then show ?thesis using Some assms(1,2) by (intro exI [of _ a] exI [of _ w]) (auto simp: ref_session_def agree_def)
next
  case None
  then have "map_of st sid = None" using assms(2) by (simp add: session_of_def)
  then obtain l where l: "de_new_llm env = Inr l" "s = \<lparr>d_llm = l, d_history = []\<rparr>" "st1 = AList.update sid s st"
    using assms(3) by (auto simp: get_or_create_session_def Let_def)
  let ?w = "w\<lparr>g_sessions := (g_sessions w)(sid \<mapsto> dw_next w), dw_heap := (dw_heap w)(dw_next w \<mapsto> s), dw_next := Suc (dw_next w)\<rparr>"
  have fresh: "b \<noteq> dw_next w" if "g_sessions w sid' = Some b" for sid' b using world_okD(2) [OF assms(1) that] by simp
  have "world_ok ?w" using assms(1) fresh unfolding world_ok_def by (auto simp: less_Suc_eq split: if_splits)
  moreover have "agree (- {sid}) w ?w" using fresh by (auto simp: agree_def)
  moreover have "session_of ?w = (session_of w)(sid \<mapsto> s)"
  proof
    fix sid'
    show "session_of ?w sid' = ((session_of w)(sid \<mapsto> s)) sid'"
      using fresh [of sid'] by (cases "g_sessions w sid'") (auto simp: session_of_def)
  qed
  moreover have "map_of st1 = (map_of st)(sid \<mapsto> s)" using l(3) by (simp add: update_conv')
  ultimately show ?thesis using None l by (intro exI [of _ "dw_next w"] exI [of _ ?w]) (simp add: ref_session_def)
qed

lemma agree_sub: "agree A w w' \<Longrightarrow> B \<subseteq> A \<Longrightarrow> agree B w w'"
  by (auto simp: agree_def)

lemma agree_refl [simp]: "agree A w w"
  by (simp add: agree_def)

text \<open>The step of a thread: it succeeds, the thread stays on its course, and only its own names are touched.\<close>

definition stepped :: "'l demo_env \<Rightarrow> string set \<Rightarrow> json list \<Rightarrow> nat \<Rightarrow> 'l demo_world \<Rightarrow> 'l demo_world \<Rightarrow> bool" where
  "stepped env S target i w w' \<longleftrightarrow> world_ok w' \<and> (\<exists>st. thread_ok env S target w' (dw_clients w' ! i) st) \<and> agree (- S) w w'
     \<and> length (dw_clients w') = length (dw_clients w) \<and> (\<forall>j. j \<noteq> i \<longrightarrow> dw_clients w' ! j = dw_clients w ! j)"

text \<open>A world in which only the thread's own names changed, and in which the thread was put on.\<close>

lemma steppedI:
  assumes "i < length (dw_clients w)" "world_ok w1" "agree (- S) w w1" "dw_clients w1 = dw_clients w"
    and "thread_ok env S target w1 \<lparr>dc_pc = pc, dc_lines = lines, dc_out = out\<rparr> st"
  shows "stepped env S target i w (put_client i pc lines out w1)"
proof -
  have "thread_ok env S target (put_client i pc lines out w1) \<lparr>dc_pc = pc, dc_lines = lines, dc_out = out\<rparr> st"
    using assms(5) by (rule thread_ok_frame) (simp add: agree_def)
  then show ?thesis using assms by (auto simp: stepped_def)
qed

lemma own_name: "agree (- {sid}) w w1 \<Longrightarrow> sid \<in> S \<Longrightarrow> agree (- S) w w1"
  by (erule agree_sub) auto

definition others_elsewhere :: "nat \<Rightarrow> string set \<Rightarrow> 'l demo_world \<Rightarrow> bool" where
  "others_elsewhere i S w \<longleftrightarrow> (\<forall>j sid a. j < length (dw_clients w) \<longrightarrow> j \<noteq> i \<longrightarrow> held (dc_pc (dw_clients w ! j)) = Some (sid, a) \<longrightarrow>
     sid \<notin> S \<and> g_sessions w sid = Some a)"

lemma use_session_ok:
  assumes "world_ok w" "held (dc_pc (dw_clients w ! i)) = Some (sid, a)" "g_sessions w sid = Some a" "sid \<in> S"
    and "others_elsewhere i S w"
  shows "\<exists>s. dw_heap w a = Some s \<and> use_session i a w = Inr s"
proof -
  have "map_option snd (held (dc_pc (dw_clients w ! j))) \<noteq> Some a" if "j < length (dw_clients w)" "j \<noteq> i" for j
  proof
    assume "map_option snd (held (dc_pc (dw_clients w ! j))) = Some a"
    then obtain sid' where "held (dc_pc (dw_clients w ! j)) = Some (sid', a)" by auto
    with assms(5) that have "sid' \<notin> S" "g_sessions w sid' = Some a" unfolding others_elsewhere_def by blast+
    with world_okD(3) [OF assms(1,3)] assms(4) show False by blast
  qed
  then show ?thesis using world_okD(1) [OF assms(1,3)] by (auto simp: use_session_def)
qed

lemma reading_step:
  assumes "world_ok w" "i < length (dw_clients w)" "thread_ok env S target w (dw_clients w ! i) st"
    "dc_pc (dw_clients w ! i) = Reading"
  shows "\<exists>w'. client_step env i w = Inr w' \<and> stepped env S target i w w'"
proof (cases "dc_lines (dw_clients w ! i)")
  case Nil
  have "thread_ok env S target w \<lparr>dc_pc = Closed, dc_lines = [], dc_out = dc_out (dw_clients w ! i)\<rparr> st"
    using assms(3,4) Nil by (auto simp: thread_ok_def)
  then show ?thesis using steppedI [OF assms(2,1)] Nil assms(4) by (simp add: client_step_def Let_def)
next
  case (Cons line lines)
  let ?out = "dc_out (dw_clients w ! i)"
  have names: "\<And>l sid. l \<in> set (line # lines) \<Longrightarrow> names_session env sid l \<Longrightarrow> sid \<in> S"
    and view: "\<And>sid. sid \<in> S \<Longrightarrow> map_of st sid = session_of w sid"
    using assms(3,4) Cons by (auto simp: thread_ok_def)
  obtain rest fin where serve: "serve_lines env (line # lines) st = Inr (rest, fin)" "target = ?out @ rest"
    using assms(3,4) Cons by (auto simp: thread_ok_def)
  obtain r where r: "parse_line env line = Inr r" using serve(1) by (cases "parse_line env line") (auto simp: serve_lines_Cons simp del: serve_lines.simps)
  show ?thesis
  proof (cases r)
    case (Reply ls go_on)
    have "thread_ok env S target w \<lparr>dc_pc = (if go_on then Reading else Closed), dc_lines = lines, dc_out = ?out @ ls\<rparr> st"
      using names view serve r Reply by (auto simp: thread_ok_def serve_lines_Cons prepend_Inr simp del: serve_lines.simps split: if_splits)
    then show ?thesis using steppedI [OF assms(2,1)] Cons assms(4) r Reply by (simp add: client_step_def Let_def)
  next
    case (ResetSession sid)
    have sid: "sid \<in> S" using names [of line sid] parse_line_names(1) [of env line sid] r ResetSession by simp
    note er = erase_session_ok [OF assms(1), of sid]
    have "thread_ok env S target (erase_session sid w) \<lparr>dc_pc = Reading, dc_lines = lines, dc_out = ?out @ [reset_line sid]\<rparr> (AList.delete sid st)"
      using names view serve r ResetSession er(3) by (auto simp: thread_ok_def serve_lines_Cons prepend_Inr delete_conv' simp del: serve_lines.simps)
    then show ?thesis using steppedI [OF assms(2) er(1) own_name [OF er(2) sid] er(4)] Cons assms(4) r ResetSession
      by (simp add: client_step_def Let_def)
  next
    case (ChatTurn sid req)
    have sid: "sid \<in> S" using names [of line sid] parse_line_names(2) [of env line sid req] r ChatTurn by simp
    obtain s st1 where goc: "get_or_create_session env sid st = Inr (s, st1)"
      and run: "rest_of env undefined (AtPrompt sid undefined req) lines st1 = Inr (rest, fin)"
      using serve(1) r ChatTurn by (cases "get_or_create_session env sid st") (auto simp: serve_lines_Cons simp del: serve_lines.simps)
    obtain a w1 where w1: "ref_session env sid w = Inr (a, w1)" "world_ok w1" "agree (- {sid}) w w1" "g_sessions w1 sid = Some a"
        "session_of w1 = (session_of w)(sid \<mapsto> s)" "map_of st1 = (map_of st)(sid \<mapsto> s)" "dw_clients w1 = dw_clients w"
      using ref_session_ok [OF assms(1) view [OF sid] goc] by blast
    have "thread_ok env S target w1 \<lparr>dc_pc = AtPrompt sid a req, dc_lines = lines, dc_out = ?out\<rparr> st1"
      using names view serve(2) sid run w1(4-6) by (auto simp: thread_ok_def)
    then show ?thesis using steppedI [OF assms(2) w1(2) own_name [OF w1(3) sid] w1(7)] Cons assms(4) r ChatTurn w1(1)
      by (simp add: client_step_def Let_def)
  qed
qed

lemma chat_step:
  assumes "world_ok w" "i < length (dw_clients w)" "thread_ok env S target w (dw_clients w ! i) st"
    and "held (dc_pc (dw_clients w ! i)) = Some (sid, a)"
    and "others_elsewhere i S w"
  shows "\<exists>w'. client_step env i w = Inr w' \<and> stepped env S target i w w'"
proof -
  let ?out = "dc_out (dw_clients w ! i)" and ?lines = "dc_lines (dw_clients w ! i)"
  have own: "sid \<in> S" "g_sessions w sid = Some a" using assms(3,4) by (auto simp: thread_ok_def)
  obtain s where s: "dw_heap w a = Some s" "use_session i a w = Inr s" using use_session_ok [OF assms(1,4) own(2,1) assms(5)] by blast
  then have now: "session_of w sid = Some s" using own(2) by (simp add: session_of_def)
  have names: "\<And>l sid. l \<in> set ?lines \<Longrightarrow> names_session env sid l \<Longrightarrow> sid \<in> S" using assms(3) by (auto simp: thread_ok_def)
  have view: "\<And>sid'. sid' \<in> S \<Longrightarrow> sid' \<noteq> sid \<Longrightarrow> map_of st sid' = session_of w sid'"
    using assms(3,4) by (cases "dc_pc (dw_clients w ! i)") (auto simp: thread_ok_def)
  obtain rest fin where run: "rest_of env w (dc_pc (dw_clients w ! i)) ?lines st = Inr (rest, fin)" "target = ?out @ rest"
    using assms(3) by (auto simp: thread_ok_def)
  note wr = write_session_ok [OF assms(1) own(2)]
  show ?thesis
  proof (cases "dc_pc (dw_clients w ! i)")
    case (AtPrompt sid' a' req)
    then have pc: "dc_pc (dw_clients w ! i) = AtPrompt sid a req" using assms(4) by simp
    have st: "map_of st sid = Some s" using assms(3) own now pc by (auto simp: thread_ok_def)
    obtain r where r: "chat_prompt env req s = Inr r" using run(1) st pc by (cases "chat_prompt env req s") auto
    show ?thesis
    proof (cases r)
      case (Inl e)
      have "thread_ok env S target w \<lparr>dc_pc = Reading, dc_lines = ?lines, dc_out = ?out @ [e]\<rparr> st"
        using names view st now run r Inl pc by (auto simp: thread_ok_def prepend_Inr) metis
      then show ?thesis using steppedI [OF assms(2,1)] pc s(2) r Inl by (simp add: client_step_def Let_def)
    next
      case (Inr sb)
      obtain s1 streaming where sb: "sb = (s1, streaming)" by (cases sb)
      have "thread_ok env S target (w\<lparr>dw_heap := (dw_heap w)(a \<mapsto> s1)\<rparr>)
          \<lparr>dc_pc = Generating sid a streaming, dc_lines = ?lines, dc_out = ?out\<rparr> st"
        using names view st run r Inr sb pc own wr(3) [of s1] by (auto simp: thread_ok_def)
      then show ?thesis using steppedI [OF assms(2) wr(1) own_name [OF wr(2) own(1)]] pc s(2) r Inr sb by (simp add: client_step_def Let_def)
    qed
  next
    case (Generating sid' a' streaming)
    then have pc: "dc_pc (dw_clients w ! i) = Generating sid a streaming" using assms(4) by simp
    obtain ls s2 where reply: "chat_reply env sid streaming s = (ls, s2)" by (cases "chat_reply env sid streaming s")
    have "thread_ok env S target (w\<lparr>dw_heap := (dw_heap w)(a \<mapsto> s2)\<rparr>)
        \<lparr>dc_pc = Reading, dc_lines = ?lines, dc_out = ?out @ ls\<rparr> (AList.update sid s2 st)"
      using names view run reply s(1) pc wr(3) [of s2] by (auto simp: thread_ok_def answer_rest_def prepend_Inr update_conv')
    then show ?thesis using steppedI [OF assms(2) wr(1) own_name [OF wr(2) own(1)]] pc s(2) reply by (simp add: client_step_def Let_def)
  qed (use assms(4) in auto)
qed

section \<open>Properties\<close>

text \<open>All threads are on course, each with names of its own.\<close>

definition all_on_course :: "'l demo_env \<Rightarrow> (nat \<Rightarrow> string set) \<Rightarrow> (nat \<Rightarrow> json list) \<Rightarrow> 'l demo_world \<Rightarrow> bool" where
  "all_on_course env S target w \<longleftrightarrow> world_ok w \<and> (\<forall>i < length (dw_clients w). \<exists>st. thread_ok env (S i) (target i) w (dw_clients w ! i) st)"

lemma on_course_elsewhere:
  assumes "all_on_course env S target w" "i < length (dw_clients w)" "\<And>j. j < length (dw_clients w) \<Longrightarrow> j \<noteq> i \<Longrightarrow> S i \<inter> S j = {}"
  shows "others_elsewhere i (S i) w"
  unfolding others_elsewhere_def
proof (intro allI impI)
  fix j sid a
  assume j: "j < length (dw_clients w)" "j \<noteq> i" and h: "held (dc_pc (dw_clients w ! j)) = Some (sid, a)"
  then have "sid \<in> S j \<and> g_sessions w sid = Some a" using assms(1) by (auto simp: all_on_course_def thread_ok_def)
  then show "sid \<notin> S i \<and> g_sessions w sid = Some a" using assms(3) [OF j] by blast
qed

lemma client_step_on_course:
  assumes "all_on_course env S target w" "i < length (dw_clients w)"
    and dis: "\<And>i j. i < length (dw_clients w) \<Longrightarrow> j < length (dw_clients w) \<Longrightarrow> j \<noteq> i \<Longrightarrow> S i \<inter> S j = {}"
  shows "\<exists>w'. client_step env i w = Inr w' \<and> all_on_course env S target w' \<and> length (dw_clients w') = length (dw_clients w)"
proof -
  obtain st where st: "world_ok w" "thread_ok env (S i) (target i) w (dw_clients w ! i) st"
    using assms(1,2) by (auto simp: all_on_course_def)
  have "\<exists>w'. client_step env i w = Inr w' \<and> stepped env (S i) (target i) i w w'"
  proof (cases "dc_pc (dw_clients w ! i)")
    case Reading
    then show ?thesis by (rule reading_step [OF st(1) assms(2) st(2)])
  next
    case Closed
    then show ?thesis using st by (auto simp: client_step_def stepped_def)
  next
    case (AtPrompt sid a req)
    then show ?thesis using on_course_elsewhere [OF assms(1,2) dis] assms(2) by (intro chat_step [OF st(1) assms(2) st(2)]) auto
  next
    case (Generating sid a b)
    then show ?thesis using on_course_elsewhere [OF assms(1,2) dis] assms(2) by (intro chat_step [OF st(1) assms(2) st(2)]) auto
  qed
  then obtain w' where w': "client_step env i w = Inr w'" "stepped env (S i) (target i) i w w'" by blast
  have "\<exists>st. thread_ok env (S j) (target j) w' (dw_clients w' ! j) st" if "j < length (dw_clients w')" for j
  proof (cases "j = i")
    case False
    have "j < length (dw_clients w)" using that w'(2) by (simp add: stepped_def)
    then obtain st' where "thread_ok env (S j) (target j) w (dw_clients w ! j) st'"
      using assms(1) unfolding all_on_course_def by blast
    moreover have "agree (S j) w w'" using w'(2) dis [of i j] assms(2) False that by (auto simp: stepped_def intro: agree_sub)
    ultimately have "thread_ok env (S j) (target j) w' (dw_clients w ! j) st'" by (rule thread_ok_frame)
    then show ?thesis using False w'(2) unfolding stepped_def by metis
  qed (use w'(2) in \<open>auto simp: stepped_def\<close>)
  then show ?thesis using w' by (auto simp: all_on_course_def stepped_def)
qed

lemma run_clients_on_course:
  "all_on_course env S target w \<Longrightarrow> (\<And>i j. i < length (dw_clients w) \<Longrightarrow> j < length (dw_clients w) \<Longrightarrow> j \<noteq> i \<Longrightarrow> S i \<inter> S j = {}) \<Longrightarrow>
   \<exists>w'. run_clients env sched w = Inr w' \<and> all_on_course env S target w' \<and> length (dw_clients w') = length (dw_clients w)"
proof (induction sched arbitrary: w)
  case (Cons i sched)
  show ?case
  proof (cases "i < length (dw_clients w)")
    case True
    obtain w1 where w1: "client_step env i w = Inr w1" "all_on_course env S target w1" "length (dw_clients w1) = length (dw_clients w)"
      using client_step_on_course [OF Cons.prems(1) True Cons.prems(2)] by blast
    then show ?thesis using Cons.IH [OF w1(2)] Cons.prems(2) True by simp
  qed (use Cons in simp)
qed simp

lemma start_on_course:
  assumes "\<And>i line sid. i < length inps \<Longrightarrow> line \<in> set (complete_lines [] (inps ! i)) \<Longrightarrow> names_session env sid line \<Longrightarrow> sid \<in> S i"
    and "\<And>i. i < length inps \<Longrightarrow> \<exists>fin. serve_lines env (complete_lines [] (inps ! i)) [] = Inr (target i, fin)"
  shows "all_on_course env S target (start_clients inps)"
proof -
  have "thread_ok env (S i) (target i) (start_clients inps) (dw_clients (start_clients inps) ! i) []" if "i < length inps" for i
    using assms that by (fastforce simp: thread_ok_def start_clients_def session_of_def)
  then show ?thesis by (auto simp: all_on_course_def world_ok_def start_clients_def)
qed

text \<open>How many steps a thread still needs: three for a line, and one to close.\<close>

definition thread_work :: "demo_client \<Rightarrow> nat" where
  "thread_work cl =
     (case dc_pc cl of
        Closed \<Rightarrow> 0
      | Reading \<Rightarrow> 3 * length (dc_lines cl) + 1
      | Generating sid a b \<Rightarrow> 3 * length (dc_lines cl) + 2
      | AtPrompt sid a req \<Rightarrow> 3 * length (dc_lines cl) + 3)"

lemma ref_session_clients: "ref_session env sid w = Inr (a, w1) \<Longrightarrow> dw_clients w1 = dw_clients w"
  by (auto simp: ref_session_def split: option.splits)

lemma erase_session_clients [simp]: "dw_clients (erase_session sid w) = dw_clients w"
  by (simp add: erase_session_def split: option.splits)

lemma put_client_work:
  "dw_clients w1 = dw_clients w \<Longrightarrow> i < length (dw_clients w) \<Longrightarrow>
   thread_work \<lparr>dc_pc = pc, dc_lines = ls, dc_out = out\<rparr> \<le> thread_work (dw_clients w ! i) - 1 \<Longrightarrow> w' = put_client i pc ls out w1 \<Longrightarrow>
   length (dw_clients w') = length (dw_clients w) \<and> thread_work (dw_clients w' ! i) \<le> thread_work (dw_clients w ! i) - 1 \<and>
   (\<forall>j. j \<noteq> i \<longrightarrow> dw_clients w' ! j = dw_clients w ! j)"
  by (simp add: put_client_def)

lemma client_step_work:
  assumes "client_step env i w = Inr w'" "i < length (dw_clients w)"
  shows "length (dw_clients w') = length (dw_clients w) \<and> thread_work (dw_clients w' ! i) \<le> thread_work (dw_clients w ! i) - 1 \<and>
    (\<forall>j. j \<noteq> i \<longrightarrow> dw_clients w' ! j = dw_clients w ! j)"
proof (cases "dc_pc (dw_clients w ! i)")
  case Reading
  show ?thesis
  proof (cases "dc_lines (dw_clients w ! i)")
    case Nil
    show ?thesis
      using assms Reading Nil by (auto simp: client_step_def thread_work_def put_client_def)
  next
    case (Cons line lines)
    obtain r where r: "parse_line env line = Inr r" using assms(1) Reading Cons by (auto simp: client_step_def Let_def)
    show ?thesis
    proof (cases r)
      case (ChatTurn sid req)
      then obtain a w1 where w1: "ref_session env sid w = Inr (a, w1)" "w' = put_client i (AtPrompt sid a req) lines (dc_out (dw_clients w ! i)) w1"
        using assms(1) Reading Cons r by (auto simp: client_step_def Let_def)
      show ?thesis using ref_session_clients [OF w1(1)] assms(2) Reading Cons
        by (intro put_client_work [OF _ _ _ w1(2)]) (auto simp: thread_work_def)
    qed (use assms Reading Cons r in \<open>auto simp: client_step_def Let_def thread_work_def put_client_def\<close>)
  qed
next
  case (AtPrompt sid a req)
  obtain s r where r: "use_session i a w = Inr s" "chat_prompt env req s = Inr r" using assms(1) AtPrompt by (auto simp: client_step_def Let_def)
  then show ?thesis using assms AtPrompt by (cases r) (auto simp: client_step_def Let_def put_client_def thread_work_def)
next
  case (Generating sid a b)
  obtain s where "use_session i a w = Inr s" using assms(1) Generating by (auto simp: client_step_def Let_def)
  then show ?thesis using assms Generating
    by (cases "chat_reply env sid b s") (auto simp: client_step_def Let_def put_client_def thread_work_def)
next
  case Closed
  then show ?thesis using assms by (simp add: client_step_def thread_work_def)
qed

lemma run_clients_work:
  "run_clients env sched w = Inr w' \<Longrightarrow> i < length (dw_clients w) \<Longrightarrow>
   thread_work (dw_clients w' ! i) \<le> thread_work (dw_clients w ! i) - count_list sched i"
proof (induction sched arbitrary: w)
  case (Cons k sched)
  show ?case
  proof (cases "k < length (dw_clients w)")
    case True
    obtain w1 where w1: "client_step env k w = Inr w1" "run_clients env sched w1 = Inr w'" using Cons.prems(1) True by auto
    note st = client_step_work [OF w1(1) True]
    have "thread_work (dw_clients w' ! i) \<le> thread_work (dw_clients w1 ! i) - count_list sched i"
      using Cons.IH [OF w1(2)] st Cons.prems(2) by simp
    then show ?thesis using st by (cases "k = i") auto
  next
    case False
    then show ?thesis using Cons.IH [of w] Cons.prems by auto
  qed
qed simp


text \<open>Two clients, one of which chats in session \<open>a\<close> while the other asks for a session of its own.\<close>

definition two_clients_env :: "unit demo_env" where
  "two_clients_env = demo_env_ex\<lparr>de_parse := (\<lambda>line.
     if line = ''p'' then Inr (JObject [(''prompt'', JString ''hi''), (''session_id'', JString ''a'')])
     else if line = ''r'' then Inr (JObject [(''session_id'', JString ''a''), (''type'', JString ''reset'')])
     else if line = ''b'' then Inr (JObject [(''prompt'', JString ''hi''), (''session_id'', JString ''b'')])
     else Inl ''syntax'')\<rparr>"

lemma two_clients_fits [simp]: "prompt_fits (de_count two_clients_env l) hist"
  by (simp add: prompt_fits_def two_clients_env_def demo_env_ex_def MAX_CONTEXT_TOKENS_def)

definition response_line :: "string \<Rightarrow> json" where
  "response_line sid = JObject [(''finish_reason'', JString ''stop''), (''reply'', JString ''Hello. You''), (''session_id'', JString sid), (''type'', JString ''response'')]"

lemma two_clients_alone:
  "\<exists>fin. serve_lines two_clients_env [''p''] [] = Inr ([response_line ''a''], fin)"
  "\<exists>fin. serve_lines two_clients_env [''b''] [] = Inr ([response_line ''b''], fin)"
  by (simp_all add: handle_line_def handle_chat_def get_or_create_session_def user_turn_def chat_plain_def response_line_def
      two_clients_env_def demo_env_ex_def Let_def)


text \<open>
  A client that resets a session in which another is chatting destroys the object the other holds a
  reference to: the chat goes on with a freed session.
\<close>

theorem reset_during_chat_undefined:
  "run_clients two_clients_env [0, 1, 0] (start_clients [''p'' @ NL, ''r'' @ NL]) = Inl UndefinedBehaviour"
  by (simp add: start_clients_def strip_cr_def client_step_def parse_line_def two_clients_env_def demo_env_ex_def ref_session_def put_client_def
      erase_session_def use_session_def Let_def)

text \<open>\<open>main\<close> starts a thread for every accepted client, in order, unless it cannot listen.\<close>

lemma demo_main_serves:
  "de_new_llm env = Inr l \<Longrightarrow> 0 \<le> dos_socket os \<Longrightarrow> 0 \<le> dos_bind os \<Longrightarrow> 0 \<le> dos_listen os \<Longrightarrow>
   demo_main env os accepts = Inr (Inr (filter (\<lambda>fd. 0 \<le> fd) accepts))"
  "de_new_llm env = Inr l \<Longrightarrow> dos_socket os < 0 \<or> dos_bind os < 0 \<or> dos_listen os < 0 \<Longrightarrow> demo_main env os accepts = Inr (Inl 1)"
  by (auto simp: demo_main_def)

end
