(* ===== verification/Top_K.thy ===== *)
theory Top_K
  imports Cpp_Base "HOL-Library.Multiset"
begin

text \<open>
  Sampling among the most likely tokens (\<open>sample_top_k\<close> in \<open>node/llm/LLMUnit.cpp\<close>).  The arithmetic of
  \<open>float\<close> is a record of operations over any type, so that overflow and NaN are whatever the machine makes of
  them; the random number in the unit interval and \<open>std::partial_sort\<close> are arguments.
\<close>

record 'f float_ops =
  f_gt :: "'f \<Rightarrow> 'f \<Rightarrow> bool"
  f_le :: "'f \<Rightarrow> 'f \<Rightarrow> bool"
  f_max :: "'f \<Rightarrow> 'f \<Rightarrow> 'f"
  f_add :: "'f \<Rightarrow> 'f \<Rightarrow> 'f"
  f_div :: "'f \<Rightarrow> 'f \<Rightarrow> 'f"
  f_exp :: "'f \<Rightarrow> 'f"
  f_zero :: 'f
  f_eps :: 'f

type_synonym 'f partial_sorter = "nat \<Rightarrow> ('f \<times> nat) list \<Rightarrow> ('f \<times> nat) list"

text \<open>The exponentials of the scaled logits, and the loop that adds up probabilities until they reach \<open>r\<close>.\<close>

definition softmax :: "'f float_ops \<Rightarrow> 'f \<Rightarrow> ('f \<times> nat) list \<Rightarrow> 'f list" where
  "softmax ops temperature tops =
     (let evs = map (\<lambda>(l, _). f_exp ops (f_div ops l (f_max ops temperature (f_eps ops)))) tops;
          sum = fold (\<lambda>e s. f_add ops s e) evs (f_zero ops)
      in map (\<lambda>e. f_div ops e sum) evs)"

fun pick :: "'f float_ops \<Rightarrow> 'f \<Rightarrow> 'f \<Rightarrow> ('f \<times> nat) list \<Rightarrow> nat option" where
  "pick ops r cumsum [] = None"
| "pick ops r cumsum ((p, i) # ps) =
     (let c = f_add ops cumsum p in if f_le ops r c then Some i else pick ops r c ps)"

text \<open>
  \<open>logits\<close> is the array behind the pointer.  A negative vocabulary size fails in \<open>reserve\<close>; a negative
  \<open>top_k\<close> makes an iterator before the beginning; without tokens the fallback reads an empty vector.
\<close>

definition sample_top_k :: "'f float_ops \<Rightarrow> 'f partial_sorter \<Rightarrow> 'f \<Rightarrow> 'f list \<Rightarrow> int \<Rightarrow> int \<Rightarrow> 'f \<Rightarrow> nat res" where
  "sample_top_k ops psort r logits n_vocab top_k temperature =
     (if n_vocab < 0 then Inl (RuntimeError ''length_error'')
      else if length logits < nat n_vocab then Inl UndefinedBehaviour
      else let k = min top_k n_vocab
           in if k < 0 then Inl UndefinedBehaviour
              else let logit_id = psort (nat k) (zip (take (nat n_vocab) logits) [0 ..< nat n_vocab]);
                       tops = take (nat k) logit_id
                   in case pick ops r (f_zero ops) (zip (softmax ops temperature tops) (map snd tops)) of
                        Some t \<Rightarrow> Inr t
                      | None \<Rightarrow> (case logit_id of [] \<Rightarrow> Inl UndefinedBehaviour | (_, t) # _ \<Rightarrow> Inr t))"

text \<open>What \<open>std::partial_sort\<close> promises: a permutation whose first \<open>k\<close> elements no later one precedes.\<close>

definition partial_sorts :: "('f \<Rightarrow> 'f \<Rightarrow> bool) \<Rightarrow> 'f partial_sorter \<Rightarrow> bool" where
  "partial_sorts gt psort \<longleftrightarrow> (\<forall>k xs. k \<le> length xs \<longrightarrow> mset (psort k xs) = mset xs \<and>
     (\<forall>i j. i < k \<longrightarrow> i < j \<longrightarrow> j < length xs \<longrightarrow> \<not> gt (fst (psort k xs ! j)) (fst (psort k xs ! i))))"

section \<open>Properties\<close>

lemma pick_in: "pick ops r c ps = Some t \<Longrightarrow> t \<in> snd ` set ps"
proof (induction ops r c ps rule: pick.induct)
  case (2 ops r c p i ps)
  then show ?case by (cases "f_le ops r (f_add ops c p)") auto
qed simp

lemma length_softmax [simp]: "length (softmax ops temperature tops) = length tops"
  by (simp add: softmax_def Let_def)

lemma length_filter_fst: "length (filter P (map fst xs)) = length (filter (\<lambda>x. P (fst x)) xs)"
  by (simp add: filter_map comp_def)

text \<open>The elements of a partially sorted list that precede one of the first \<open>k\<close> lie before it.\<close>

lemma partial_sorts_above:
  assumes "partial_sorts gt psort" "k \<le> length xs" "i < k"
  shows "length (filter (\<lambda>x. gt (fst x) (fst (psort k xs ! i))) xs) \<le> i + (if gt (fst (psort k xs ! i)) (fst (psort k xs ! i)) then 1 else 0)"
proof -
  let ?ys = "psort k xs" and ?P = "\<lambda>x. gt (fst x) (fst (psort k xs ! i))"
  have ys: "mset ?ys = mset xs" "\<And>j. i < j \<Longrightarrow> j < length xs \<Longrightarrow> \<not> ?P (?ys ! j)"
    using assms unfolding partial_sorts_def by blast+
  then have len: "length ?ys = length xs" by (metis size_mset)
  have "mset (filter ?P ?ys) = mset (filter ?P xs)" using ys(1) by (simp add: mset_filter)
  then have "length (filter ?P xs) = length (filter ?P ?ys)" by (metis size_mset)
  also have "?ys = take i ?ys @ ?ys ! i # drop (Suc i) ?ys" using assms(2,3) len by (simp add: id_take_nth_drop)
  then have "filter ?P ?ys = filter ?P (take i ?ys) @ filter ?P [?ys ! i] @ filter ?P (drop (Suc i) ?ys)"
    by (metis append_Cons append_Nil filter_append)
  also have "filter ?P (drop (Suc i) ?ys) = []"
  proof -
    have "\<not> ?P (drop (Suc i) ?ys ! m)" if "m < length ?ys - Suc i" for m
      using ys(2) [of "Suc (i + m)"] len that by simp
    then show ?thesis by (metis filter_empty_conv in_set_conv_nth length_drop)
  qed
  finally show ?thesis using length_filter_le [of ?P "take i ?ys"] by (auto intro: order_trans)
qed

text \<open>
  Claim C35. As long as \<open>std::partial_sort\<close> sorts (which takes logits that are numbers), sampling with a vocabulary
  and a positive \<open>top_k\<close> returns a token of the vocabulary, and fewer than \<open>top_k\<close> tokens have a larger logit,
  whatever the exponentials, sums and quotients come to and whatever the random number is.
\<close>

theorem sample_top_k_among_best:
  assumes "partial_sorts (f_gt ops) psort" "0 < n_vocab" "nat n_vocab \<le> length logits" "0 < top_k"
    and "\<And>x. \<not> f_gt ops x x"
  shows "\<exists>t. sample_top_k ops psort r logits n_vocab top_k temperature = Inr t \<and> int t < n_vocab \<and>
    int (length (filter (\<lambda>l. f_gt ops l (logits ! t)) (take (nat n_vocab) logits))) < top_k"
proof -
  let ?n = "nat n_vocab" and ?k = "nat (min top_k n_vocab)"
  let ?xs = "zip (take ?n logits) [0 ..< ?n]"
  let ?ys = "psort ?k ?xs"
  have len: "length ?xs = ?n" "?k \<le> length ?xs" "0 < ?k" using assms(2-4) by auto
  have ys: "mset ?ys = mset ?xs" using assms(1) len(2) unfolding partial_sorts_def by blast
  then have leny: "length ?ys = ?n" using len(1) by (metis size_mset)
  have good: "\<exists>i < ?k. t = snd (?ys ! i)" if "sample_top_k ops psort r logits n_vocab top_k temperature = Inr t" for t
  proof -
    from that consider "t \<in> snd ` set (zip (softmax ops temperature (take ?k ?ys)) (map snd (take ?k ?ys)))" | "?ys \<noteq> []" "t = snd (hd ?ys)"
      using assms(2-4) by (auto simp: sample_top_k_def Let_def dest!: pick_in split: if_splits option.splits list.splits)
    then show ?thesis
    proof cases
      case 1
      then have "t \<in> set (map snd (take ?k ?ys))" by (auto dest: set_zip_rightD)
      then obtain i where "i < length (take ?k ?ys)" "t = snd (take ?k ?ys ! i)" by (auto simp: in_set_conv_nth)
      then show ?thesis by (intro exI [of _ i]) auto
    next
      case 2
      then show ?thesis using len(3) by (intro exI [of _ 0]) (simp add: hd_conv_nth)
    qed
  qed
  have "\<exists>t. sample_top_k ops psort r logits n_vocab top_k temperature = Inr t"
    using assms(2-4) leny by (cases ?ys) (auto simp: sample_top_k_def Let_def split: option.splits)
  then obtain t where t: "sample_top_k ops psort r logits n_vocab top_k temperature = Inr t" ..
  then obtain i where i: "i < ?k" "t = snd (?ys ! i)" using good by blast
  have "?ys ! i \<in> set ?xs" using i(1) len leny ys by (metis mset_eq_setD nth_mem order_less_le_trans)
  then have y: "t < ?n" "fst (?ys ! i) = logits ! t" using i(2) assms(3) by (auto simp: in_set_zip)
  have "length (filter (\<lambda>l. f_gt ops l (logits ! t)) (take ?n logits)) = length (filter (\<lambda>x. f_gt ops (fst x) (logits ! t)) ?xs)"
  proof -
    have "map fst ?xs = take ?n logits" using assms(3) by simp
    then show ?thesis using length_filter_fst [of "\<lambda>l. f_gt ops l (logits ! t)" ?xs] by simp
  qed
  also have "\<dots> \<le> i" using partial_sorts_above [OF assms(1) len(2) i(1)] assms(5) y(2) by simp
  finally show ?thesis using t y(1) i(1) by auto
qed

text \<open>A sampler over integers, with sorting by the whole key.\<close>

definition int_ops :: "int float_ops" where
  "int_ops = \<lparr>f_gt = (>), f_le = (\<le>), f_max = max, f_add = (+), f_div = (\<lambda>a b. a div b), f_exp = (\<lambda>x. x * x),
     f_zero = 0, f_eps = 1\<rparr>"

definition full_sort :: "int partial_sorter" where
  "full_sort k xs = sort_key (\<lambda>x. - fst x) xs"

lemma full_sort_partial: "partial_sorts (f_gt int_ops) full_sort"
proof -
  have "\<not> fst (full_sort k xs ! i) < fst (full_sort k xs ! j)" if "i < j" "j < length xs" for k xs i j
    using sorted_nth_mono [OF sorted_sort_key [of "\<lambda>x. - fst x" xs], of i j] that by (simp add: full_sort_def)
  then show ?thesis by (auto simp: partial_sorts_def int_ops_def full_sort_def)
qed

theorem sample_top_k_among_best_witness:
  "\<exists>t. sample_top_k int_ops full_sort 1 [3, 9, 4, 7] 4 2 1 = Inr t \<and> int t < 4 \<and>
     int (length (filter (\<lambda>l. f_gt int_ops l ([3, 9, 4, 7] ! t)) (take (nat 4) [3, 9, 4, 7]))) < 2"
  by (rule sample_top_k_among_best [OF full_sort_partial]) (simp_all add: int_ops_def)

text \<open>Without a vocabulary the fallback reads the first element of an empty vector.\<close>

theorem sample_top_k_empty_undefined:
  assumes "partial_sorts (f_gt ops) psort" "0 \<le> top_k"
  shows "sample_top_k ops psort r logits 0 top_k temperature = Inl UndefinedBehaviour"
proof -
  have "psort 0 [] = []" using assms(1) unfolding partial_sorts_def by (metis list.size(3) mset_zero_iff le_refl mset.simps(1))
  then show ?thesis using assms(2) by (simp add: sample_top_k_def softmax_def)
qed

text \<open>A negative \<open>top_k\<close> is not refused: the range handed to \<open>std::partial_sort\<close> starts before the vector.\<close>

theorem sample_top_k_negative_undefined:
  assumes "top_k < 0" "0 \<le> n_vocab"
  shows "sample_top_k ops psort r logits n_vocab top_k temperature = Inl UndefinedBehaviour"
  using assms by (simp add: sample_top_k_def Let_def)

end
