(* ===== verification/Programs.thy ===== *)
theory Programs
  imports Llm_Unit Pzmq
begin

text \<open>
  Two groups of small programs on top of the components: the interactive program around the model object
  (\<open>demo/llm_demo.cpp\<close>) and the sample client and server of the RPC layer (\<open>sample/rpc_call.cc\<close>,
  \<open>sample/rpc_server.cc\<close>, \<open>sample/pz_rpc_call.cc\<close>, \<open>sample/pz_rpc_server.cc\<close>).

  \<open>GenerateStream\<close>, which \<open>LLMUnit.h\<close> has commented out, is an argument: the chunks it passes to the callback, the
  message of the exception if it ends with one, and the object and library state it leaves.  What the program prints
  on its standard output is the result of the model.
\<close>

section \<open>The interactive program\<close>

type_synonym generator = "string \<Rightarrow> LLMUnit \<times> llama_world \<Rightarrow> (string list \<times> string option) \<times> LLMUnit \<times> llama_world"

definition greeting :: string where
  "greeting =
     ''Qwen C++ Chat, ''
     @ [CHR 0xE8, CHR 0xBE, CHR 0x93, CHR 0xE5, CHR 0x85, CHR 0xA5, CHR 0xE5, CHR 0x86, CHR 0x85, CHR 0xE5, CHR 0xAE, CHR 0xB9]
     @ [CHR 0xEF, CHR 0xBC, CHR 0x8C, CHR 0xE8, CHR 0xBE, CHR 0x93, CHR 0xE5, CHR 0x85, CHR 0xA5] @ '' exit / reset''"

definition you_prompt :: string where
  "you_prompt = NL @ ''You: ''"

definition demo_answer :: "generator \<Rightarrow> string \<Rightarrow> LLMUnit \<times> llama_world \<Rightarrow> string \<times> LLMUnit \<times> llama_world" where
  "demo_answer gen line uw =
     (case gen line uw of
        ((chunks, None), uw') \<Rightarrow> (''Qwen: '' @ concat chunks @ NL, uw')
      | ((chunks, Some what), uw') \<Rightarrow> (''Qwen: '' @ concat chunks, uw'))"

text \<open>
  A line of the input comes with the answers of the library while it is handled; the end of the list is the end
  of the input.  A reset that throws leaves \<open>main\<close> uncaught.
\<close>

fun demo_loop :: "generator \<Rightarrow> (lu_api \<times> string) list \<Rightarrow> LLMUnit \<times> llama_world \<Rightarrow> (string \<times> LLMUnit \<times> llama_world) res" where
  "demo_loop gen [] uw = Inr (you_prompt, uw)"
| "demo_loop gen ((api, line) # lines) uw =
     (if line = ''exit'' then Inr (you_prompt, uw)
      else if line = ''reset''
      then rbind (LLMUnit_Reset api (fst uw) (snd uw)) (\<lambda>(ok, u, w).
             if \<not> ok then Inl (RuntimeError ''Failed to create context'')
             else rbind (demo_loop gen lines (u, w)) (\<lambda>(out, uw'). Inr (you_prompt @ ''[Session reset]'' @ NL @ out, uw')))
      else case demo_answer gen line uw of
             (text1, uw1) \<Rightarrow> rbind (demo_loop gen lines uw1) (\<lambda>(out, uw'). Inr (you_prompt @ text1 @ out, uw')))"

definition demo_model_path :: string where
  "demo_model_path = ''/home/dongsong/workspace/models/qwen2.5-1.5b/qwen2.5-1.5b-instruct-q4_0.gguf''"

definition llm_demo_main :: "lu_api \<Rightarrow> generator \<Rightarrow> (lu_api \<times> string) list \<Rightarrow> llama_world \<Rightarrow> (string \<times> llama_world) res" where
  "llm_demo_main api gen lines w =
     rbind (new_LLMUnit api demo_model_path default_Config w) (\<lambda>(r, w1).
       case r of
         Inl e \<Rightarrow> Inl e
       | Inr u \<Rightarrow>
           rbind (demo_loop gen lines (u, w1)) (\<lambda>(out, u2, w2).
             rbind (delete_LLMUnit u2 w2) (\<lambda>w3. Inr (greeting @ NL @ out, w3))))"

text \<open>What the program relies on in the generator: it neither frees nor acquires handles.\<close>

definition keeps_handles :: "generator \<Rightarrow> bool" where
  "keeps_handles gen \<longleftrightarrow> (\<forall>line u w ms ks. owns ms ks u w \<longrightarrow> (case gen line (u, w) of (_, u', w') \<Rightarrow> owns ms ks u' w'))"

text \<open>Every reset the program performs finds room for a context.\<close>

definition resets_succeed :: "(lu_api \<times> string) list \<Rightarrow> bool" where
  "resets_succeed lines = list_all (\<lambda>(api, line). line = ''reset'' \<longrightarrow> (\<forall>m n t. lu_init api m n t)) lines"

lemma demo_loop_owns:
  assumes "keeps_handles gen" "resets_succeed lines" "owns ms ks u w"
  shows "\<exists>out u' w'. demo_loop gen lines (u, w) = Inr (out, u', w') \<and> owns ms ks u' w'"
  using assms(2,3)
proof (induction lines arbitrary: u w)
  case Nil
  then show ?case by simp
next
  case (Cons al lines)
  obtain api line where al: "al = (api, line)" by (cases al)
  consider "line = ''exit''" | "line = ''reset''" | "line \<noteq> ''exit''" "line \<noteq> ''reset''" by blast
  then show ?case
  proof cases
    case 1
    then show ?thesis using al Cons.prems(2) by simp
  next
    case 2
    then have "\<And>m n t. lu_init api m n t" using Cons.prems(1) al by (simp add: resets_succeed_def)
    then obtain u1 w1 where r: "LLMUnit_Reset api u w = Inr (True, u1, w1)" "owns ms ks u1 w1"
      using Cons.prems(2) LLMUnit_Reset_owns [OF Cons.prems(2), of api]
      by (cases "ctx_ptr u") (auto simp: LLMUnit_Reset_def init_context_def owns_def free_ctx_ptr_def free_context_def)
    then show ?thesis using Cons.IH [of u1 w1] Cons.prems(1) al 2 by (auto simp: resets_succeed_def)
  next
    case 3
    obtain res u1 w1 where g: "gen line (u, w) = (res, u1, w1)" by (metis prod_cases3)
    then have "owns ms ks u1 w1" using assms(1) [unfolded keeps_handles_def, rule_format, OF Cons.prems(2), of line] by simp
    then obtain out u' w' where "demo_loop gen lines (u1, w1) = Inr (out, u', w')" "owns ms ks u' w'"
      using Cons.IH [of u1 w1] Cons.prems(1) al by (auto simp: resets_succeed_def)
    then show ?thesis using 3 al g by (cases res) (auto simp: demo_answer_def split: option.split)
  qed
qed

text \<open>
  The interactive program ends with its input, whatever the model answers or throws: unless construction throws, it
  returns and has given back every handle of the library; what follows a line \<open>exit\<close> is not read.
\<close>

theorem llm_demo_gives_back:
  assumes "keeps_handles gen" "resets_succeed lines"
  shows "(\<exists>e. llm_demo_main api gen lines w = Inl e \<and> (\<exists>w1. new_LLMUnit api demo_model_path default_Config w = Inr (Inl e, w1)))
    \<or> (\<exists>out w'. llm_demo_main api gen lines w = Inr (out, w') \<and> lw_models w' = lw_models w \<and> lw_contexts w' = lw_contexts w)"
proof -
  obtain r w1 where new: "new_LLMUnit api demo_model_path default_Config w = Inr (r, w1)"
    "case r of Inl e \<Rightarrow> lw_models w1 = lw_models w \<and> lw_contexts w1 = lw_contexts w
       | Inr u \<Rightarrow> owns (lw_models w) (lw_contexts w) u w1 \<and> ctx_ptr u \<noteq> None"
    using new_LLMUnit_owns by meson
  show ?thesis
  proof (cases r)
    case (Inl e)
    then show ?thesis using new(1) by (simp add: llm_demo_main_def)
  next
    case (Inr u)
    then have "owns (lw_models w) (lw_contexts w) u w1" using new(2) by simp
    from demo_loop_owns [OF assms this] obtain out u2 w2
      where run: "demo_loop gen lines (u, w1) = Inr (out, u2, w2)" "owns (lw_models w) (lw_contexts w) u2 w2" by blast
    from delete_LLMUnit_owns [OF run(2)] show ?thesis using new(1) Inr run(1) by (auto simp: llm_demo_main_def)
  qed
qed

lemma demo_loop_exit: "demo_loop gen (xs @ (api, ''exit'') # ys) uw = demo_loop gen (xs @ [(api, ''exit'')]) uw"
proof (induction xs arbitrary: uw)
  case (Cons x xs)
  then show ?case by (cases x) (simp add: case_prod_beta cong: if_cong)
qed simp

text \<open>A reset for which there is no room is not caught: the program ends without its destructors.\<close>

theorem demo_reset_terminates:
  assumes "owns ms ks u w" "\<And>m n t. \<not> lu_init api m n t"
  shows "demo_loop gen ((api, ''reset'') # lines) (u, w) = Inl (RuntimeError ''Failed to create context'')"
  using assms by (cases "ctx_ptr u") (auto simp: LLMUnit_Reset_def init_context_def owns_def free_ctx_ptr_def free_context_def)

section \<open>The sample programs of the RPC layer\<close>

text \<open>\<open>fun1_\<close> of the server with parameters unpacks its argument before it answers.\<close>

definition fun1_params :: "'w rpc_action" where
  "fun1_params msg w =
     (rbind (get_param 0 [] msg) (\<lambda>param0. rbind (get_param 1 [] msg) (\<lambda>param1. Inr (set_param ''hello'' ''sorbai''))), w)"

definition fun1_plain :: "'w rpc_action" where "fun1_plain msg w = (Inr ''hello fun1'', w)"
definition fun2_plain :: "'w rpc_action" where "fun2_plain msg w = (Inr ''hello fun2'', w)"

definition pz_rpc_server_main :: "zmq_api \<Rightarrow> 'w rpc_action \<Rightarrow> string list \<Rightarrow> (string list \<times> 'w pzmq) res" where
  "pz_rpc_server_main api lst files =
     rbind (register_rpc_action api lst ''fun1'' fun1_params files (new_pzmq_rpc ''test'')) (\<lambda>(ret, files', p). Inr (files', p))"

definition rpc_server_main :: "zmq_api \<Rightarrow> 'w rpc_action \<Rightarrow> string list \<Rightarrow> (string list \<times> 'w pzmq) res" where
  "rpc_server_main api lst files =
     rbind (register_rpc_action api lst ''fun1'' fun1_plain files (new_pzmq_rpc ''test'')) (\<lambda>(ret, files1, p1).
     rbind (register_rpc_action api lst ''fun2'' fun2_plain files1 p1) (\<lambda>(ret, files', p). Inr (files', p)))"

text \<open>The clients: what they print for each call whose callback runs.\<close>

definition pz_rpc_call_main :: "zmq_api \<Rightarrow> string list \<Rightarrow> (string \<times> string) option res" where
  "pz_rpc_call_main api files =
     rbind (call_rpc_action api ''fun1'' (set_param ''bilibili'' ''sorbai'') files (new_pzmq_rpc ''test'' :: unit pzmq)) (\<lambda>(ret, answer, _, _).
       case answer of
         None \<Rightarrow> Inr None
       | Some msg \<Rightarrow> rbind (get_param 0 [] msg) (\<lambda>r0. rbind (get_param 1 [] msg) (\<lambda>r1. Inr (Some (r0, r1)))))"

definition rpc_call_main :: "zmq_api \<Rightarrow> string list \<Rightarrow> (string option \<times> string option) res" where
  "rpc_call_main api files =
     rbind (call_rpc_action api ''fun1'' ''call fun1_'' files (new_pzmq_rpc ''test'' :: unit pzmq)) (\<lambda>(ret1, answer1, files1, p1).
     rbind (call_rpc_action api ''fun2'' ''call fun2_'' files1 p1) (\<lambda>(ret2, answer2, _, _). Inr (answer1, answer2)))"

text \<open>The server's socket file, and a library that carries requests to the event loop of a server.\<close>

definition test_url :: string where "test_url = ''ipc:///tmp/rpc.test''"
definition test_file :: string where "test_file = ''/tmp/rpc.test''"

definition serves :: "zmq_api \<Rightarrow> 'w pzmq \<Rightarrow> 'w \<Rightarrow> bool" where
  "serves api p w \<longleftrightarrow> api_connect api test_url = 0 \<and>
     (\<forall>a d. api_request api test_url (a, d) =
        (case dispatch (map_of (zmq_fun p)) a d w of Inl _ \<Rightarrow> None | Inr (r, _) \<Rightarrow> Some r))"

lemma test_socket: "socket_file test_url = Inr test_file" "default_rpc_head @ ''test'' = test_url"
  by (simp_all add: socket_file_def substr_def test_url_def test_file_def default_rpc_head_def rpc_url_head_length_def)

lemma call_test:
  fixes p :: "unit pzmq"
  assumes "api_connect api test_url = 0" "test_file \<in> set files" "rpc_url_head p = default_rpc_head" "rpc_server p = ''test''" "\<not> zmq_socket p"
  shows "\<exists>p'. call_rpc_action api a d files p =
      Inr (0, Some (case api_request api test_url (a, d) of None \<Rightarrow> [] | Some r \<Rightarrow> r), files, p')
    \<and> rpc_url_head p' = default_rpc_head \<and> rpc_server p' = ''test'' \<and> \<not> zmq_socket p'"
proof -
  have "default_rpc_head \<noteq> []" by (simp add: default_rpc_head_def)
  then show ?thesis using assms test_socket
    by (simp add: call_rpc_action_def creat_def creat_req_def close_zmq_def is_bind_def Let_def)
qed

lemma new_pzmq_rpc_test: "rpc_url_head (new_pzmq_rpc ''test'') = default_rpc_head" "rpc_server (new_pzmq_rpc ''test'') = ''test''"
    "\<not> zmq_socket (new_pzmq_rpc ''test'')"
  by (simp_all add: new_pzmq_rpc_def str_contains_def starts_with_def)

lemma sample_server_tables:
  "pz_rpc_server_main sapi lst files0 = Inr (files1, p) \<Longrightarrow> map_of (zmq_fun p) ''fun1'' = Some fun1_params"
  "rpc_server_main sapi lst files0 = Inr (files1, p) \<Longrightarrow>
     map_of (zmq_fun p) ''fun1'' = Some fun1_plain \<and> map_of (zmq_fun p) ''fun2'' = Some fun2_plain"
  by (auto simp: pz_rpc_server_main_def rpc_server_main_def register_rpc_action_def creat_def new_pzmq_rpc_def set_action_def Let_def
      split: prod.splits)

text \<open>
  The sample clients and servers agree end to end: a client that finds the socket file and a library that
  carries its requests to the event loop of the sample server gets the two parameters \<open>hello\<close> and \<open>sorbai\<close>, and
  the plain client gets the answers of both functions over the same object, one call after the other.
\<close>

theorem sample_rpc_end_to_end:
  assumes "pz_rpc_server_main sapi lst files0 = Inr (files1, p)" "serves api p w" "test_file \<in> set files"
    and "rpc_server_main sapi lst files0 = Inr (files2, q)" "serves papi q w"
  shows "pz_rpc_call_main api files = Inr (Some (''hello'', ''sorbai''))
    \<and> rpc_call_main papi files = Inr (Some ''hello fun1'', Some ''hello fun2'')"
proof
  have conn: "api_connect api test_url = 0" "api_connect papi test_url = 0" using assms(2,5) by (simp_all add: serves_def)
  have short: "length ''bilibili'' < 128" "int (length ''bilibili'' + length ''sorbai'') < int_max"
    "length ''hello'' < 128" "int (length ''hello'' + length ''sorbai'') < int_max" by (simp_all add: int_max_def)
  have "dispatch (map_of (zmq_fun p)) ''fun1'' (set_param ''bilibili'' ''sorbai'') w = Inr (set_param ''hello'' ''sorbai'', w)"
    using sample_server_tables(1) [OF assms(1)] get_param_set_param(1,2) [OF short(1,2)] by (simp add: dispatch_def fun1_params_def)
  then have "api_request api test_url (''fun1'', set_param ''bilibili'' ''sorbai'') = Some (set_param ''hello'' ''sorbai'')"
    using assms(2) by (simp add: serves_def)
  then show "pz_rpc_call_main api files = Inr (Some (''hello'', ''sorbai''))"
    using call_test [OF conn(1) assms(3) new_pzmq_rpc_test, of "''fun1''" "set_param ''bilibili'' ''sorbai''"]
      get_param_set_param(1,2) [OF short(3,4)] by (auto simp: pz_rpc_call_main_def)
  have req: "api_request papi test_url (''fun1'', d) = Some ''hello fun1''" "api_request papi test_url (''fun2'', d) = Some ''hello fun2''" for d
    using assms(5) sample_server_tables(2) [OF assms(4)] by (simp_all add: serves_def dispatch_def fun1_plain_def fun2_plain_def)
  obtain p1 where one: "call_rpc_action papi ''fun1'' ''call fun1_'' files (new_pzmq_rpc ''test'' :: unit pzmq) = Inr (0, Some ''hello fun1'', files, p1)"
    "rpc_url_head p1 = default_rpc_head" "rpc_server p1 = ''test''" "\<not> zmq_socket p1"
    using call_test [OF conn(2) assms(3) new_pzmq_rpc_test, of "''fun1''" "''call fun1_''"] req(1) by auto
  then show "rpc_call_main papi files = Inr (Some ''hello fun1'', Some ''hello fun2'')"
    using call_test [OF conn(2) assms(3) one(2-4), of "''fun2''" "''call fun2_''"] req(2) by (auto simp: rpc_call_main_def)
qed


text \<open>A server that does not answer leaves the message empty, and the callback then reads a parameter of nothing.\<close>

theorem unanswered_sample_call_undefined:
  assumes "api_connect api test_url = 0" "test_file \<in> set files" "\<And>r. api_request api test_url r = None"
  shows "pz_rpc_call_main api files = Inl UndefinedBehaviour"
  using call_test [OF assms(1,2) new_pzmq_rpc_test, of "''fun1''" "set_param ''bilibili'' ''sorbai''"] assms(3)
  by (auto simp: pz_rpc_call_main_def get_param_def)

section \<open>Examples\<close>

definition sample_zmq :: "unit pzmq \<Rightarrow> zmq_api" where
  "sample_zmq p = \<lparr>api_bind = \<lambda>_ files. (0, files), api_connect = \<lambda>_. 0,
     api_request = \<lambda>_ (a, d). case dispatch (map_of (zmq_fun p)) a d () of Inl _ \<Rightarrow> None | Inr (r, _) \<Rightarrow> Some r\<rparr>"

theorem sample_rpc_end_to_end_witness:
  "\<exists>api papi. pz_rpc_call_main api [test_file] = Inr (Some (''hello'', ''sorbai''))
     \<and> rpc_call_main papi [test_file] = Inr (Some ''hello fun1'', Some ''hello fun2'')"
proof -
  let ?lst = "\<lambda>m w. (Inr [], w) :: string res \<times> unit"
  let ?z = "sample_zmq (new_pzmq_rpc ''test'')"
  obtain f1 p where p: "pz_rpc_server_main ?z ?lst [] = Inr (f1, p)"
    by (simp add: pz_rpc_server_main_def register_rpc_action_def creat_def new_pzmq_rpc_def sample_zmq_def Let_def)
  obtain f2 q where q: "rpc_server_main ?z ?lst [] = Inr (f2, q)"
    by (simp add: rpc_server_main_def register_rpc_action_def creat_def new_pzmq_rpc_def sample_zmq_def Let_def set_action_def)
  have "serves (sample_zmq p) p ()" "serves (sample_zmq q) q ()" by (simp_all add: serves_def sample_zmq_def)
  then show ?thesis using sample_rpc_end_to_end [OF p _ _ q, of "sample_zmq p" "()" "[test_file]" "sample_zmq q"] by auto
qed

definition echo_generator :: generator where
  "echo_generator line uw = (([line], None), uw)"

definition demo_api :: lu_api where
  "demo_api = lu_api_ex\<lparr>lu_load := (\<lambda>_. True)\<rparr>"

theorem llm_demo_gives_back_witness:
  "\<exists>out w'. llm_demo_main demo_api echo_generator [(demo_api, ''hi''), (demo_api, ''exit'')]
      \<lparr>lw_models = [], lw_contexts = [], lw_next = 0, lw_backend = False\<rparr> = Inr (out, w') \<and> lw_models w' = []"
proof -
  let ?w = "\<lparr>lw_models = [], lw_contexts = [], lw_next = 0, lw_backend = False\<rparr>"
  have gen: "keeps_handles echo_generator" "resets_succeed [(demo_api, ''hi''), (demo_api, ''exit'')]"
    by (simp_all add: keeps_handles_def echo_generator_def resets_succeed_def)
  have "\<exists>u w1. new_LLMUnit demo_api demo_model_path default_Config ?w = Inr (Inr u, w1)"
    by (simp add: unit_ops demo_api_def lu_api_ex_def default_Config_def)
  then show ?thesis using llm_demo_gives_back [OF gen, of demo_api ?w] by auto
qed

end
