(* ===== verification/Spec2Isabelle.thy ===== *)
theory Spec2Isabelle
  imports Gateway_Handlers Http_Process Unit_Sessions Tcp_Client Llm_Node Engine_Life Rpc_Engine Reactor Execute_Wait
    Demo_Clients Top_K Programs
begin

text \<open>
  A verification development of the llm\_MultimodalServer serving stack.

  \<^bold>\<open>The program.\<close>  A server for large language models in two halves that share a network library.

  The HTTP half: a reactor in the style of muduo (\<open>network/\<close>) accepts connections and moves bytes; an
  HTTP server (\<open>serving/http/NetworkHttpServer\<close>) cuts the bytes of a connection into requests; the gateway
  (\<open>serving/http/HttpGateway\<close>) turns chat requests into request contexts (\<open>serving/core/ServingContext.h\<close>),
  finds the session of the conversation (\<open>serving/core/SessionManager\<close>) and queues the request; executors on a
  thread pool run one request of a session and of a model at a time (\<open>serving/core/SessionExecutor\<close>,
  \<open>EngineExecutor\<close>, \<open>ThreadPool\<close>); an engine (\<open>engine/\<close>) tokenises, decodes and samples and emits text, which
  goes back as one JSON reply or as server-sent events.

  The message-bus half: a unit manager (\<open>unit-manager/\<close>) listens to users over TCP and to units over ZeroMQ
  RPC, hands out ports and addresses and routes requests; units (\<open>infra-controller/\<close>, \<open>node/test\<close>) register with
  it, set up tasks with channels, and answer on the address of the user's session; \<open>hybrid-comm/\<close> wraps the
  bus.  A line-based demonstration server (\<open>demo/llm_server.cpp\<close>) uses a model object of its own
  (\<open>node/llm/LLMUnit\<close>).

  \<^bold>\<open>Conventions.\<close>  A \<open>std::string\<close> is a list of bytes.  A call that throws, fails an assertion, logs a fatal
  error or is undefined behaviour returns \<open>Inl\<close> of a \<open>cpp_error\<close>.  Sequential code is a function on explicit
  states; code that runs on several threads is an inductive step relation whose steps are the critical
  sections and the atomic operations, with \<open>reachable\<close> its reachable states.  Where a sequential function may
  be interfered with by other threads, what they do is a list of state transformers, one per point at which
  the code looks.  Libraries outside the repository (llama, libzmq, the kernel, the JSON parser and
  printer) are arguments; what a theorem needs of them is a named predicate, and its witness has an
  instance.

  \<^bold>\<open>The theories\<close>, from the bottom up.

  \<^item> \<open>Cpp_Base\<close>: results and errors, string functions, decimal numbers and \<open>stoi\<close>, the environment,
    reachability.  \<open>Json_Value\<close>: JSON values and their accessors.  \<open>C_Format\<close>: the formats of
    \<open>sprintf\<close> and \<open>sscanf\<close> that the unit manager uses.
  \<^item> \<open>Net_Buffer\<close> (\<open>Buffer.h\<close>, \<open>Buffer.cc\<close>, \<open>Endian.h\<close>): the growing buffer with its two indices.  Its
    invariant is kept by every operation, appended bytes come out in order, integers make the round trip.
  \<^item> \<open>Inet_Address\<close> (\<open>InetAddress.cc\<close>, \<open>SocketsOps.cc\<close>, \<open>Socket.cc\<close>): addresses, their printed forms, which
    are never cut, and the failures of \<open>accept\<close>.
  \<^item> \<open>Event_Loop\<close> (\<open>Channel.cc\<close>, \<open>Poller.cc\<close>, \<open>EventLoop.cc\<close>): interest masks, the poller's map and the
    kernel's list in step; the functor queue, first in first out, without a lost wake-up.
    \<open>Event_Poll\<close>: \<open>poll\<close> with its event array, the wake-up channel, and \<open>EventLoopThread.cc\<close>.
    \<open>Reactor\<close>: an iteration of a loop with many connections on one poller, which serves exactly what the kernel
    reports and keeps poller, kernel and connections in agreement.
  \<^item> \<open>Tcp_Connection\<close> (\<open>TcpConnection.cc\<close>): the state machine of a connection; bytes arrive in order,
    callbacks follow the state, no event runs into an assertion.  \<open>Tcp_Server\<close> (\<open>TcpServer.cc\<close>,
    \<open>Acceptor.cc\<close>, \<open>EventLoopThreadPool.cc\<close>): the table of connections and the choice of loops.
    \<open>Tcp_Client\<close> (\<open>TcpClient.cc\<close>, \<open>Connector.cc\<close>): every socket accounted for, and when a client can be destroyed.
  \<^item> \<open>Serving_Context\<close>: a request with its callbacks; \<open>EmitFinish\<close> by several threads at once.  The locale
    \<open>well_behaved_callbacks\<close> is the contract the engines rely on.
  \<^item> \<open>Session_Manager\<close>: sessions, the least-recently-used list and eviction, a refinement of an abstract list.
    \<open>Thread_Pool\<close>, \<open>Executors\<close>: workers and serial queues, order, bounds and completion.
  \<^item> \<open>Engines\<close> (\<open>LlamaEngine.cc\<close>, \<open>ModelContext.cc\<close>, \<open>DummyEngine.cc\<close>, \<open>EngineFactory.cc\<close>): a run always
    finishes its request and keeps the positions of the KV cache consecutive.  \<open>Engine_Life\<close>: construction and
    destruction of the llama engine, and concurrent calls of the factory, which share one engine per model and leak
    no handle.  \<open>Engine_Executor\<close>, \<open>Execute_Wait\<close>: \<open>Execute\<close>, the queued closure and the blocking variant.  \<open>Rpc_Engine\<close>
    (\<open>RpcEngine.cc\<close>, \<open>StackFlowsClient.cc\<close>): the engine over RPC and its streams.
  \<^item> \<open>Stream_Writer\<close>, \<open>Http_Response\<close>, \<open>Http_Server\<close>, \<open>Http_Gateway\<close>, \<open>Gateway_Handlers\<close>
    (\<open>OpenAIStreamWriter.cc\<close>, \<open>NetworkHttpTypes.h\<close>, \<open>HttpStreamSession.cc\<close>, \<open>NetworkHttpServer.cc\<close>,
    \<open>HttpGateway.cc\<close>): UTF-8 safe events, wire formats, framing of requests, and each handler as a whole, from
    the request to the bytes on the connection.  \<open>Http_Main\<close> (\<open>http_main.cc\<close>): configuration and start.
    \<open>Http_Process\<close>: \<open>main\<close> as a whole, which puts the server and the session manager into the initial states
    the other theories assume, and the thread of the gateway that collects sessions.
  \<^item> \<open>Pzmq\<close> (\<open>pzmq.hpp\<close>, \<open>pzmq_data.cpp\<close>): the parameter encoding and the RPC loop, which is equivalent to
    dispatching requests one after the other; the locale \<open>rpc_service\<close> gives a service that loop, and
    \<open>Unit_Manager\<close> interprets it for the manager's actions.
  \<^item> \<open>Unit_Manager\<close>, \<open>Unit_Router\<close> (\<open>remote_server.cpp\<close>, \<open>unit_data.cpp\<close>, \<open>config.cpp\<close>, \<open>zmq_bus.cpp\<close>,
    \<open>remote_action.cpp\<close>, \<open>tcp_comm.cpp\<close>): ports and units, routing of user requests, sessions.
  \<^item> \<open>Server_Life\<close> (\<open>TcpServer.cc\<close>, \<open>Acceptor.cc\<close>, \<open>unit-manager/src/main.cpp\<close>, \<open>tcp_comm.cpp\<close>): construction,
    start and destruction of a server, and the start of the unit manager, which puts the table of units and
    the server into the initial states the other theories assume.  \<open>Unit_Sessions\<close> (\<open>tcp_comm.cpp\<close>,
    \<open>zmq_bus.cpp\<close>, \<open>main.cpp\<close>): the contexts of connections have the type the callbacks expect, the counter of
    ports under concurrent connections, and the end of the process by a signal.
  \<^item> \<open>Stack_Flow_Util\<close>, \<open>Llm_Channel\<close>, \<open>Stack_Flow\<close> (\<open>StackFlowUtil.cpp\<close>, \<open>channel.cpp\<close>, \<open>StackFlow.cpp\<close>): the
    JSON scanner and streamed input, channels, and the event loop of a unit, with the composition of unit
    and manager.  \<open>Llm_Node\<close> (\<open>node/test/src/main.cpp\<close>): the unit \<open>llm\<close>, whose state extends that of the
    flow and whose handlers are the flow's hooks.
  \<^item> \<open>Demo_Server\<close> (\<open>demo/llm_server.cpp\<close>), \<open>Llm_Unit\<close> (\<open>LLMUnit.cpp\<close>): lines, sessions, history trimming
    and chat turns; the model object and the handles it owns.  \<open>Demo_Clients\<close>: the threads of several clients on one
    table of sessions, which do not disturb each other while they name different sessions.  \<open>Top_K\<close>:
    \<open>sample_top_k\<close> over an arbitrary arithmetic.  \<open>Programs\<close> (\<open>demo/llm_demo.cpp\<close>, \<open>sample/\<close>): the interactive
    program and the sample clients and servers of the RPC layer, end to end.

  \<^bold>\<open>Fuel and bounds.\<close>  Loops whose end depends on the data recurse on it or on a measure.  Fuel appears in
  \<open>handle_client\<close> (one more than the number of bytes is enough, and this is proved) and in
  \<open>destroy_StackFlow\<close> (two rounds are enough: the second throws).  A wait or a loop that depends on other
  threads or on the kernel takes the list of what happens meanwhile and returns \<open>None\<close> when the list ends too
  early; the theorems that such code returns say which list is enough.

  \<^bold>\<open>Not modelled.\<close>  The vendored JSON library and the libzmq headers, generated build files, logging, the sample
  publisher and subscriber, and the tests.  Of the repository's own code: the commented-out generators of
  \<open>LLMUnit.cpp\<close>, which are arguments where they are called, and the wrappers that only pass a system call on
  (socket options, \<open>read\<close>, \<open>write\<close>, \<open>close\<close>) with \<open>InetAddress::resolve\<close>, whose results are arguments.
  \<open>DecodeOneToken\<close> is called in \<open>LLMUnit.cpp\<close> but defined nowhere and is an argument.  Memory is modelled where
  ownership or aliasing matters (sessions, connections, model handles, stream workers, destroyed servers and
  clients); data races on plain fields beyond those named in the theories are not, nor is the memory held by
  reference cycles.
\<close>

end
